(* ===== verification/Prelude.thy ===== *)
theory Prelude
  imports "HOL-Library.Multiset" "HOL-Library.Finite_Map" "HOL-Library.Signed_Division"
    "HOL-Library.Monad_Syntax"
begin

text \<open>
  Shared vocabulary of the development: how Go values are represented and the generic facts on
  lists that several components use.

  \<^item> A Go pointer to a mutable struct is an address \<open>addr\<close>; the structs live in a memory, a
    function from addresses to records, that the operations thread explicitly. A pointer that may
    be \<open>nil\<close> is an \<open>option\<close>.
  \<^item> \<open>time.Time\<close> is the number of nanoseconds since the zero value \<open>time.Time{}\<close>, which is 0;
    \<open>After\<close> and \<open>Before\<close> are the strict order. Every call of \<open>time.Now()\<close> is an argument of the
    definition that makes it.
  \<^item> A Go \<open>int\<close> that the code only stores and compares is an \<open>int\<close>; where the code increments it,
    the 64-bit wrap-around is written out with \<open>wrap64\<close>.
  \<^item> A Go \<open>map\<close> is a finite map; the order in which a \<open>range\<close> loop visits its keys is not
    specified by the language, so it is an argument (a list of keys) of the definition that loops.
  \<^item> A run-time panic is \<open>None\<close>; the monadic notation of the option type propagates it.
\<close>

type_synonym addr = nat
type_synonym go_time = int
type_synonym go_duration = int

definition wrap64 :: "int \<Rightarrow> int" where
  "wrap64 x = signed_take_bit 63 x"

definition is_int64 :: "int \<Rightarrow> bool" where
  "is_int64 x \<longleftrightarrow> - (2 ^ 63) \<le> x \<and> x < 2 ^ 63"

definition swap_list :: "'a list \<Rightarrow> nat \<Rightarrow> nat \<Rightarrow> 'a list" where
  "swap_list xs i j = xs[i := xs ! j, j := xs ! i]"

text \<open>\<open>append(xs[:i], xs[i+1:]...)\<close>: the slice without its \<open>i\<close>-th element.\<close>

definition remove_nth :: "nat \<Rightarrow> 'a list \<Rightarrow> 'a list" where
  "remove_nth i xs = take i xs @ drop (Suc i) xs"

text \<open>\<open>ks\<close> is a possible visiting order of a \<open>range\<close> loop over the map \<open>m\<close>.\<close>

definition range_order :: "('k, 'v) fmap \<Rightarrow> 'k list \<Rightarrow> bool" where
  "range_order m ks \<longleftrightarrow> distinct ks \<and> set ks = fmdom' m"

named_theorems go_defs \<open>definitions that unfold to library constants\<close>
named_theorems heap_arith \<open>arithmetic of parents and children in an array heap\<close>

declare wrap64_def [go_defs]

subsection \<open>Integers\<close>

lemma wrap64_id [simp]: "is_int64 x \<Longrightarrow> wrap64 x = x"
  by (simp add: wrap64_def is_int64_def signed_take_bit_int_eq_self)

lemma is_int64_wrap64 [simp]: "is_int64 (wrap64 x)"
  using signed_take_bit_int_greater_eq_minus_exp [of 63 x] signed_take_bit_int_less_exp [of 63 x]
  by (simp add: wrap64_def is_int64_def)

lemma is_int64_0 [simp]: "is_int64 0"
  by (simp add: is_int64_def)

lemma wrap64_add: "wrap64 (wrap64 x + y) = wrap64 (x + y)"
  by (simp add: wrap64_def signed_take_bit_add [of 63 x y, symmetric]
      signed_take_bit_add [of 63 "signed_take_bit 63 x" y, symmetric])

subsection \<open>Swapping two positions of a list\<close>

lemma length_swap_list [simp]: "length (swap_list xs i j) = length xs"
  by (simp add: swap_list_def)

lemma mset_swap_list [simp]:
  "i < length xs \<Longrightarrow> j < length xs \<Longrightarrow> mset (swap_list xs i j) = mset xs"
  using mset_swap [of j xs i] by (simp add: swap_list_def)

lemma set_swap_list [simp]:
  "i < length xs \<Longrightarrow> j < length xs \<Longrightarrow> set (swap_list xs i j) = set xs"
  by (metis mset_swap_list set_mset_mset)

lemma distinct_swap_list [simp]:
  "i < length xs \<Longrightarrow> j < length xs \<Longrightarrow> distinct (swap_list xs i j) = distinct xs"
  by (metis mset_swap_list mset_eq_imp_distinct_iff)

lemma nth_swap_list:
  "i < length xs \<Longrightarrow> j < length xs \<Longrightarrow> k < length xs \<Longrightarrow>
    swap_list xs i j ! k = (if k = i then xs ! j else if k = j then xs ! i else xs ! k)"
  by (auto simp: swap_list_def nth_list_update)

lemma map_swap_list [simp]:
  "i < length xs \<Longrightarrow> j < length xs \<Longrightarrow> map f (swap_list xs i j) = swap_list (map f xs) i j"
  by (simp add: swap_list_def map_update)

lemma drop_swap_list:
  "i < n \<Longrightarrow> j < n \<Longrightarrow> drop n (swap_list xs i j) = drop n xs"
  by (simp add: swap_list_def drop_update_cancel)

subsection \<open>Removing a position of a list\<close>

lemma length_remove_nth [simp]: "i < length xs \<Longrightarrow> length (remove_nth i xs) = length xs - 1"
  by (auto simp: remove_nth_def)

lemma mset_remove_nth: "i < length xs \<Longrightarrow> mset (remove_nth i xs) = mset xs - {#xs ! i#}"
proof -
  assume i: "i < length xs"
  have "mset xs = mset (take i xs @ xs ! i # drop (Suc i) xs)"
    using id_take_nth_drop [OF i] by simp
  then show ?thesis by (simp add: remove_nth_def)
qed

lemma set_remove_nth:
  assumes "distinct xs" and "i < length xs"
  shows "set (remove_nth i xs) = set xs - {xs ! i}"
proof -
  have split: "xs = take i xs @ xs ! i # drop (Suc i) xs"
    using id_take_nth_drop [OF assms(2)] .
  with assms(1) have "distinct (take i xs @ xs ! i # drop (Suc i) xs)" by simp
  moreover have "set xs = set (take i xs @ xs ! i # drop (Suc i) xs)" using split by simp
  ultimately show ?thesis by (auto simp: remove_nth_def)
qed

lemma distinct_remove_nth: "distinct xs \<Longrightarrow> distinct (remove_nth i xs)"
  by (simp add: remove_nth_def set_take_disj_set_drop_if_distinct)

lemma remove_nth_append_Cons: "remove_nth (length xs) (xs @ x # ys) = xs @ ys"
  by (simp add: remove_nth_def)

end
