(* ===== verification/Container_Heap.thy ===== *)
theory Container_Heap
  imports Prelude
begin

text \<open>
  The binary heap of Go's standard package \<open>container/heap\<close>, which the priority queue of
  \<open>client/pipe_store.go\<close> instantiates. Its functions are generic over \<open>heap.Interface\<close>: here they
  take the interface's methods as a record \<open>heap_Interface\<close> over an arbitrary state. \<open>Less\<close> and
  \<open>Swap\<close> panic (\<open>None\<close>) on an index out of range, so the loops are in the option monad.

  The locale \<open>heap_interface\<close> states what an instance promises and proves once, for every
  instance, that \<open>Push\<close>, \<open>Fix\<close> and \<open>Remove\<close> neither panic nor break the heap order, and that they
  permute, extend or shrink the collection by exactly the element concerned.
\<close>

subsection \<open>The package's functions\<close>

record ('h, 'x) heap_Interface =
  hi_Len :: "'h \<Rightarrow> int"
  hi_Less :: "'h \<Rightarrow> int \<Rightarrow> int \<Rightarrow> bool option"
  hi_Swap :: "'h \<Rightarrow> int \<Rightarrow> int \<Rightarrow> 'h option"
  hi_Push :: "'h \<Rightarrow> 'x \<Rightarrow> 'h"
  hi_Pop :: "'h \<Rightarrow> ('h \<times> 'x) option"

function heap_up :: "('h, 'x) heap_Interface \<Rightarrow> 'h \<Rightarrow> int \<Rightarrow> 'h option" where
  "heap_up I h j =
     (let i = (j - 1) sdiv 2 in
      if i = j then Some h
      else case hi_Less I h j i of
          None \<Rightarrow> None
        | Some lt \<Rightarrow>
            if \<not> lt then Some h
            else case hi_Swap I h i j of
                None \<Rightarrow> None
              | Some h' \<Rightarrow> heap_up I h' i)"
  by pat_completeness auto
termination
  by (relation "measure (\<lambda>(I, h, j). nat \<bar>j\<bar>)")
     (auto simp: signed_divide_int_def sgn_if split: if_splits)

function down_loop :: "('h, 'x) heap_Interface \<Rightarrow> 'h \<Rightarrow> int \<Rightarrow> int \<Rightarrow> ('h \<times> int) option" where
  "down_loop I h i n =
     (let j1 = 2 * i + 1 in
      if j1 \<ge> n \<or> j1 < 0 then Some (h, i)
      else case (if j1 + 1 < n then hi_Less I h (j1 + 1) j1 else Some False) of
          None \<Rightarrow> None
        | Some right \<Rightarrow>
            let j = (if right then j1 + 1 else j1) in
            case hi_Less I h j i of
              None \<Rightarrow> None
            | Some lt \<Rightarrow>
                if \<not> lt then Some (h, i)
                else case hi_Swap I h i j of
                    None \<Rightarrow> None
                  | Some h' \<Rightarrow> down_loop I h' j n)"
  by pat_completeness auto
termination
  by (relation "measure (\<lambda>(I, h, i, n). nat (n - i))") (auto split: if_splits)

declare heap_up.simps [simp del] down_loop.simps [simp del]

definition heap_down :: "('h, 'x) heap_Interface \<Rightarrow> 'h \<Rightarrow> int \<Rightarrow> int \<Rightarrow> ('h \<times> bool) option" where
  "heap_down I h i0 n = do { (h', i) \<leftarrow> down_loop I h i0 n; Some (h', i > i0) }"

definition heap_Push :: "('h, 'x) heap_Interface \<Rightarrow> 'h \<Rightarrow> 'x \<Rightarrow> 'h option" where
  "heap_Push I h x = (let h' = hi_Push I h x in heap_up I h' (hi_Len I h' - 1))"

definition heap_Fix :: "('h, 'x) heap_Interface \<Rightarrow> 'h \<Rightarrow> int \<Rightarrow> 'h option" where
  "heap_Fix I h i = do {
     (h', moved) \<leftarrow> heap_down I h i (hi_Len I h);
     if moved then Some h' else heap_up I h' i }"

definition heap_Remove :: "('h, 'x) heap_Interface \<Rightarrow> 'h \<Rightarrow> int \<Rightarrow> ('h \<times> 'x) option" where
  "heap_Remove I h i = do {
     let n = hi_Len I h - 1;
     h' \<leftarrow> (if n \<noteq> i then do {
               h1 \<leftarrow> hi_Swap I h i n;
               (h2, moved) \<leftarrow> heap_down I h1 i n;
               if moved then Some h2 else heap_up I h2 i }
            else Some h);
     hi_Pop I h' }"

text \<open>\<open>heap.Init\<close> sifts down every inner position, from \<open>n/2 - 1\<close> to 0.\<close>

fun init_loop :: "('h, 'x) heap_Interface \<Rightarrow> 'h \<Rightarrow> int \<Rightarrow> nat \<Rightarrow> 'h option" where
  "init_loop I h n 0 = Some h"
| "init_loop I h n (Suc i) =
     (case heap_down I h (int i) n of None \<Rightarrow> None | Some (h', _) \<Rightarrow> init_loop I h' n i)"

definition heap_Init :: "('h, 'x) heap_Interface \<Rightarrow> 'h \<Rightarrow> 'h option" where
  "heap_Init I h = init_loop I h (hi_Len I h) (nat (hi_Len I h sdiv 2))"

subsection \<open>Heap order on a list of keys\<close>

definition parent :: "nat \<Rightarrow> nat" where
  "parent j = (j - 1) div 2"

text \<open>
  \<open>heap_upto ks n\<close>: the first \<open>n\<close> keys are a heap. The other three predicates allow it to fail
  at one position \<open>i\<close>: everywhere around \<open>i\<close> (\<open>heap_hole\<close>), below it only (\<open>heap_below\<close>), or
  above it only (\<open>heap_above\<close>); in each, the parent of \<open>i\<close> still bounds the children of \<open>i\<close>.
\<close>

definition heap_upto :: "'k::linorder list \<Rightarrow> nat \<Rightarrow> bool" where
  "heap_upto ks n \<longleftrightarrow> (\<forall>j. 0 < j \<and> j < n \<longrightarrow> ks ! parent j \<le> ks ! j)"

definition heap_hole :: "'k::linorder list \<Rightarrow> nat \<Rightarrow> nat \<Rightarrow> bool" where
  "heap_hole ks n i \<longleftrightarrow> (\<forall>j. 0 < j \<and> j < n \<longrightarrow>
     (j \<noteq> i \<and> parent j \<noteq> i \<longrightarrow> ks ! parent j \<le> ks ! j) \<and>
     (parent j = i \<and> 0 < i \<longrightarrow> ks ! parent i \<le> ks ! j))"

definition heap_below :: "'k::linorder list \<Rightarrow> nat \<Rightarrow> nat \<Rightarrow> bool" where
  "heap_below ks n i \<longleftrightarrow> (\<forall>j. 0 < j \<and> j < n \<longrightarrow>
     (parent j \<noteq> i \<longrightarrow> ks ! parent j \<le> ks ! j) \<and>
     (parent j = i \<and> 0 < i \<longrightarrow> ks ! parent i \<le> ks ! j))"

definition heap_above :: "'k::linorder list \<Rightarrow> nat \<Rightarrow> nat \<Rightarrow> bool" where
  "heap_above ks n i \<longleftrightarrow> (\<forall>j. 0 < j \<and> j < n \<longrightarrow>
     (j \<noteq> i \<longrightarrow> ks ! parent j \<le> ks ! j) \<and>
     (parent j = i \<and> 0 < i \<longrightarrow> ks ! parent i \<le> ks ! j))"

lemma parent_less [heap_arith]: "0 < j \<Longrightarrow> parent j < j"
  by (simp add: parent_def)

lemma parent_le: "parent j \<le> j"
  by (simp add: parent_def)

lemma parent_0 [simp]: "parent 0 = 0"
  by (simp add: parent_def)

lemma parent_eq_iff [heap_arith]: "0 < j \<Longrightarrow> parent j = i \<longleftrightarrow> j = 2 * i + 1 \<or> j = 2 * i + 2"
  by (auto simp: parent_def)

lemma parent_int: "(int j - 1) sdiv 2 = int (parent j)"
  by (cases j) (auto simp: parent_def signed_divide_int_def sgn_if zdiv_int)

lemma heap_root_least:
  assumes "heap_upto ks n" and "j < n"
  shows "ks ! 0 \<le> ks ! j"
  using assms(2)
proof (induction j rule: less_induct)
  case (less j)
  show ?case
  proof (cases "j = 0")
    case False
    then have "parent j < j" by (simp add: parent_less)
    with less have "ks ! 0 \<le> ks ! parent j" by simp
    also have "\<dots> \<le> ks ! j" using assms(1) False less.prems by (simp add: heap_upto_def)
    finally show ?thesis .
  qed simp
qed

lemma heap_upto_hole: "heap_upto ks n \<Longrightarrow> n \<le> length ks \<Longrightarrow> heap_hole (ks[i := x]) n i"
  unfolding heap_upto_def heap_hole_def
proof (intro allI impI conjI)
  fix j assume heap: "\<forall>j. 0 < j \<and> j < n \<longrightarrow> ks ! parent j \<le> ks ! j" and "n \<le> length ks"
    and j: "0 < j \<and> j < n"
  {
    assume "j \<noteq> i \<and> parent j \<noteq> i"
    then show "ks[i := x] ! parent j \<le> ks[i := x] ! j" using heap j by simp
  next
    assume p: "parent j = i \<and> 0 < i"
    then have lt: "parent i < i" "i < j" using parent_less j by auto
    with heap j p have "ks ! parent i \<le> ks ! i" "ks ! i \<le> ks ! j" by auto
    then show "ks[i := x] ! parent i \<le> ks[i := x] ! j" using lt by simp
  }
qed

lemma heap_hole_below:
  "heap_hole ks n i \<Longrightarrow> i = 0 \<or> ks ! parent i \<le> ks ! i \<Longrightarrow> heap_below ks n i"
  by (auto simp: heap_hole_def heap_below_def)

lemma heap_hole_cong:
  assumes same: "\<And>k. k < n \<Longrightarrow> ks ! k = ks' ! k" and "heap_hole ks n i" and "i < n"
  shows "heap_hole ks' n i"
  unfolding heap_hole_def
proof (intro allI impI)
  fix j assume j: "0 < j \<and> j < n"
  then have "parent j < n" "parent i < n" using assms(3) by (auto intro: le_less_trans [OF parent_le])
  then show "(j \<noteq> i \<and> parent j \<noteq> i \<longrightarrow> ks' ! parent j \<le> ks' ! j) \<and>
      (parent j = i \<and> 0 < i \<longrightarrow> ks' ! parent i \<le> ks' ! j)"
    using assms(2) j same [of j] same [of "parent j"] same [of "parent i"]
    by (auto simp: heap_hole_def)
qed

lemma heap_below_hole: "heap_below ks n i \<Longrightarrow> heap_hole ks n i"
  by (auto simp: heap_hole_def heap_below_def)

lemma heap_above_closed:
  "heap_above ks n i \<Longrightarrow> i = 0 \<or> ks ! parent i \<le> ks ! i \<Longrightarrow> heap_upto ks n"
  by (auto simp: heap_above_def heap_upto_def)

lemma heap_below_closed:
  "heap_below ks n i \<Longrightarrow> (\<And>j. 0 < j \<Longrightarrow> j < n \<Longrightarrow> parent j = i \<Longrightarrow> ks ! i \<le> ks ! j) \<Longrightarrow> heap_upto ks n"
  by (auto simp: heap_below_def heap_upto_def)

lemma heap_hole_above:
  "heap_hole ks n i \<Longrightarrow> (\<And>j. 0 < j \<Longrightarrow> j < n \<Longrightarrow> parent j = i \<Longrightarrow> ks ! i \<le> ks ! j) \<Longrightarrow> heap_above ks n i"
  by (auto simp: heap_hole_def heap_above_def)

text \<open>One step of each loop: the violation moves to the position that was swapped in.\<close>

lemma heap_above_step:
  assumes "heap_above ks n j" and "0 < j" "j < n" "n \<le> length ks" and less: "ks ! j < ks ! parent j"
  shows "heap_above (swap_list ks (parent j) j) n (parent j)"
  unfolding heap_above_def
proof (intro allI impI conjI)
  let ?p = "parent j" and ?s = "swap_list ks (parent j) j"
  have p: "?p < j" using assms(2) by (rule parent_less)
  fix k assume k: "0 < k \<and> k < n"
  then have pk: "parent k < k" by (simp add: parent_less)
  have nth: "?s ! m = (if m = ?p then ks ! j else if m = j then ks ! ?p else ks ! m)" if "m < n" for m
    using that assms p by (simp add: nth_swap_list)
  have edge: "k \<noteq> j \<Longrightarrow> ks ! parent k \<le> ks ! k" using assms(1) k by (simp add: heap_above_def)
  have grand: "parent k = j \<Longrightarrow> ks ! ?p \<le> ks ! k" using assms(1,2) k by (auto simp: heap_above_def)
  {
    assume "k \<noteq> ?p"
    then show "?s ! parent k \<le> ?s ! k"
      using nth [of k] nth [of "parent k"] k pk p edge grand less by (auto intro: order.trans less_imp_le)
  next
    assume kp: "parent k = ?p \<and> 0 < ?p"
    then have pp: "parent ?p < ?p" by (simp add: parent_less)
    have up: "ks ! parent ?p \<le> ks ! ?p"
      using assms(1,3) kp p by (auto simp: heap_above_def)
    show "?s ! parent ?p \<le> ?s ! k"
      using nth [of k] nth [of "parent ?p"] k pk p pp kp up edge assms(3)
      by (auto intro: order.trans)
  }
qed

lemma heap_below_step:
  assumes "heap_hole ks n i" and "0 < j" "j < n" "parent j = i" "n \<le> length ks"
    and least: "\<And>k. 0 < k \<Longrightarrow> k < n \<Longrightarrow> parent k = i \<Longrightarrow> ks ! j \<le> ks ! k"
    and less: "ks ! j < ks ! i"
  shows "heap_below (swap_list ks i j) n j"
  unfolding heap_below_def
proof (intro allI impI conjI)
  let ?s = "swap_list ks i j"
  have ij: "i < j" using assms(2,4) parent_less by blast
  fix k assume k: "0 < k \<and> k < n"
  then have pk: "parent k < k" by (simp add: parent_less)
  have nth: "?s ! m = (if m = i then ks ! j else if m = j then ks ! i else ks ! m)" if "m < n" for m
    using that assms(3,5) ij by (simp add: nth_swap_list)
  have edge: "k \<noteq> i \<Longrightarrow> parent k \<noteq> i \<Longrightarrow> ks ! parent k \<le> ks ! k"
    using assms(1) k by (simp add: heap_hole_def)
  have grand: "0 < i \<Longrightarrow> ks ! parent i \<le> ks ! j"
    using assms(1,2,3,4) by (auto simp: heap_hole_def)
  {
    assume "parent k \<noteq> j"
    then show "?s ! parent k \<le> ?s ! k"
      using nth [of k] nth [of "parent k"] k pk ij edge grand least less assms(4)
      by (cases "k = i"; cases "parent k = i") (auto intro: order.trans less_imp_le)
  next
    assume kj: "parent k = j \<and> 0 < j"
    with pk k ij have "ks ! j \<le> ks ! k" using edge by auto
    then show "?s ! parent j \<le> ?s ! k"
      using nth [of k] nth [of "parent j"] k pk ij kj assms(3,4) by auto
  }
qed

subsection \<open>What an instance of the interface promises\<close>

text \<open>
  An instance is described by \<open>items\<close> (the collection in array order), \<open>rest\<close> (all that the
  methods keep unchanged), \<open>key\<close> (the sort key of an item, read off \<open>rest\<close>) and \<open>tag\<close> (the
  position an item records for itself, -1 once it was popped).
\<close>

locale heap_interface =
  fixes I :: "('h, 'x) heap_Interface"
    and invar :: "'h \<Rightarrow> bool"
    and items :: "'h \<Rightarrow> 'x list"
    and rest :: "'h \<Rightarrow> 'r"
    and key :: "'r \<Rightarrow> 'x \<Rightarrow> 'k::linorder"
    and tag :: "'h \<Rightarrow> 'x \<Rightarrow> int"
  assumes Len: "invar h \<Longrightarrow> hi_Len I h = int (length (items h))"
    and Less: "invar h \<Longrightarrow> i < length (items h) \<Longrightarrow> j < length (items h) \<Longrightarrow>
      hi_Less I h (int i) (int j) = Some (key (rest h) (items h ! i) < key (rest h) (items h ! j))"
    and Swap: "invar h \<Longrightarrow> i < length (items h) \<Longrightarrow> j < length (items h) \<Longrightarrow>
      \<exists>h'. hi_Swap I h (int i) (int j) = Some h' \<and> invar h' \<and> rest h' = rest h \<and>
        items h' = swap_list (items h) i j \<and> (\<forall>x. x \<notin> set (items h) \<longrightarrow> tag h' x = tag h x)"
    and Push: "invar h \<Longrightarrow> x \<notin> set (items h) \<Longrightarrow>
      invar (hi_Push I h x) \<and> rest (hi_Push I h x) = rest h \<and> items (hi_Push I h x) = items h @ [x] \<and>
      (\<forall>y. y \<notin> set (items h) \<and> y \<noteq> x \<longrightarrow> tag (hi_Push I h x) y = tag h y)"
    and Pop: "invar h \<Longrightarrow> items h \<noteq> [] \<Longrightarrow>
      \<exists>h'. hi_Pop I h = Some (h', last (items h)) \<and> invar h' \<and> rest h' = rest h \<and>
        items h' = butlast (items h) \<and> tag h' (last (items h)) = - 1 \<and>
        (\<forall>y. y \<notin> set (items h) \<longrightarrow> tag h' y = tag h y)"
begin

definition keys :: "'h \<Rightarrow> 'k list" where
  "keys h = map (key (rest h)) (items h)"

definition heap :: "'h \<Rightarrow> bool" where
  "heap h \<longleftrightarrow> heap_upto (keys h) (length (items h))"

text \<open>\<open>h'\<close> is \<open>h\<close> with its first \<open>n\<close> items permuted.\<close>

definition permutes :: "nat \<Rightarrow> 'h \<Rightarrow> 'h \<Rightarrow> bool" where
  "permutes n h h' \<longleftrightarrow> invar h' \<and> rest h' = rest h \<and> mset (items h') = mset (items h) \<and>
     drop n (items h') = drop n (items h) \<and> (\<forall>x. x \<notin> set (items h) \<longrightarrow> tag h' x = tag h x)"

lemma permutes_refl: "invar h \<Longrightarrow> permutes n h h"
  by (simp add: permutes_def)

lemma permutes_trans: "permutes n h h' \<Longrightarrow> permutes n h' h'' \<Longrightarrow> permutes n h h''"
  by (auto simp: permutes_def) (metis set_mset_mset)

lemma permutes_length: "permutes n h h' \<Longrightarrow> length (items h') = length (items h)"
  by (metis permutes_def size_mset)

lemma permutes_set: "permutes n h h' \<Longrightarrow> set (items h') = set (items h)"
  by (metis permutes_def set_mset_mset)

lemma permutes_invar: "permutes n h h' \<Longrightarrow> invar h'"
  by (simp add: permutes_def)

lemma length_keys [simp]: "length (keys h) = length (items h)"
  by (simp add: keys_def)

lemma Less_keys:
  "invar h \<Longrightarrow> i < length (items h) \<Longrightarrow> j < length (items h) \<Longrightarrow>
    hi_Less I h (int i) (int j) = Some (keys h ! i < keys h ! j)"
  by (simp add: Less keys_def)

lemma Swap_keys:
  assumes "invar h" "i < n" "j < n" "n \<le> length (items h)"
  obtains h' where "hi_Swap I h (int i) (int j) = Some h'" "permutes n h h'"
    "keys h' = swap_list (keys h) i j"
proof -
  obtain h' where *: "hi_Swap I h (int i) (int j) = Some h'" "invar h'" "rest h' = rest h"
    "items h' = swap_list (items h) i j" "\<forall>x. x \<notin> set (items h) \<longrightarrow> tag h' x = tag h x"
    using Swap [of h i j] assms by auto
  have "permutes n h h'"
    using * assms by (simp add: permutes_def drop_swap_list)
  moreover have "keys h' = swap_list (keys h) i j"
    using * assms by (simp add: keys_def)
  ultimately show thesis using that * by blast
qed

text \<open>Sifting up from \<open>j\<close>.\<close>

lemma heap_up_correct:
  assumes "invar h" "j < n" "n \<le> length (items h)" "heap_above (keys h) n j"
  shows "\<exists>h'. heap_up I h (int j) = Some h' \<and> permutes n h h' \<and> heap_upto (keys h') n"
  using assms
proof (induction j arbitrary: h rule: less_induct)
  case (less j)
  note unfold = heap_up.simps [of I h "int j"] parent_int
  show ?case
  proof (cases "j = 0 \<or> \<not> keys h ! j < keys h ! parent j")
    case True
    have "parent j < length (items h)" using less.prems parent_less [of j] by (cases j) auto
    with True have "heap_up I h (int j) = Some h"
      using less.prems by (auto simp: unfold Less_keys Let_def)
    moreover have "heap_upto (keys h) n"
      using less.prems True by (auto intro: heap_above_closed)
    ultimately show ?thesis using less.prems permutes_refl by blast
  next
    case False
    then have p: "parent j < j" by (simp add: parent_less)
    with less.prems have pn: "parent j < n" by simp
    obtain h' where h': "hi_Swap I h (int (parent j)) (int j) = Some h'" "permutes n h h'"
      "keys h' = swap_list (keys h) (parent j) j"
      using Swap_keys [OF less.prems(1) pn less.prems(2,3)] by blast
    have "heap_above (keys h') n (parent j)"
      unfolding h'(3) using less.prems False by (intro heap_above_step) auto
    then obtain h'' where "heap_up I h' (int (parent j)) = Some h''" "permutes n h' h''"
      "heap_upto (keys h'') n"
      using less.IH [OF p permutes_invar [OF h'(2)] pn] less.prems permutes_length [OF h'(2)] by auto
    moreover have "heap_up I h (int j) = heap_up I h' (int (parent j))"
      using less.prems False p h'(1) by (simp add: unfold Less_keys Let_def)
    ultimately show ?thesis using permutes_trans [OF h'(2)] by auto
  qed
qed

text \<open>One iteration of the loop of \<open>down\<close>: it stops, or it swaps with the least child.\<close>

lemma down_loop_step:
  assumes "invar h" "i < n" "n \<le> length (items h)"
  obtains (stop) "down_loop I h (int i) (int n) = Some (h, int i)"
      "\<And>j. 0 < j \<Longrightarrow> j < n \<Longrightarrow> parent j = i \<Longrightarrow> keys h ! i \<le> keys h ! j"
    | (move) j h' where "down_loop I h (int i) (int n) = down_loop I h' (int j) (int n)"
      "0 < j" "j < n" "parent j = i" "keys h ! j < keys h ! i"
      "\<And>k. 0 < k \<Longrightarrow> k < n \<Longrightarrow> parent k = i \<Longrightarrow> keys h ! j \<le> keys h ! k"
      "permutes n h h'" "keys h' = swap_list (keys h) i j"
proof (cases "2 * i + 1 < n")
  case False
  then have "\<And>j. 0 < j \<Longrightarrow> j < n \<Longrightarrow> parent j = i \<Longrightarrow> keys h ! i \<le> keys h ! j"
    by (auto simp: heap_arith)
  then show thesis using False by (intro stop) (auto simp: down_loop.simps [of I h "int i"])
next
  case True
  define right where "right = (2 * i + 2 < n \<and> keys h ! (2 * i + 2) < keys h ! (2 * i + 1))"
  define j where "j = (if right then 2 * i + 2 else 2 * i + 1)"
  have j: "0 < j" "j < n" "parent j = i" using True by (auto simp: j_def right_def heap_arith)
  have least: "keys h ! j \<le> keys h ! k" if "0 < k" "k < n" "parent k = i" for k
    using that by (auto simp: j_def right_def heap_arith)
  have right: "(if 2 * int i + 1 + 1 < int n then hi_Less I h (2 * int i + 1 + 1) (2 * int i + 1) else Some False)
      = Some right"
  proof (cases "2 * i + 2 < n")
    case two: True
    have ix: "int (2 * i + 2) = 2 * int i + 1 + 1" "int (2 * i + 1) = 2 * int i + 1" by auto
    have "hi_Less I h (int (2 * i + 2)) (int (2 * i + 1)) =
        Some (keys h ! (2 * i + 2) < keys h ! (2 * i + 1))"
      by (rule Less_keys) (use assms two in auto)
    with two ix show ?thesis by (simp add: right_def add.commute)
  qed (auto simp: right_def)
  have jr: "(if right then 2 * int i + 1 + 1 else 2 * int i + 1) = int j" by (auto simp: j_def)
  have guard: "(2 * int i + 1 \<ge> int n \<or> 2 * int i + 1 < 0) = False" using True by auto
  have less: "hi_Less I h (int j) (int i) = Some (keys h ! j < keys h ! i)"
    using assms j by (intro Less_keys) auto
  have step: "down_loop I h (int i) (int n) =
      (if \<not> keys h ! j < keys h ! i then Some (h, int i)
       else case hi_Swap I h (int i) (int j) of None \<Rightarrow> None | Some h' \<Rightarrow> down_loop I h' (int j) (int n))"
    by (subst down_loop.simps) (simp only: Let_def guard right jr less option.case if_False)
  show thesis
  proof (cases "keys h ! j < keys h ! i")
    case False
    then have "keys h ! i \<le> keys h ! k" if "0 < k" "k < n" "parent k = i" for k
      using least [OF that] by simp
    with False step show thesis by (intro stop) auto
  next
    case less: True
    obtain h' where "hi_Swap I h (int i) (int j) = Some h'" "permutes n h h'"
      "keys h' = swap_list (keys h) i j"
      using Swap_keys [OF assms(1,2) j(2) assms(3)] by blast
    with less step j least show thesis by (intro move) auto
  qed
qed

lemma down_loop_correct:
  assumes "invar h" "i < n" "n \<le> length (items h)" "heap_below (keys h) n i"
  shows "\<exists>h' i'. down_loop I h (int i) (int n) = Some (h', i') \<and> int i \<le> i' \<and> permutes n h h' \<and>
    heap_upto (keys h') n"
  using assms
proof (induction "n - i" arbitrary: h i rule: less_induct)
  case less
  from less.prems(1,2,3) show ?case
  proof (cases rule: down_loop_step)
    case stop
    have "heap_upto (keys h) n" using less.prems(4) stop(2) by (rule heap_below_closed)
    with stop(1) permutes_refl [OF less.prems(1)] show ?thesis by simp
  next
    case (move j h')
    have below: "heap_below (keys h') n j"
      unfolding move(8)
      by (rule heap_below_step [OF heap_below_hole [OF less.prems(4)] move(2-4) _ move(6,5)])
        (use less.prems(3) in auto)
    have ij: "i < j" using move(2,4) parent_less by blast
    have dec: "n - j < n - i" using ij move(3) by simp
    have len: "n \<le> length (items h')" using less.prems(3) permutes_length [OF move(7)] by simp
    obtain h'' i' where *: "down_loop I h' (int j) (int n) = Some (h'', i')" "int j \<le> i'"
      "permutes n h' h''" "heap_upto (keys h'') n"
      using less.hyps [OF dec permutes_invar [OF move(7)] move(3) len below] by blast
    have "int i \<le> i'" using *(2) ij by simp
    with * permutes_trans [OF move(7) *(3)] move(1) show ?thesis by simp
  qed
qed

text \<open>\<open>down\<close> followed, if nothing moved, by \<open>up\<close>: repairs any violation at a single position.\<close>

lemma sift_correct:
  assumes "invar h" "i < n" "n \<le> length (items h)" "heap_hole (keys h) n i"
  shows "\<exists>h'. do { (h1, moved) \<leftarrow> heap_down I h (int i) (int n);
                   if moved then Some h1 else heap_up I h1 (int i) } = Some h' \<and>
    permutes n h h' \<and> heap_upto (keys h') n"
  using assms(1-3)
proof (cases rule: down_loop_step)
  case stop
  then have "heap_above (keys h) n i" using assms heap_hole_above by blast
  with assms stop heap_up_correct show ?thesis by (auto simp: heap_down_def)
next
  case (move j h')
  have below: "heap_below (keys h') n j"
    unfolding move(8)
    by (rule heap_below_step [OF assms(4) move(2-4) _ move(6,5)]) (use assms(3) in auto)
  have len: "n \<le> length (items h')" using assms(3) permutes_length [OF move(7)] by simp
  obtain h'' i' where *: "down_loop I h' (int j) (int n) = Some (h'', i')" "int j \<le> i'"
    "permutes n h' h''" "heap_upto (keys h'') n"
    using down_loop_correct [OF permutes_invar [OF move(7)] move(3) len below] by blast
  have "i < j" using move(2,4) parent_less by blast
  with * move(1) permutes_trans [OF move(7) *(3)] show ?thesis by (simp add: heap_down_def)
qed

theorem heap_Fix_correct:
  assumes "invar h" "i < length (items h)" "heap_hole (keys h) (length (items h)) i"
  shows "\<exists>h'. heap_Fix I h (int i) = Some h' \<and> permutes (length (items h)) h h' \<and> heap h'"
  using sift_correct [OF assms(1,2) order_refl assms(3)] assms(1) permutes_length
  by (fastforce simp: heap_Fix_def Len heap_def)

theorem heap_Push_correct:
  assumes "invar h" "heap h" "x \<notin> set (items h)"
  shows "\<exists>h'. heap_Push I h x = Some h' \<and> permutes (Suc (length (items h))) (hi_Push I h x) h' \<and> heap h'"
proof -
  let ?h = "hi_Push I h x" and ?n = "length (items h)"
  have push: "invar ?h" "rest ?h = rest h" "items ?h = items h @ [x]" using Push [OF assms(1,3)] by auto
  then have keys: "keys ?h = keys h @ [key (rest h) x]" by (simp add: keys_def)
  have "heap_above (keys ?h) (Suc ?n) ?n"
    unfolding heap_above_def
  proof (intro allI impI conjI)
    fix j assume j: "0 < j \<and> j < Suc ?n"
    then have "parent j < j" by (simp add: parent_less)
    moreover assume "j \<noteq> ?n"
    ultimately show "keys ?h ! parent j \<le> keys ?h ! j"
      using j assms(2) by (simp add: heap_def heap_upto_def keys nth_append)
  next
    fix j assume "0 < j \<and> j < Suc ?n" and "parent j = ?n \<and> 0 < ?n"
    then show "keys ?h ! parent ?n \<le> keys ?h ! j" using parent_less [of j] by auto
  qed
  then obtain h' where "heap_up I ?h (int ?n) = Some h'" "permutes (Suc ?n) ?h h'" "heap_upto (keys h') (Suc ?n)"
    using heap_up_correct [of ?h ?n "Suc ?n"] push by auto
  then show ?thesis using push permutes_length [of "Suc ?n" ?h h'] by (auto simp: heap_Push_def Len heap_def)
qed

text \<open>Dropping the last item of a state whose other items form a heap.\<close>

lemma Pop_last:
  assumes "invar h" "items h = ys @ [x]" "heap_upto (keys h) (length ys)"
  shows "\<exists>h'. hi_Pop I h = Some (h', x) \<and> invar h' \<and> heap h' \<and> rest h' = rest h \<and> items h' = ys \<and>
    tag h' x = - 1 \<and> (\<forall>y. y \<notin> set (items h) \<longrightarrow> tag h' y = tag h y)"
proof -
  obtain h' where h': "hi_Pop I h = Some (h', x)" "invar h'" "rest h' = rest h" "items h' = ys"
    "tag h' x = - 1" "\<forall>y. y \<notin> set (items h) \<longrightarrow> tag h' y = tag h y"
    using Pop [OF assms(1)] assms(2) by auto
  have "heap_upto (keys h') (length ys)"
    unfolding heap_upto_def
  proof (intro allI impI)
    fix j assume j: "0 < j \<and> j < length ys"
    then have "parent j < length ys" using parent_less [of j] by simp
    moreover have "keys h ! parent j \<le> keys h ! j" using j assms(3) by (simp add: heap_upto_def)
    ultimately show "keys h' ! parent j \<le> keys h' ! j"
      using j assms(2) h'(3,4) by (simp add: keys_def nth_append)
  qed
  with h' show ?thesis by (auto simp: heap_def)
qed

theorem heap_Remove_correct:
  assumes "invar h" "heap h" "i < length (items h)"
  shows "\<exists>h'. heap_Remove I h (int i) = Some (h', items h ! i) \<and> invar h' \<and> heap h' \<and> rest h' = rest h \<and>
    mset (items h') = mset (items h) - {#items h ! i#} \<and> tag h' (items h ! i) = - 1 \<and>
    (\<forall>y. y \<notin> set (items h) \<longrightarrow> tag h' y = tag h y)"
proof -
  define n where "n = length (items h) - 1"
  have n: "length (items h) = Suc n" using assms(3) by (simp add: n_def)
  have "\<exists>h3. (if int n \<noteq> int i then do { h1 \<leftarrow> hi_Swap I h (int i) (int n);
                 (h2, moved) \<leftarrow> heap_down I h1 (int i) (int n);
                 if moved then Some h2 else heap_up I h2 (int i) } else Some h) = Some h3 \<and>
      invar h3 \<and> rest h3 = rest h \<and> mset (items h3) = mset (items h) \<and> items h3 ! n = items h ! i \<and>
      heap_upto (keys h3) n \<and> (\<forall>y. y \<notin> set (items h) \<longrightarrow> tag h3 y = tag h y)"
  proof (cases "n = i")
    case True
    then show ?thesis using assms n by (auto simp: heap_def heap_upto_def)
  next
    case False
    with assms(3) n have i: "i < n" by simp
    obtain h1 where h1: "hi_Swap I h (int i) (int n) = Some h1" "permutes (Suc n) h h1"
      "keys h1 = swap_list (keys h) i n" "items h1 = swap_list (items h) i n"
      using Swap [of h i n] assms(1,3) n i by (auto simp: permutes_def keys_def)
    have "heap_upto (keys h) n" using assms(2) n by (auto simp: heap_def heap_upto_def)
    then have "heap_hole ((keys h)[i := keys h ! n]) n i" using n by (intro heap_upto_hole) auto
    moreover have same: "(keys h)[i := keys h ! n] ! k = keys h1 ! k" if "k < n" for k
      using that i n by (simp add: h1(3) nth_swap_list nth_list_update)
    ultimately have "heap_hole (keys h1) n i"
      using same i by (intro heap_hole_cong [of n _ "keys h1"]) auto
    then obtain h2 where h2: "do { (h1', moved) \<leftarrow> heap_down I h1 (int i) (int n);
        if moved then Some h1' else heap_up I h1' (int i) } = Some h2" "permutes n h1 h2"
        "heap_upto (keys h2) n"
      using sift_correct [of h1 i n] i n permutes_length [OF h1(2)] permutes_invar [OF h1(2)] by auto
    have "items h2 ! n = items h1 ! n"
      using h2(2) n permutes_length [OF h1(2)] permutes_length [OF h2(2)]
      by (metis permutes_def hd_drop_conv_nth lessI)
    also have "\<dots> = items h ! i" using i n by (simp add: h1(4) nth_swap_list)
    finally show ?thesis using False h1 h2 permutes_set [OF h1(2)] by (auto simp: permutes_def)
  qed
  then obtain h3 where h3: "(if int n \<noteq> int i then do { h1 \<leftarrow> hi_Swap I h (int i) (int n);
                 (h2, moved) \<leftarrow> heap_down I h1 (int i) (int n);
                 if moved then Some h2 else heap_up I h2 (int i) } else Some h) = Some h3"
    "invar h3" "rest h3 = rest h" "mset (items h3) = mset (items h)" "items h3 ! n = items h ! i"
    "heap_upto (keys h3) n" "\<forall>y. y \<notin> set (items h) \<longrightarrow> tag h3 y = tag h y"
    by blast
  have len: "length (items h3) = Suc n" using h3(4) n by (metis size_mset)
  then have split: "items h3 = take n (items h3) @ [items h ! i]"
    using h3(5) by (metis lessI take_Suc_conv_app_nth take_all order_refl)
  obtain h' where "hi_Pop I h3 = Some (h', items h ! i)" "invar h'" "heap h'" "rest h' = rest h3"
    "items h' = take n (items h3)" "tag h' (items h ! i) = - 1" "\<forall>y. y \<notin> set (items h3) \<longrightarrow> tag h' y = tag h3 y"
    using Pop_last [OF h3(2) split] h3(6) len by auto
  moreover have "mset (take n (items h3)) = mset (items h) - {#items h ! i#}"
    using h3(4) split by (metis add_diff_cancel_right' mset.simps mset_append)
  moreover have "hi_Len I h - 1 = int n" using assms(1) n by (simp add: Len)
  moreover have "set (items h3) = set (items h)" using h3(4) by (metis set_mset_mset)
  ultimately show ?thesis using h3 by (auto simp: heap_Remove_def Let_def)
qed

end

end
