(* ===== verification/Pipe_Store.thy ===== *)
theory Pipe_Store
  imports Container_Heap
begin

text \<open>
  \<open>client/pipe_store.go\<close>: the store of packages waiting to be sent.

  A \<open>Package\<close> is shared between the priority queue and the per-kind lists and mutated through
  pointers (its \<open>index\<close>, \<open>Priority\<close>, \<open>retries\<close>), so the packages live in a memory. The slices
  \<open>pq\<close> and \<open>kinds[k]\<close> hold addresses; no other variable aliases their backing arrays across a
  mutation, so they are lists. \<open>sync.Mutex\<close> makes each exported method atomic, which is how the
  methods are composed in the other theories.

  The first part instantiates \<open>container/heap\<close> with \<open>PriorityQueue\<close>; the second gives the store's
  methods, its invariant and the abstract store it refines.
\<close>

subsection \<open>Packages and the priority queue\<close>

type_synonym PacketKind = string

record 'd Package =
  pk_Kind :: PacketKind
  pk_ExpiryTime :: "go_time option"
  pk_ExpiryCount :: int
  pk_Priority :: int
  pk_Retries :: int
  pk_retries :: int
  pk_index :: int
  pk_time :: go_time
  pk_Data :: 'd

type_synonym 'd mem = "addr \<Rightarrow> 'd Package"
type_synonym 'd PriorityQueue = "'d mem \<times> addr list"

definition in_range :: "'a list \<Rightarrow> int \<Rightarrow> bool" where
  "in_range xs i \<longleftrightarrow> 0 \<le> i \<and> i < int (length xs)"

definition pq_Len :: "'d PriorityQueue \<Rightarrow> int" where
  "pq_Len h = int (length (snd h))"

definition pq_Less :: "'d PriorityQueue \<Rightarrow> int \<Rightarrow> int \<Rightarrow> bool option" where
  "pq_Less h i j = (case h of (m, q) \<Rightarrow>
     if in_range q i \<and> in_range q j then
       (let a = m (q ! nat i); b = m (q ! nat j) in
        Some (pk_Priority a < pk_Priority b \<or> (pk_Priority a = pk_Priority b \<and> pk_time a < pk_time b)))
     else None)"

definition pq_Swap :: "'d PriorityQueue \<Rightarrow> int \<Rightarrow> int \<Rightarrow> 'd PriorityQueue option" where
  "pq_Swap h i j = (case h of (m, q) \<Rightarrow>
     if in_range q i \<and> in_range q j then
       (let q' = swap_list q (nat i) (nat j);
            m1 = m(q' ! nat i := (m (q' ! nat i))\<lparr>pk_index := i\<rparr>);
            m2 = m1(q' ! nat j := (m1 (q' ! nat j))\<lparr>pk_index := j\<rparr>)
        in Some (m2, q'))
     else None)"

definition pq_Push :: "'d PriorityQueue \<Rightarrow> addr \<Rightarrow> 'd PriorityQueue" where
  "pq_Push h x = (case h of (m, q) \<Rightarrow> (m(x := (m x)\<lparr>pk_index := int (length q)\<rparr>), q @ [x]))"

definition pq_First :: "'d PriorityQueue \<Rightarrow> addr option" where
  "pq_First h = (case snd h of [] \<Rightarrow> None | a # _ \<Rightarrow> Some a)"

definition pq_Pop :: "'d PriorityQueue \<Rightarrow> ('d PriorityQueue \<times> addr) option" where
  "pq_Pop h = (case h of (m, q) \<Rightarrow>
     if q = [] then None
     else (let item = last q in Some ((m(item := (m item)\<lparr>pk_index := - 1\<rparr>), butlast q), item)))"

definition priority_queue :: "('d PriorityQueue, addr) heap_Interface" where
  "priority_queue = \<lparr>hi_Len = pq_Len, hi_Less = pq_Less, hi_Swap = pq_Swap, hi_Push = pq_Push, hi_Pop = pq_Pop\<rparr>"

subsection \<open>The store\<close>

record 'd DefaultPipeStore =
  st_mem :: "'d mem"
  st_removed :: int
  st_pq :: "addr list"
  st_kinds :: "(PacketKind, addr list) fmap"

definition pqueue :: "'d DefaultPipeStore \<Rightarrow> 'd PriorityQueue" where
  "pqueue s = (st_mem s, st_pq s)"

definition set_pqueue :: "'d PriorityQueue \<Rightarrow> 'd DefaultPipeStore \<Rightarrow> 'd DefaultPipeStore" where
  "set_pqueue h s = s\<lparr>st_mem := fst h, st_pq := snd h\<rparr>"

text \<open>\<open>s.kinds[k]\<close>: a missing key reads as the nil slice.\<close>

definition slice_at :: "('k, 'a list) fmap \<Rightarrow> 'k \<Rightarrow> 'a list" where
  "slice_at m k = (case fmlookup m k of None \<Rightarrow> [] | Some l \<Rightarrow> l)"

abbreviation kind_list :: "'d DefaultPipeStore \<Rightarrow> PacketKind \<Rightarrow> addr list" where
  "kind_list s \<equiv> slice_at (st_kinds s)"

definition NewDefaultPipeStore :: "'d mem \<Rightarrow> 'd DefaultPipeStore option" where
  "NewDefaultPipeStore m = do {
     h \<leftarrow> heap_Init priority_queue (m, []);
     Some \<lparr>st_mem = fst h, st_removed = 0, st_pq = snd h, st_kinds = fmempty\<rparr> }"

fun position :: "'a \<Rightarrow> 'a list \<Rightarrow> nat option" where
  "position a [] = None"
| "position a (x # xs) = (if x = a then Some 0 else map_option Suc (position a xs))"

definition store_remove :: "'d DefaultPipeStore \<Rightarrow> addr \<Rightarrow> 'd DefaultPipeStore option" where
  "store_remove s a = do {
     (h, _) \<leftarrow> heap_Remove priority_queue (pqueue s) (pk_index (st_mem s a));
     let s1 = set_pqueue h s;
     let k = pk_Kind (st_mem s1 a);
     Some (case fmlookup (st_kinds s1) k of
         None \<Rightarrow> s1
       | Some kind \<Rightarrow>
           (case position a kind of
              None \<Rightarrow> s1
            | Some i \<Rightarrow> s1\<lparr>st_kinds := fmupd k (remove_nth i kind) (st_kinds s1)\<rparr>)) }"

definition store_removeKind :: "'d DefaultPipeStore \<Rightarrow> addr \<Rightarrow> nat \<Rightarrow> 'd DefaultPipeStore option" where
  "store_removeKind s a index = do {
     (h, _) \<leftarrow> heap_Remove priority_queue (pqueue s) (pk_index (st_mem s a));
     let s1 = set_pqueue h s;
     let k = pk_Kind (st_mem s1 a);
     (case fmlookup (st_kinds s1) k of
         None \<Rightarrow> Some s1
       | Some kind \<Rightarrow>
           if index < length kind
           then Some (s1\<lparr>st_kinds := fmupd k (remove_nth index kind) (st_kinds s1)\<rparr>)
           else None) }"

definition time_expired :: "go_time \<Rightarrow> 'd Package \<Rightarrow> bool" where
  "time_expired now p = (case pk_ExpiryTime p of None \<Rightarrow> False | Some t \<Rightarrow> now > t)"

definition pack_expired :: "go_time \<Rightarrow> nat \<Rightarrow> 'd Package \<Rightarrow> bool" where
  "pack_expired now n p \<longleftrightarrow>
     (pk_ExpiryCount p > 0 \<and> pk_ExpiryCount p < int n) \<or> time_expired now p"

text \<open>
  The expiry loop of \<open>Add\<close> over the list of the added package's kind. \<open>None\<close> is a panic or a
  loop that never ends; \<open>expire_loop_correct\<close> shows that neither happens.
\<close>

partial_function (option) expire_loop ::
  "go_time \<Rightarrow> PacketKind \<Rightarrow> 'd DefaultPipeStore \<Rightarrow> addr list \<Rightarrow> nat \<Rightarrow> 'd DefaultPipeStore option" where
  "expire_loop now k s kind i =
     (if i < length kind then
        (if pack_expired now (length kind) (st_mem s (kind ! i)) then
           Option.bind (store_removeKind (s\<lparr>st_removed := wrap64 (st_removed s + 1)\<rparr>) (kind ! i) i)
             (\<lambda>s'. expire_loop now k s' (kind_list s' k) i)
         else expire_loop now k s kind (i + 1))
      else Some s)"

declare expire_loop.simps [code]

definition store_Add ::
  "go_time \<Rightarrow> go_time \<Rightarrow> 'd DefaultPipeStore \<Rightarrow> addr option \<Rightarrow> ('d DefaultPipeStore \<times> int) option" where
  "store_Add t0 now s p = (case p of None \<Rightarrow> None | Some a \<Rightarrow> do {
     let s0 = (if pk_time (st_mem s a) = 0
               then s\<lparr>st_mem := (st_mem s)(a := (st_mem s a)\<lparr>pk_time := t0\<rparr>)\<rparr> else s);
     h1 \<leftarrow> heap_Push priority_queue (pqueue s0) a;
     h2 \<leftarrow> heap_Fix priority_queue h1 (pk_index (fst h1 a));
     let s2 = set_pqueue h2 s0;
     let k = pk_Kind (st_mem s2 a);
     let kind = kind_list s2 k @ [a];
     s4 \<leftarrow> expire_loop now k (s2\<lparr>st_kinds := fmupd k kind (st_kinds s2)\<rparr>) kind 0;
     Some (s4\<lparr>st_removed := 0\<rparr>, st_removed s4) })"

text \<open>
  \<open>peek\<close>: the body of its \<open>for\<close> loop ends with an unconditional \<open>break\<close>, so it runs at most once.
  \<open>count_attempt\<close> is its second half.
\<close>

definition count_attempt :: "'d DefaultPipeStore \<Rightarrow> addr \<Rightarrow> 'd DefaultPipeStore option" where
  "count_attempt s a =
     (let p = (st_mem s a)\<lparr>pk_retries := wrap64 (pk_retries (st_mem s a) + 1)\<rparr> in
      if pk_Retries p > 0 \<and> pk_retries p smod pk_Retries p = 0 then do {
        let s2 = s\<lparr>st_mem := (st_mem s)(a := p\<lparr>pk_Priority := wrap64 (pk_Priority p + 1)\<rparr>)\<rparr>;
        h \<leftarrow> heap_Fix priority_queue (pqueue s2) (pk_index (st_mem s2 a));
        Some (set_pqueue h s2) }
      else Some (s\<lparr>st_mem := (st_mem s)(a := p)\<rparr>))"

definition store_peek ::
  "go_time \<Rightarrow> 'd DefaultPipeStore \<Rightarrow> ('d DefaultPipeStore \<times> addr option) option" where
  "store_peek now s = do {
     (s1, pack) \<leftarrow> (if pq_Len (pqueue s) > 0 then do {
         a \<leftarrow> pq_First (pqueue s);
         s' \<leftarrow> (if time_expired now (st_mem s a)
                then store_remove (s\<lparr>st_removed := wrap64 (st_removed s + 1)\<rparr>) a
                else Some s);
         Some (s', Some a) }
       else Some (s, None));
     (case pack of
        None \<Rightarrow> Some (s1, None)
      | Some a \<Rightarrow> do { s2 \<leftarrow> count_attempt s1 a; Some (s2, Some a) }) }"

definition store_Peek ::
  "go_time \<Rightarrow> 'd DefaultPipeStore \<Rightarrow> ('d DefaultPipeStore \<times> addr option) option" where
  "store_Peek now s = store_peek now s"

definition store_ack :: "'d DefaultPipeStore \<Rightarrow> addr \<Rightarrow> 'd DefaultPipeStore option" where
  "store_ack s a = (if pk_index (st_mem s a) \<ge> 0 then store_remove s a else Some s)"

definition store_Ack :: "'d DefaultPipeStore \<Rightarrow> addr \<Rightarrow> 'd DefaultPipeStore option" where
  "store_Ack s a = store_ack s a"

definition store_Pop ::
  "go_time \<Rightarrow> 'd DefaultPipeStore \<Rightarrow> ('d DefaultPipeStore \<times> addr option) option" where
  "store_Pop now s = do {
     (s1, pack) \<leftarrow> store_peek now s;
     (case pack of
        None \<Rightarrow> Some (s1, None)
      | Some a \<Rightarrow> do { s2 \<leftarrow> store_ack s1 a; Some (s2, Some a) }) }"

definition store_Len :: "'d DefaultPipeStore \<Rightarrow> int" where
  "store_Len s = pq_Len (pqueue s)"

subsection \<open>The order of the queue\<close>

text \<open>The sort key of a package: priority first, then arrival time.\<close>

datatype pack_key = PackKey (key_priority: int) (key_time: int)

instantiation pack_key :: linorder
begin

definition less_eq_pack_key :: "pack_key \<Rightarrow> pack_key \<Rightarrow> bool" where
  "less_eq_pack_key x y \<longleftrightarrow> key_priority x < key_priority y \<or>
     (key_priority x = key_priority y \<and> key_time x \<le> key_time y)"

definition less_pack_key :: "pack_key \<Rightarrow> pack_key \<Rightarrow> bool" where
  "less_pack_key x y \<longleftrightarrow> key_priority x < key_priority y \<or>
     (key_priority x = key_priority y \<and> key_time x < key_time y)"

instance
  by standard (auto simp: less_eq_pack_key_def less_pack_key_def pack_key.expand)

end

definition contents_of :: "'d mem \<Rightarrow> 'd mem" where
  "contents_of m = (\<lambda>a. (m a)\<lparr>pk_index := 0\<rparr>)"

definition pack_key :: "'d mem \<Rightarrow> addr \<Rightarrow> pack_key" where
  "pack_key m a = PackKey (pk_Priority (m a)) (pk_time (m a))"

text \<open>The queue's own invariant: no duplicates, and each package records its position.\<close>

definition pq_invar :: "'d PriorityQueue \<Rightarrow> bool" where
  "pq_invar h \<longleftrightarrow> distinct (snd h) \<and> (\<forall>i < length (snd h). pk_index (fst h (snd h ! i)) = int i)"

lemma contents_of_sel [simp]:
  "pk_Kind (contents_of m a) = pk_Kind (m a)"
  "pk_ExpiryTime (contents_of m a) = pk_ExpiryTime (m a)"
  "pk_ExpiryCount (contents_of m a) = pk_ExpiryCount (m a)"
  "pk_Priority (contents_of m a) = pk_Priority (m a)"
  "pk_Retries (contents_of m a) = pk_Retries (m a)"
  "pk_retries (contents_of m a) = pk_retries (m a)"
  "pk_time (contents_of m a) = pk_time (m a)"
  "pk_Data (contents_of m a) = pk_Data (m a)"
  "pk_index (contents_of m a) = 0"
  by (simp_all add: contents_of_def)

lemma contents_of_index [simp]: "contents_of (m(a := (m a)\<lparr>pk_index := i\<rparr>)) = contents_of m"
  by (auto simp: contents_of_def)

lemma contents_of_upd: "contents_of (m(a := p)) = (contents_of m)(a := p\<lparr>pk_index := 0\<rparr>)"
  by (auto simp: contents_of_def)

text \<open>Equal contents: every field but the index is equal.\<close>

lemma contents_of_eqD:
  assumes "contents_of m = contents_of m'"
  shows "pk_Kind (m a) = pk_Kind (m' a)" "pk_ExpiryTime (m a) = pk_ExpiryTime (m' a)"
    "pk_ExpiryCount (m a) = pk_ExpiryCount (m' a)" "pk_Priority (m a) = pk_Priority (m' a)"
    "pk_Retries (m a) = pk_Retries (m' a)" "pk_retries (m a) = pk_retries (m' a)"
    "pk_time (m a) = pk_time (m' a)" "pk_Data (m a) = pk_Data (m' a)"
proof -
  have eq: "contents_of m a = contents_of m' a" by (simp add: assms)
  show "pk_Kind (m a) = pk_Kind (m' a)" using eq contents_of_sel(1) [of m a] by simp
  show "pk_ExpiryTime (m a) = pk_ExpiryTime (m' a)" using eq contents_of_sel(2) [of m a] by simp
  show "pk_ExpiryCount (m a) = pk_ExpiryCount (m' a)" using eq contents_of_sel(3) [of m a] by simp
  show "pk_Priority (m a) = pk_Priority (m' a)" using eq contents_of_sel(4) [of m a] by simp
  show "pk_Retries (m a) = pk_Retries (m' a)" using eq contents_of_sel(5) [of m a] by simp
  show "pk_retries (m a) = pk_retries (m' a)" using eq contents_of_sel(6) [of m a] by simp
  show "pk_time (m a) = pk_time (m' a)" using eq contents_of_sel(7) [of m a] by simp
  show "pk_Data (m a) = pk_Data (m' a)" using eq contents_of_sel(8) [of m a] by simp
qed

lemma pq_Swap_correct:
  assumes "pq_invar h" "i < length (snd h)" "j < length (snd h)"
  shows "\<exists>h'. pq_Swap h (int i) (int j) = Some h' \<and> pq_invar h' \<and>
    contents_of (fst h') = contents_of (fst h) \<and> snd h' = swap_list (snd h) i j \<and>
    (\<forall>x. x \<notin> set (snd h) \<longrightarrow> pk_index (fst h' x) = pk_index (fst h x))"
proof -
  obtain m q where h: "h = (m, q)" by force
  let ?q = "swap_list q i j"
  define m1 where "m1 = m(?q ! i := (m (?q ! i))\<lparr>pk_index := int i\<rparr>)"
  define m2 where "m2 = m1(?q ! j := (m1 (?q ! j))\<lparr>pk_index := int j\<rparr>)"
  have d: "distinct ?q" "\<forall>k < length q. pk_index (m (q ! k)) = int k"
    using assms by (auto simp: h pq_invar_def)
  have "pq_Swap h (int i) (int j) = Some (m2, ?q)"
    using assms by (simp add: h pq_Swap_def in_range_def Let_def m1_def m2_def)
  moreover have "pk_index (m2 (?q ! k)) = int k" if k: "k < length q" for k
  proof (cases "k = i \<or> k = j")
    case True
    moreover have "?q ! i = ?q ! j \<longleftrightarrow> i = j"
      using d(1) assms(2,3) by (simp add: h nth_eq_iff_index_eq)
    ultimately show ?thesis by (auto simp: m2_def m1_def)
  next
    case False
    then have "?q ! k \<noteq> ?q ! i" "?q ! k \<noteq> ?q ! j" "?q ! k = q ! k"
      using d(1) k assms(2,3) by (auto simp: h nth_eq_iff_index_eq nth_swap_list)
    then show ?thesis using d(2) k by (simp add: m2_def m1_def)
  qed
  moreover have "contents_of m2 = contents_of m" by (auto simp: m2_def m1_def contents_of_def)
  moreover have "pk_index (m2 x) = pk_index (m x)" if "x \<notin> set q" for x
  proof -
    have "x \<noteq> ?q ! i" "x \<noteq> ?q ! j" using that assms(2,3)
      by (metis h snd_conv length_swap_list nth_mem set_swap_list)+
    then show ?thesis by (simp add: m2_def m1_def)
  qed
  ultimately show ?thesis using d(1) by (auto simp: h pq_invar_def)
qed

lemma pq_Less_correct:
  "i < length (snd h) \<Longrightarrow> j < length (snd h) \<Longrightarrow>
    pq_Less h (int i) (int j) =
      Some (pack_key (contents_of (fst h)) (snd h ! i) < pack_key (contents_of (fst h)) (snd h ! j))"
  by (cases h) (auto simp: pq_Less_def in_range_def Let_def pack_key_def less_pack_key_def)

lemma pq_Push_correct:
  assumes "pq_invar h" "x \<notin> set (snd h)"
  shows "pq_invar (pq_Push h x)" "contents_of (fst (pq_Push h x)) = contents_of (fst h)"
    "snd (pq_Push h x) = snd h @ [x]" "y \<noteq> x \<Longrightarrow> pk_index (fst (pq_Push h x) y) = pk_index (fst h y)"
  using assms by (cases h; auto simp: pq_Push_def pq_invar_def nth_append less_Suc_eq dest: nth_mem)+

lemma pq_Pop_correct:
  assumes "pq_invar h" "snd h \<noteq> []"
  shows "\<exists>h'. pq_Pop h = Some (h', last (snd h)) \<and> pq_invar h' \<and> contents_of (fst h') = contents_of (fst h) \<and>
    snd h' = butlast (snd h) \<and> pk_index (fst h' (last (snd h))) = - 1 \<and>
    (\<forall>y. y \<notin> set (snd h) \<longrightarrow> pk_index (fst h' y) = pk_index (fst h y))"
proof -
  obtain m q x where h: "h = (m, q @ [x])" using assms(2) by (metis rev_exhaust prod.exhaust_sel)
  have "pq_invar (m(x := (m x)\<lparr>pk_index := - 1\<rparr>), q)"
    using assms(1) by (auto simp: h pq_invar_def nth_append dest: nth_mem split: if_splits)
  then show ?thesis by (auto simp: h pq_Pop_def Let_def)
qed

interpretation pq: heap_interface priority_queue pq_invar snd "\<lambda>h. contents_of (fst h)" pack_key
  "\<lambda>h a. pk_index (fst h a)"
proof (unfold_locales, goal_cases)
  case (1 h)
  then show ?case by (simp add: priority_queue_def pq_Len_def)
next
  case (2 h i j)
  then show ?case by (simp add: priority_queue_def pq_Less_correct)
next
  case (3 h i j)
  then show ?case using pq_Swap_correct [of h i j] by (simp add: priority_queue_def)
next
  case (4 h x)
  then show ?case using pq_Push_correct [of h x] by (auto simp: priority_queue_def)
next
  case (5 h)
  then show ?case using pq_Pop_correct [of h] by (simp add: priority_queue_def)
qed

subsection \<open>The store's invariant\<close>

text \<open>
  The queue is a heap with correct indices, and the list of each kind holds exactly the queued
  packages of that kind, without duplicates.
\<close>

definition kinds_ok :: "'d DefaultPipeStore \<Rightarrow> bool" where
  "kinds_ok s \<longleftrightarrow> (\<forall>k. distinct (kind_list s k) \<and>
     set (kind_list s k) = {a \<in> set (st_pq s). pk_Kind (st_mem s a) = k})"

definition store_inv :: "'d DefaultPipeStore \<Rightarrow> bool" where
  "store_inv s \<longleftrightarrow> pq_invar (pqueue s) \<and> pq.heap (pqueue s) \<and> kinds_ok s \<and> is_int64 (st_removed s)"

abbreviation contents :: "'d DefaultPipeStore \<Rightarrow> 'd mem" where
  "contents s \<equiv> contents_of (st_mem s)"

abbreviation pending :: "'d DefaultPipeStore \<Rightarrow> addr set" where
  "pending s \<equiv> set (st_pq s)"

lemma pqueue_sel [simp]: "fst (pqueue s) = st_mem s" "snd (pqueue s) = st_pq s"
  by (simp_all add: pqueue_def)

lemma set_pqueue_sel [simp]:
  "st_mem (set_pqueue h s) = fst h" "st_pq (set_pqueue h s) = snd h"
  "st_removed (set_pqueue h s) = st_removed s" "st_kinds (set_pqueue h s) = st_kinds s"
  "pqueue (set_pqueue h s) = h"
  by (simp_all add: set_pqueue_def pqueue_def)

lemma slice_at_upd [simp]: "slice_at (fmupd k l m) = (slice_at m)(k := l)"
  by (auto simp: slice_at_def fun_eq_iff)

lemma pqueue_upd [simp]:
  "pqueue (s\<lparr>st_removed := r\<rparr>) = pqueue s" "pqueue (s\<lparr>st_kinds := kk\<rparr>) = pqueue s"
  "pqueue (s\<lparr>st_mem := mm\<rparr>) = (mm, st_pq s)"
  by (simp_all add: pqueue_def)

lemma store_inv_removed [simp]: "store_inv s \<Longrightarrow> is_int64 r \<Longrightarrow> store_inv (s\<lparr>st_removed := r\<rparr>)"
  by (simp add: store_inv_def kinds_ok_def)

lemma store_inv_index:
  "store_inv s \<Longrightarrow> i < length (st_pq s) \<Longrightarrow> pk_index (st_mem s (st_pq s ! i)) = int i"
  by (simp add: store_inv_def pq_invar_def)

lemma store_inv_kind_list:
  "store_inv s \<Longrightarrow> set (kind_list s k) = {a \<in> pending s. pk_Kind (st_mem s a) = k}"
  "store_inv s \<Longrightarrow> distinct (kind_list s k)"
  by (simp_all add: store_inv_def kinds_ok_def)

lemma position_nth: "distinct xs \<Longrightarrow> i < length xs \<Longrightarrow> position (xs ! i) xs = Some i"
  by (induction xs arbitrary: i) (auto simp: nth_Cons split: nat.splits)

lemma position_mem: "a \<in> set xs \<Longrightarrow> distinct xs \<Longrightarrow> \<exists>i < length xs. xs ! i = a \<and> position a xs = Some i"
  by (metis in_set_conv_nth position_nth)

lemma remove_nth_remove1: "distinct xs \<Longrightarrow> i < length xs \<Longrightarrow> remove_nth i xs = remove1 (xs ! i) xs"
  by (induction xs arbitrary: i) (auto simp: remove_nth_def nth_Cons split: nat.splits)

text \<open>
  \<open>drops s a s'\<close>: going from \<open>s\<close> to \<open>s'\<close> removes exactly the package \<open>a\<close>, and marks it (index -1).
\<close>

definition drops :: "'d DefaultPipeStore \<Rightarrow> addr \<Rightarrow> 'd DefaultPipeStore \<Rightarrow> bool" where
  "drops s a s' \<longleftrightarrow> store_inv s' \<and> contents s' = contents s \<and> st_removed s' = st_removed s \<and>
     pending s' = pending s - {a} \<and> length (st_pq s') = length (st_pq s) - 1 \<and>
     kind_list s' = (kind_list s)(pk_Kind (st_mem s a) := remove1 a (kind_list s (pk_Kind (st_mem s a)))) \<and>
     pk_index (st_mem s' a) = - 1 \<and> (\<forall>b. b \<notin> pending s \<longrightarrow> pk_index (st_mem s' b) = pk_index (st_mem s b))"

lemma heap_Remove_store:
  assumes "store_inv s" "a \<in> pending s"
  obtains h where "heap_Remove priority_queue (pqueue s) (pk_index (st_mem s a)) = Some (h, a)"
    "pq_invar h" "pq.heap h" "contents_of (fst h) = contents s" "set (snd h) = pending s - {a}"
    "length (snd h) = length (st_pq s) - 1" "pk_index (fst h a) = - 1"
    "\<forall>b. b \<notin> pending s \<longrightarrow> pk_index (fst h b) = pk_index (st_mem s b)"
proof -
  from assms(2) obtain i where i: "i < length (st_pq s)" "st_pq s ! i = a"
    by (auto simp: in_set_conv_nth)
  then have idx: "pk_index (st_mem s a) = int i" using assms(1) store_inv_index by blast
  obtain h where h: "heap_Remove priority_queue (pqueue s) (int i) = Some (h, a)" "pq_invar h" "pq.heap h"
    "contents_of (fst h) = contents s" "mset (snd h) = mset (st_pq s) - {#a#}"
    "pk_index (fst h a) = - 1" "\<forall>b. b \<notin> pending s \<longrightarrow> pk_index (fst h b) = pk_index (st_mem s b)"
    using pq.heap_Remove_correct [of "pqueue s" i] assms(1) i by (auto simp: store_inv_def)
  have "mset (snd h) = mset (remove1 a (st_pq s))" using h(5) by simp
  then have "set (snd h) = set (remove1 a (st_pq s))" "length (snd h) = length (remove1 a (st_pq s))"
    by (metis set_mset_mset, metis size_mset)
  moreover have "distinct (st_pq s)" using assms(1) by (simp add: store_inv_def pq_invar_def)
  ultimately show thesis using that h idx assms(2) by (simp add: length_remove1)
qed

text \<open>
  Both removals end with the same state: the queue without \<open>a\<close> and the kind's list without \<open>a\<close>.
\<close>

lemma drops_intro:
  assumes inv: "store_inv s" and a: "a \<in> pending s"
    and h: "pq_invar h" "pq.heap h" "contents_of (fst h) = contents s" "set (snd h) = pending s - {a}"
      "length (snd h) = length (st_pq s) - 1" "pk_index (fst h a) = - 1"
      "\<forall>b. b \<notin> pending s \<longrightarrow> pk_index (fst h b) = pk_index (st_mem s b)"
  defines "k \<equiv> pk_Kind (st_mem s a)"
  shows "drops s a ((set_pqueue h s)\<lparr>st_kinds := fmupd k (remove1 a (kind_list s k)) (st_kinds s)\<rparr>)"
    (is "drops s a ?s")
proof -
  have kind: "pk_Kind (fst h b) = pk_Kind (st_mem s b)" for b
    using contents_of_eqD(1) [OF h(3)] .
  have "kinds_ok ?s"
    using store_inv_kind_list [OF inv] h(4)
    by (auto simp: kinds_ok_def kind k_def)
  with h inv have "store_inv ?s" by (simp add: store_inv_def)
  with h show ?thesis by (simp add: drops_def k_def)
qed

lemma fmlookup_kinds:
  assumes "store_inv s" "a \<in> pending s"
  shows "fmlookup (st_kinds s) (pk_Kind (st_mem s a)) = Some (kind_list s (pk_Kind (st_mem s a)))"
    "a \<in> set (kind_list s (pk_Kind (st_mem s a)))"
proof -
  show a: "a \<in> set (kind_list s (pk_Kind (st_mem s a)))"
    using store_inv_kind_list(1) [OF assms(1)] assms(2) by simp
  then show "fmlookup (st_kinds s) (pk_Kind (st_mem s a)) = Some (kind_list s (pk_Kind (st_mem s a)))"
    by (cases "fmlookup (st_kinds s) (pk_Kind (st_mem s a))") (auto simp: slice_at_def)
qed

lemma store_remove_correct:
  assumes "store_inv s" "a \<in> pending s"
  shows "\<exists>s'. store_remove s a = Some s' \<and> drops s a s'"
proof -
  obtain h where h: "heap_Remove priority_queue (pqueue s) (pk_index (st_mem s a)) = Some (h, a)"
    "pq_invar h" "pq.heap h" "contents_of (fst h) = contents s" "set (snd h) = pending s - {a}"
    "length (snd h) = length (st_pq s) - 1" "pk_index (fst h a) = - 1"
    "\<forall>b. b \<notin> pending s \<longrightarrow> pk_index (fst h b) = pk_index (st_mem s b)"
    by (rule heap_Remove_store [OF assms])
  let ?k = "pk_Kind (st_mem s a)"
  obtain i where i: "i < length (kind_list s ?k)" "kind_list s ?k ! i = a" "position a (kind_list s ?k) = Some i"
    using position_mem [OF fmlookup_kinds(2) [OF assms] store_inv_kind_list(2) [OF assms(1)]] by blast
  then have "remove_nth i (kind_list s ?k) = remove1 a (kind_list s ?k)"
    using remove_nth_remove1 [OF store_inv_kind_list(2) [OF assms(1)] i(1)] by simp
  moreover have "pk_Kind (fst h a) = ?k" using contents_of_eqD(1) [OF h(4)] .
  ultimately have "store_remove s a =
      Some ((set_pqueue h s)\<lparr>st_kinds := fmupd ?k (remove1 a (kind_list s ?k)) (st_kinds s)\<rparr>)"
    using h(1) i(3) fmlookup_kinds(1) [OF assms] by (simp add: store_remove_def Let_def)
  with drops_intro [OF assms h(2-)] show ?thesis by blast
qed

lemma store_removeKind_correct:
  assumes "store_inv s" "a \<in> pending s" "i < length (kind_list s (pk_Kind (st_mem s a)))"
    "kind_list s (pk_Kind (st_mem s a)) ! i = a"
  shows "\<exists>s'. store_removeKind s a i = Some s' \<and> drops s a s'"
proof -
  obtain h where h: "heap_Remove priority_queue (pqueue s) (pk_index (st_mem s a)) = Some (h, a)"
    "pq_invar h" "pq.heap h" "contents_of (fst h) = contents s" "set (snd h) = pending s - {a}"
    "length (snd h) = length (st_pq s) - 1" "pk_index (fst h a) = - 1"
    "\<forall>b. b \<notin> pending s \<longrightarrow> pk_index (fst h b) = pk_index (st_mem s b)"
    by (rule heap_Remove_store [OF assms(1,2)])
  let ?k = "pk_Kind (st_mem s a)"
  have "remove_nth i (kind_list s ?k) = remove1 a (kind_list s ?k)"
    using remove_nth_remove1 [OF store_inv_kind_list(2) [OF assms(1)] assms(3)] assms(4) by simp
  moreover have "pk_Kind (fst h a) = ?k" using contents_of_eqD(1) [OF h(4)] .
  ultimately have "store_removeKind s a i =
      Some ((set_pqueue h s)\<lparr>st_kinds := fmupd ?k (remove1 a (kind_list s ?k)) (st_kinds s)\<rparr>)"
    using h(1) assms(3) fmlookup_kinds(1) [OF assms(1,2)] by (simp add: store_removeKind_def Let_def)
  with drops_intro [OF assms(1,2) h(2-)] show ?thesis by blast
qed

subsection \<open>Expiry\<close>

text \<open>
  What the expiry loop computes, on lists: \<open>purge E kept xs\<close> goes through \<open>xs\<close> once and drops an
  element that is expired with respect to the number of elements still there.
\<close>

fun purge :: "('a \<Rightarrow> nat \<Rightarrow> bool) \<Rightarrow> 'a list \<Rightarrow> 'a list \<Rightarrow> 'a list" where
  "purge E kept [] = kept"
| "purge E kept (x # xs) =
     (if E x (length kept + Suc (length xs)) then purge E kept xs else purge E (kept @ [x]) xs)"

abbreviation expired_in :: "go_time \<Rightarrow> 'd mem \<Rightarrow> addr \<Rightarrow> nat \<Rightarrow> bool" where
  "expired_in now m a n \<equiv> pack_expired now n (m a)"

lemma purge_cong: "(\<And>x n. x \<in> set xs \<Longrightarrow> E x n = E' x n) \<Longrightarrow> purge E kept xs = purge E' kept xs"
  by (induction xs arbitrary: kept) auto

lemma length_purge: "length (purge E kept xs) \<le> length kept + length xs"
  by (induction E kept xs rule: purge.induct) auto

lemma set_purge: "set kept \<subseteq> set (purge E kept xs) \<and> set (purge E kept xs) \<subseteq> set kept \<union> set xs"
  by (induction E kept xs rule: purge.induct) auto

text \<open>
  An element that survived stays unexpired while the list shrinks, so in the end no element is
  expired with respect to the final length.
\<close>

lemma purge_unexpired:
  assumes mono: "\<And>x m n. E x m \<Longrightarrow> m \<le> n \<Longrightarrow> E x n"
    and "\<And>x. x \<in> set kept \<Longrightarrow> \<not> E x (length kept + length xs)"
    and "x \<in> set (purge E kept xs)"
  shows "\<not> E x (length (purge E kept xs))"
  using assms(2,3)
proof (induction xs arbitrary: kept)
  case (Cons y ys)
  show ?case
  proof (cases "E y (length kept + Suc (length ys))")
    case True
    have "\<not> E z (length kept + length ys)" if "z \<in> set kept" for z
      using Cons.prems(1) [OF that] mono by fastforce
    with Cons.IH [of kept] Cons.prems(2) True show ?thesis by simp
  next
    case False
    have "\<not> E z (length (kept @ [y]) + length ys)" if "z \<in> set (kept @ [y])" for z
      using Cons.prems(1) that False by auto
    with Cons.IH [of "kept @ [y]"] Cons.prems(2) False show ?thesis by simp
  qed
qed auto

lemma pack_expired_mono: "pack_expired now m p \<Longrightarrow> m \<le> n \<Longrightarrow> pack_expired now n p"
  by (auto simp: pack_expired_def)

text \<open>
  Going from \<open>s\<close> to \<open>s'\<close>, packages of kind \<open>k\<close> were dropped so that \<open>l\<close> is left of that kind; the
  dropped ones are marked and counted.
\<close>

definition expires_to :: "'d DefaultPipeStore \<Rightarrow> PacketKind \<Rightarrow> addr list \<Rightarrow> 'd DefaultPipeStore \<Rightarrow> bool" where
  "expires_to s k l s' \<longleftrightarrow> store_inv s' \<and> contents s' = contents s \<and> kind_list s' = (kind_list s)(k := l) \<and>
     st_removed s' = wrap64 (st_removed s + int (length (kind_list s k)) - int (length l)) \<and>
     pending s' \<subseteq> pending s \<and> (\<forall>b \<in> pending s - pending s'. pk_index (st_mem s' b) = - 1) \<and>
     (\<forall>b. b \<notin> pending s \<longrightarrow> pk_index (st_mem s' b) = pk_index (st_mem s b))"

lemma expires_to_drop:
  assumes "drops (s\<lparr>st_removed := wrap64 (st_removed s + 1)\<rparr>) a s1" "a \<in> pending s"
    "pk_Kind (st_mem s a) = k" "kind_list s k = xs @ a # ys" "distinct (xs @ a # ys)"
    and "expires_to s1 k l s'"
  shows "expires_to s k l s'"
proof -
  have k1: "kind_list s1 = (kind_list s)(k := xs @ ys)" and r1: "st_removed s1 = wrap64 (st_removed s + 1)"
    using assms(1,3-5) by (auto simp: drops_def remove1_append)
  have "st_removed s' = wrap64 (st_removed s1 + int (length (kind_list s1 k)) - int (length l))"
    using assms(6) by (simp add: expires_to_def)
  also have "\<dots> = wrap64 (wrap64 (st_removed s + 1) + (int (length (xs @ ys)) - int (length l)))"
    using k1 r1 by (simp add: algebra_simps)
  also have "\<dots> = wrap64 (st_removed s + int (length (kind_list s k)) - int (length l))"
    unfolding wrap64_add by (simp add: assms(4) algebra_simps)
  finally have rem: "st_removed s' = wrap64 (st_removed s + int (length (kind_list s k)) - int (length l))" .
  have p1: "pending s1 = pending s - {a}" "pk_index (st_mem s1 a) = - 1" "contents s1 = contents s"
    "\<forall>b. b \<notin> pending s \<longrightarrow> pk_index (st_mem s1 b) = pk_index (st_mem s b)"
    using assms(1) by (auto simp: drops_def)
  show ?thesis using assms(6) rem k1 p1 by (auto simp: expires_to_def)
qed

lemma expire_loop_correct:
  assumes "store_inv s" "kind_list s k = kept @ xs"
  shows "\<exists>s'. expire_loop now k s (kept @ xs) (length kept) = Some s' \<and>
    expires_to s k (purge (expired_in now (contents s)) kept xs) s'"
  using assms
proof (induction xs arbitrary: s kept)
  case Nil
  then show ?case
    by (auto simp: expire_loop.simps [of _ _ _ _ "length kept"] expires_to_def fun_upd_idem store_inv_def)
next
  case (Cons a xs)
  have a: "a \<in> pending s" "pk_Kind (st_mem s a) = k" "distinct (kept @ a # xs)"
    using store_inv_kind_list [OF Cons.prems(1), of k] Cons.prems(2) by auto
  let ?n = "length kept + Suc (length xs)"
  show ?case
  proof (cases "pack_expired now ?n (st_mem s a)")
    case False
    then have "\<not> pack_expired now ?n (contents s a)" by (simp add: pack_expired_def time_expired_def)
    with Cons.IH [of s "kept @ [a]"] Cons.prems False show ?thesis
      by (auto simp: expire_loop.simps [of now k s "kept @ a # xs" "length kept"])
  next
    case True
    let ?s = "s\<lparr>st_removed := wrap64 (st_removed s + 1)\<rparr>"
    obtain s1 where s1: "store_removeKind ?s a (length kept) = Some s1" "drops ?s a s1"
      using store_removeKind_correct [of ?s a "length kept"] Cons.prems a by auto
    have k1: "kind_list s1 k = kept @ xs" "store_inv s1" "contents s1 = contents s"
      using s1(2) a Cons.prems(2) by (auto simp: drops_def remove1_append)
    obtain s' where s': "expire_loop now k s1 (kept @ xs) (length kept) = Some s'"
      "expires_to s1 k (purge (expired_in now (contents s)) kept xs) s'"
      using Cons.IH [OF k1(2,1)] k1(3) by auto
    have "expires_to s k (purge (expired_in now (contents s)) kept xs) s'"
      using expires_to_drop [OF s1(2) a(1,2) Cons.prems(2) a(3) s'(2)] .
    moreover have "pack_expired now ?n (contents s a)"
      using True by (simp add: pack_expired_def time_expired_def)
    ultimately show ?thesis
      using True s1(1) s'(1) k1(1) by (auto simp: expire_loop.simps [of now k s "kept @ a # xs" "length kept"])
  qed
qed

subsection \<open>Adding a package\<close>

definition stamp :: "go_time \<Rightarrow> 'd Package \<Rightarrow> 'd Package" where
  "stamp t0 p = (if pk_time p = 0 then p\<lparr>pk_time := t0\<rparr> else p)"

lemma pq_heap_cong:
  assumes "\<And>a. a \<in> set q \<Longrightarrow> pack_key m a = pack_key m' a"
  shows "pq.heap (m, q) = pq.heap (m', q)"
proof -
  have "pq.keys (m, q) = pq.keys (m', q)"
    using assms by (simp add: pq.keys_def pack_key_def)
  then show ?thesis by (simp add: pq.heap_def)
qed

lemma store_inv_outside:
  assumes "store_inv s" "a \<notin> pending s"
  shows "store_inv (s\<lparr>st_mem := (st_mem s)(a := p)\<rparr>)"
proof -
  have "pq.heap ((st_mem s)(a := p), st_pq s) = pq.heap (st_mem s, st_pq s)"
    by (rule pq_heap_cong) (use assms(2) in \<open>auto simp: pack_key_def\<close>)
  moreover have "pq_invar ((st_mem s)(a := p), st_pq s)"
    using assms by (auto simp: store_inv_def pq_invar_def dest: nth_mem)
  moreover have "kinds_ok (s\<lparr>st_mem := (st_mem s)(a := p)\<rparr>)"
    using assms by (auto simp: store_inv_def kinds_ok_def)
  ultimately show ?thesis using assms(1) by (simp add: store_inv_def pqueue_def)
qed

text \<open>\<open>heap.Push\<close> and the \<open>heap.Fix\<close> that follows it in \<open>Add\<close>.\<close>

lemma heap_Fix_heap:
  assumes "pq_invar h" "pq.heap h" "a \<in> set (snd h)"
  shows "\<exists>h'. heap_Fix priority_queue h (pk_index (fst h a)) = Some h' \<and>
    pq.permutes (length (snd h)) h h' \<and> pq.heap h'"
proof -
  obtain i where i: "i < length (snd h)" "snd h ! i = a" using assms(3) by (auto simp: in_set_conv_nth)
  then have "pk_index (fst h a) = int i" using assms(1) by (auto simp: pq_invar_def)
  moreover have "heap_hole (pq.keys h) (length (snd h)) i"
    using heap_upto_hole [of "pq.keys h" "length (snd h)" i "pq.keys h ! i"] assms(2)
    by (simp add: pq.heap_def)
  ultimately show ?thesis using pq.heap_Fix_correct [OF assms(1) i(1)] by simp
qed

lemma push_and_fix:
  assumes "pq_invar h" "pq.heap h" "a \<notin> set (snd h)"
  obtains h1 h2 where "heap_Push priority_queue h a = Some h1"
    "heap_Fix priority_queue h1 (pk_index (fst h1 a)) = Some h2" "pq_invar h2" "pq.heap h2"
    "contents_of (fst h2) = contents_of (fst h)" "mset (snd h2) = add_mset a (mset (snd h))"
    "\<forall>b. b \<notin> set (snd h) \<and> b \<noteq> a \<longrightarrow> pk_index (fst h2 b) = pk_index (fst h b)"
proof -
  have push: "hi_Push priority_queue h a = pq_Push h a" by (simp add: priority_queue_def)
  obtain h1 where h1: "heap_Push priority_queue h a = Some h1"
    "pq.permutes (Suc (length (snd h))) (pq_Push h a) h1" "pq.heap h1"
    using pq.heap_Push_correct [OF assms] by (auto simp: push)
  have m1: "mset (snd h1) = add_mset a (mset (snd h))"
    using h1(2) pq_Push_correct(3) [OF assms(1,3)] by (simp add: pq.permutes_def)
  then have a1: "a \<in> set (snd h1)" by (metis union_single_eq_member set_mset_mset)
  obtain h2 where h2: "heap_Fix priority_queue h1 (pk_index (fst h1 a)) = Some h2"
    "pq.permutes (length (snd h1)) h1 h2" "pq.heap h2"
    using heap_Fix_heap [OF pq.permutes_invar [OF h1(2)] h1(3) a1] by blast
  have set1: "set (snd h1) = insert a (set (snd h))" using m1 by (metis set_mset_add_mset_insert set_mset_mset)
  have "pk_index (fst h2 b) = pk_index (fst h b)" if "b \<notin> set (snd h)" "b \<noteq> a" for b
    using that h1(2) h2(2) set1 pq_Push_correct(3,4) [OF assms(1,3)] by (simp add: pq.permutes_def)
  then show thesis
    using that [OF h1(1) h2(1)] h1(2) h2(2,3) m1 pq_Push_correct(2) [OF assms(1,3)]
    by (auto simp: pq.permutes_def)
qed

lemma store_Add_correct:
  fixes s :: "'d DefaultPipeStore" and t0 now :: go_time
  assumes "store_inv s" "a \<notin> pending s"
  defines "c \<equiv> (contents s)(a := stamp t0 (contents s a))" and "k \<equiv> pk_Kind (st_mem s a)"
  defines "l \<equiv> purge (expired_in now c) [] (kind_list s k @ [a])"
  shows "\<exists>s'. store_Add t0 now s (Some a) =
      Some (s', wrap64 (st_removed s + int (length (kind_list s k @ [a])) - int (length l))) \<and>
    store_inv s' \<and> contents s' = c \<and> kind_list s' = (kind_list s)(k := l) \<and> st_removed s' = 0 \<and>
    pending s' \<subseteq> insert a (pending s) \<and>
    (\<forall>b \<in> insert a (pending s) - pending s'. pk_index (st_mem s' b) = - 1) \<and>
    (\<forall>b. b \<notin> insert a (pending s) \<longrightarrow> pk_index (st_mem s' b) = pk_index (st_mem s b))"
proof -
  define s0 where "s0 = (if pk_time (st_mem s a) = 0
     then s\<lparr>st_mem := (st_mem s)(a := (st_mem s a)\<lparr>pk_time := t0\<rparr>)\<rparr> else s)"
  have s0: "store_inv s0" "contents s0 = c" "st_pq s0 = st_pq s" "st_kinds s0 = st_kinds s"
    "st_removed s0 = st_removed s" "pk_Kind (st_mem s0 a) = k" "\<forall>b. pk_index (st_mem s0 b) = pk_index (st_mem s b)"
    using store_inv_outside [OF assms(1,2)] assms(1)
    by (auto simp: s0_def c_def k_def stamp_def contents_of_def)
  have q0: "pq_invar (pqueue s0)" "pq.heap (pqueue s0)" "a \<notin> set (snd (pqueue s0))"
    using s0(1,3) assms(2) by (simp_all add: store_inv_def)
  obtain h1 h2 where push: "heap_Push priority_queue (pqueue s0) a = Some h1"
    "heap_Fix priority_queue h1 (pk_index (fst h1 a)) = Some h2" "pq_invar h2" "pq.heap h2"
    "contents_of (fst h2) = contents_of (fst (pqueue s0))" "mset (snd h2) = add_mset a (mset (snd (pqueue s0)))"
    "\<forall>b. b \<notin> set (snd (pqueue s0)) \<and> b \<noteq> a \<longrightarrow> pk_index (fst h2 b) = pk_index (fst (pqueue s0) b)"
    by (rule push_and_fix [OF q0])
  have h: "contents_of (fst h2) = c" "mset (snd h2) = add_mset a (mset (st_pq s))"
    "\<forall>b. b \<notin> pending s \<and> b \<noteq> a \<longrightarrow> pk_index (fst h2 b) = pk_index (st_mem s b)"
    using push(5-7) s0(2,3,7) by simp_all
  have kind2: "pk_Kind (fst h2 b) = pk_Kind (st_mem s0 b)" for b
    using contents_of_eqD(1) [of "fst h2" "st_mem s0" b] h(1) s0(2) by simp
  have set2: "set (snd h2) = insert a (pending s)"
    using h(2) by (metis set_mset_add_mset_insert set_mset_mset)
  define s3 where "s3 = (set_pqueue h2 s0)\<lparr>st_kinds := fmupd k (kind_list s k @ [a]) (st_kinds s)\<rparr>"
  have "kinds_ok s3"
    using store_inv_kind_list [OF s0(1)] s0(3,4,6) assms(2) set2
    by (auto simp: s3_def kinds_ok_def kind2)
  then have "store_inv s3" using push(3,4) s0(1) by (simp add: s3_def store_inv_def)
  then obtain s' where s': "expire_loop now k s3 (kind_list s k @ [a]) 0 = Some s'" "expires_to s3 k l s'"
    using expire_loop_correct [of s3 k "[]" "kind_list s k @ [a]" now] h(1) by (auto simp: s3_def l_def)
  have "store_Add t0 now s (Some a) = Some (s'\<lparr>st_removed := 0\<rparr>, st_removed s')"
    using push(1,2) s'(1) kind2 [of a] s0(4,6) by (simp add: store_Add_def Let_def s0_def [symmetric] s3_def)
  then show ?thesis
    using s'(2) h(1,3) set2 s0(4,5) by (auto simp: expires_to_def s3_def)
qed

subsection \<open>Taking a package\<close>

text \<open>What one attempt to send does to a package: count it, and demote it every \<open>Retries\<close> attempts.\<close>

definition attempt :: "'d Package \<Rightarrow> 'd Package" where
  "attempt p =
     (let p1 = p\<lparr>pk_retries := wrap64 (pk_retries p + 1)\<rparr> in
      if pk_Retries p1 > 0 \<and> pk_retries p1 smod pk_Retries p1 = 0
      then p1\<lparr>pk_Priority := wrap64 (pk_Priority p1 + 1)\<rparr> else p1)"

lemma attempt_sel [simp]:
  "pk_Kind (attempt p) = pk_Kind p" "pk_index (attempt p) = pk_index p" "pk_time (attempt p) = pk_time p"
  "pk_ExpiryTime (attempt p) = pk_ExpiryTime p" "pk_ExpiryCount (attempt p) = pk_ExpiryCount p"
  "pk_Data (attempt p) = pk_Data p" "pk_Retries (attempt p) = pk_Retries p"
  "pk_retries (attempt p) = wrap64 (pk_retries p + 1)"
  "(attempt p)\<lparr>pk_index := i\<rparr> = attempt (p\<lparr>pk_index := i\<rparr>)"
  by (auto simp: attempt_def Let_def)

text \<open>A negative index is out of the heap: \<open>heap.Fix\<close> leaves everything as it is.\<close>

lemma heap_Fix_minus_1: "heap_Fix I h (- 1) = Some h"
proof -
  have "(- 2 :: int) sdiv 2 = - 1" by (simp add: signed_divide_int_def)
  then have "heap_up I h (- 1) = Some h" by (subst heap_up.simps) simp
  then show ?thesis by (simp add: heap_Fix_def heap_down_def down_loop.simps [of I h "- 1"])
qed

lemma map_changed_at:
  assumes "distinct q" "i < length q" "\<And>b. b \<noteq> q ! i \<Longrightarrow> f' b = f b"
  shows "map f' q = (map f q)[i := f' (q ! i)]"
  using assms by (intro nth_equalityI) (auto simp: nth_list_update nth_eq_iff_index_eq)

lemma pending_index_nonneg: "store_inv s \<Longrightarrow> a \<in> pending s \<Longrightarrow> 0 \<le> pk_index (st_mem s a)"
  by (metis in_set_conv_nth of_nat_0_le_iff store_inv_index)

text \<open>
  \<open>revises s a p s'\<close>: \<open>s'\<close> is \<open>s\<close> with the contents of \<open>a\<close> replaced by \<open>p\<close>; the queue may be
  reordered.
\<close>

definition revises :: "'d DefaultPipeStore \<Rightarrow> addr \<Rightarrow> 'd Package \<Rightarrow> 'd DefaultPipeStore \<Rightarrow> bool" where
  "revises s a p s' \<longleftrightarrow> store_inv s' \<and> contents s' = (contents s)(a := p\<lparr>pk_index := 0\<rparr>) \<and>
     pending s' = pending s \<and> st_kinds s' = st_kinds s \<and> st_removed s' = st_removed s \<and>
     (\<forall>b. b \<notin> pending s \<and> b \<noteq> a \<longrightarrow> pk_index (st_mem s' b) = pk_index (st_mem s b))"

lemma revises_attempt:
  "revises s a (attempt (st_mem s a)) s' \<Longrightarrow> contents s' = (contents s)(a := attempt (contents s a))"
  by (simp add: revises_def contents_of_def)

lemma change_and_fix:
  fixes s :: "'d DefaultPipeStore"
  assumes inv: "store_inv s" and a: "a \<in> pending s"
    and p: "pk_index p = pk_index (st_mem s a)" "pk_Kind p = pk_Kind (st_mem s a)"
  defines "s2 \<equiv> s\<lparr>st_mem := (st_mem s)(a := p)\<rparr>"
  shows "\<exists>h. heap_Fix priority_queue (pqueue s2) (pk_index p) = Some h \<and> revises s a p (set_pqueue h s2)"
proof -
  have q: "distinct (st_pq s)" using inv by (simp add: store_inv_def pq_invar_def)
  obtain i where i: "i < length (st_pq s)" "st_pq s ! i = a" using a by (auto simp: in_set_conv_nth)
  then have idx: "pk_index p = int i" using inv p(1) store_inv_index by metis
  have inv2: "pq_invar (pqueue s2)"
    using inv p(1) by (auto simp: s2_def store_inv_def pq_invar_def)
  have "pq.keys (pqueue s2) = (pq.keys (pqueue s))[i := pack_key (contents s2) a]"
    using map_changed_at [OF q i(1), of "pack_key (contents s2)" "pack_key (contents s)"] i(2)
    by (auto simp: s2_def pq.keys_def pack_key_def)
  then have "heap_hole (pq.keys (pqueue s2)) (length (st_pq s)) i"
    using heap_upto_hole [of "pq.keys (pqueue s)" "length (st_pq s)"] inv by (simp add: store_inv_def pq.heap_def)
  then obtain h where h: "heap_Fix priority_queue (pqueue s2) (int i) = Some h"
    "pq.permutes (length (st_pq s)) (pqueue s2) h" "pq.heap h"
    using pq.heap_Fix_correct [OF inv2, of i] i(1) by (auto simp: s2_def)
  have c: "contents_of (fst h) = contents s2" and set: "set (snd h) = pending s"
    using h(2) pq.permutes_set [OF h(2)] by (auto simp: pq.permutes_def s2_def)
  have kind: "pk_Kind (fst h b) = pk_Kind (st_mem s b)" for b
    using contents_of_eqD(1) [OF c, of b] p(2) by (simp add: s2_def)
  have "store_inv (set_pqueue h s2)"
    using inv h(3) pq.permutes_invar [OF h(2)] kind set by (simp add: store_inv_def kinds_ok_def s2_def)
  moreover have "pk_index (fst h b) = pk_index (st_mem s b)" if "b \<notin> pending s" for b
    using h(2) that a by (auto simp: pq.permutes_def s2_def)
  ultimately show ?thesis
    using h(1) c set idx by (auto simp: revises_def s2_def contents_of_upd)
qed

lemma change_same_key:
  assumes inv: "store_inv s" and a: "a \<in> pending s"
    and p: "pk_index p = pk_index (st_mem s a)" "pk_Kind p = pk_Kind (st_mem s a)"
      "pk_Priority p = pk_Priority (st_mem s a)" "pk_time p = pk_time (st_mem s a)"
  shows "revises s a p (s\<lparr>st_mem := (st_mem s)(a := p)\<rparr>)"
proof -
  have "pq.heap ((st_mem s)(a := p), st_pq s) = pq.heap (st_mem s, st_pq s)"
    by (rule pq_heap_cong) (auto simp: pack_key_def p)
  moreover have "pq_invar ((st_mem s)(a := p), st_pq s)"
    using inv p(1) by (auto simp: store_inv_def pq_invar_def)
  moreover have "kinds_ok (s\<lparr>st_mem := (st_mem s)(a := p)\<rparr>)"
    using inv p(2) by (auto simp: store_inv_def kinds_ok_def)
  ultimately show ?thesis using inv a by (auto simp: revises_def store_inv_def pqueue_def contents_of_upd)
qed

lemma first_least:
  assumes "store_inv s" "st_pq s = a # q" "b \<in> pending s"
  shows "pack_key (contents s) a \<le> pack_key (contents s) b"
proof -
  obtain i where i: "i < length (st_pq s)" "st_pq s ! i = b" using assms(3) by (auto simp: in_set_conv_nth)
  then have "pq.keys (pqueue s) ! 0 \<le> pq.keys (pqueue s) ! i"
    using assms(1) by (intro heap_root_least) (auto simp: store_inv_def pq.heap_def)
  moreover have "pq.keys (pqueue s) ! 0 = pack_key (contents s) a" using assms(2) by (simp add: pq.keys_def)
  moreover have "pq.keys (pqueue s) ! i = pack_key (contents s) b" using i by (simp add: pq.keys_def)
  ultimately show ?thesis by simp
qed

lemma count_attempt_pending:
  assumes "store_inv s" "a \<in> pending s"
  shows "\<exists>s'. count_attempt s a = Some s' \<and> revises s a (attempt (st_mem s a)) s'"
  using change_and_fix [OF assms, of "attempt (st_mem s a)"]
    change_same_key [OF assms, of "attempt (st_mem s a)"]
  by (auto simp: count_attempt_def attempt_def Let_def)

lemma count_attempt_gone:
  assumes "store_inv s" "a \<notin> pending s" "pk_index (st_mem s a) = - 1"
  shows "\<exists>s'. count_attempt s a = Some s' \<and> revises s a (attempt (st_mem s a)) s' \<and>
    pk_index (st_mem s' a) = - 1"
  using store_inv_outside [OF assms(1,2)] assms(3)
  by (auto simp: count_attempt_def attempt_def Let_def heap_Fix_minus_1 revises_def set_pqueue_def
      pqueue_def contents_of_upd)

text \<open>The removal that \<open>peek\<close> (of an expired package) and \<open>ack\<close> have in common.\<close>

definition takes :: "go_time \<Rightarrow> 'd DefaultPipeStore \<Rightarrow> addr \<Rightarrow> 'd DefaultPipeStore \<Rightarrow> bool" where
  "takes now s a s' \<longleftrightarrow> store_inv s' \<and> contents s' = (contents s)(a := attempt (contents s a)) \<and>
     pending s' = pending s - {a} \<and>
     kind_list s' = (kind_list s)(pk_Kind (st_mem s a) := remove1 a (kind_list s (pk_Kind (st_mem s a)))) \<and>
     st_removed s' = (if time_expired now (st_mem s a) then wrap64 (st_removed s + 1) else st_removed s) \<and>
     pk_index (st_mem s' a) = - 1 \<and> (\<forall>b. b \<notin> pending s \<longrightarrow> pk_index (st_mem s' b) = pk_index (st_mem s b))"

lemma store_peek_expired:
  assumes "store_inv s" "st_pq s = a # q" "time_expired now (st_mem s a)"
  shows "\<exists>s'. store_peek now s = Some (s', Some a) \<and> takes now s a s'"
proof -
  let ?s = "s\<lparr>st_removed := wrap64 (st_removed s + 1)\<rparr>"
  have a: "a \<in> pending s" using assms(2) by simp
  obtain s1 where s1: "store_remove ?s a = Some s1" "drops ?s a s1"
    using store_remove_correct [of ?s a] assms(1) a by auto
  have gone: "store_inv s1" "a \<notin> pending s1" "pk_index (st_mem s1 a) = - 1"
    using s1(2) by (auto simp: drops_def)
  have same: "contents s1 a = contents s a" using s1(2) by (simp add: drops_def)
  obtain s2 where s2: "count_attempt s1 a = Some s2" "revises s1 a (attempt (st_mem s1 a)) s2"
      "pk_index (st_mem s2 a) = - 1"
    using count_attempt_gone [OF gone] by blast
  have "store_peek now s = Some (s2, Some a)"
    using assms(2,3) s1(1) s2(1) by (simp add: store_peek_def pq_Len_def pq_First_def)
  moreover have "contents s2 = (contents s)(a := attempt (contents s a))"
    using revises_attempt [OF s2(2)] s1(2) same by (simp add: drops_def)
  ultimately show ?thesis using s1(2) s2(2,3) a assms(3) by (auto simp: takes_def drops_def revises_def)
qed

lemma store_peek_fresh:
  assumes "store_inv s" "st_pq s = a # q" "\<not> time_expired now (st_mem s a)"
  shows "\<exists>s'. store_peek now s = Some (s', Some a) \<and> revises s a (attempt (st_mem s a)) s'"
proof -
  have a: "a \<in> pending s" using assms(2) by simp
  obtain s' where "count_attempt s a = Some s'" "revises s a (attempt (st_mem s a)) s'"
    using count_attempt_pending [OF assms(1) a] by blast
  then show ?thesis using assms(2,3) by (auto simp: store_peek_def pq_Len_def pq_First_def)
qed

lemma store_peek_empty: "st_pq s = [] \<Longrightarrow> store_peek now s = Some (s, None)"
  by (simp add: store_peek_def pq_Len_def)

lemma store_Pop_correct:
  assumes "store_inv s" "st_pq s = a # q"
  shows "\<exists>s'. store_Pop now s = Some (s', Some a) \<and> takes now s a s'"
proof (cases "time_expired now (st_mem s a)")
  case True
  then obtain s' where "store_peek now s = Some (s', Some a)" "takes now s a s'"
    using store_peek_expired assms by blast
  then show ?thesis by (auto simp: store_Pop_def store_ack_def takes_def)
next
  case False
  then obtain s1 where s1: "store_peek now s = Some (s1, Some a)" "revises s a (attempt (st_mem s a)) s1"
    using store_peek_fresh assms by blast
  have a: "store_inv s1" "a \<in> pending s1" using s1(2) assms(2) by (auto simp: revises_def)
  obtain s2 where s2: "store_remove s1 a = Some s2" "drops s1 a s2"
    using store_remove_correct [OF a] by blast
  have "store_Pop now s = Some (s2, Some a)"
    using s1(1) s2(1) pending_index_nonneg [OF a] by (simp add: store_Pop_def store_ack_def)
  moreover have c: "contents s1 = (contents s)(a := attempt (contents s a))"
    using revises_attempt [OF s1(2)] .
  moreover have "pk_Kind (st_mem s1 a) = pk_Kind (st_mem s a)"
    using arg_cong [OF c, of "\<lambda>m. pk_Kind (m a)"] by simp
  ultimately show ?thesis using s1(2) s2(2) False assms(2) by (auto simp: takes_def drops_def revises_def)
qed

lemma store_Pop_empty: "st_pq s = [] \<Longrightarrow> store_Pop now s = Some (s, None)"
  by (simp add: store_Pop_def store_peek_empty)

end
