(* ===== verification/Pipe_Interface.thy ===== *)
theory Pipe_Interface
  imports Pipe_Store
begin

text \<open>
  The contract of the \<open>PipeStore\<close> interface of \<open>client/pipe_store.go\<close>, as a locale over an abstract
  view of a store (for each kind the pending packages in arrival order, their contents, and the
  drops not yet reported), and \<open>DefaultPipeStore\<close> as an instance of it. The properties of the store
  stand at the end.
\<close>

subsection \<open>The abstract store\<close>

record 'd store_view =
  sv_contents :: "'d mem"
  sv_kinds :: "PacketKind \<Rightarrow> addr list"
  sv_removed :: int

definition pend :: "'d store_view \<Rightarrow> addr set" where
  "pend v = (\<Union>k. set (sv_kinds v k))"

definition view_ok :: "'d store_view \<Rightarrow> bool" where
  "view_ok v \<longleftrightarrow> finite (pend v) \<and> (\<forall>k. distinct (sv_kinds v k)) \<and>
     (\<forall>k. \<forall>a \<in> set (sv_kinds v k). pk_Kind (sv_contents v a) = k)"

definition least_pending :: "'d store_view \<Rightarrow> addr \<Rightarrow> bool" where
  "least_pending v a \<longleftrightarrow> a \<in> pend v \<and>
     (\<forall>b \<in> pend v. pack_key (sv_contents v) a \<le> pack_key (sv_contents v) b)"

definition spec_Add :: "go_time \<Rightarrow> go_time \<Rightarrow> addr \<Rightarrow> 'd store_view \<Rightarrow> 'd store_view \<times> int" where
  "spec_Add t0 now a v =
     (let c = (sv_contents v)(a := stamp t0 (sv_contents v a));
          k = pk_Kind (c a);
          candidates = sv_kinds v k @ [a];
          kept = purge (expired_in now c) [] candidates
      in (\<lparr>sv_contents = c, sv_kinds = (sv_kinds v)(k := kept), sv_removed = 0\<rparr>,
          wrap64 (sv_removed v + int (length candidates) - int (length kept))))"

definition spec_remove :: "addr \<Rightarrow> 'd store_view \<Rightarrow> 'd store_view" where
  "spec_remove a v =
     (let k = pk_Kind (sv_contents v a) in v\<lparr>sv_kinds := (sv_kinds v)(k := remove1 a (sv_kinds v k))\<rparr>)"

definition spec_attempt :: "addr \<Rightarrow> 'd store_view \<Rightarrow> 'd store_view" where
  "spec_attempt a v = v\<lparr>sv_contents := (sv_contents v)(a := attempt (sv_contents v a))\<rparr>"

definition spec_expire :: "go_time \<Rightarrow> addr \<Rightarrow> 'd store_view \<Rightarrow> 'd store_view" where
  "spec_expire now a v =
     (if time_expired now (sv_contents v a) then v\<lparr>sv_removed := wrap64 (sv_removed v + 1)\<rparr> else v)"

definition spec_Pop :: "go_time \<Rightarrow> 'd store_view \<Rightarrow> addr option \<Rightarrow> 'd store_view \<Rightarrow> bool" where
  "spec_Pop now v r v' \<longleftrightarrow> (case r of
     None \<Rightarrow> pend v = {} \<and> v' = v
   | Some a \<Rightarrow> least_pending v a \<and> v' = spec_attempt a (spec_remove a (spec_expire now a v)))"

definition spec_Peek :: "go_time \<Rightarrow> 'd store_view \<Rightarrow> addr option \<Rightarrow> 'd store_view \<Rightarrow> bool" where
  "spec_Peek now v r v' \<longleftrightarrow> (case r of
     None \<Rightarrow> pend v = {} \<and> v' = v
   | Some a \<Rightarrow> least_pending v a \<and>
       v' = spec_attempt a ((if time_expired now (sv_contents v a) then spec_remove a else id) (spec_expire now a v)))"

definition view :: "'d DefaultPipeStore \<Rightarrow> 'd store_view" where
  "view s = \<lparr>sv_contents = contents s, sv_kinds = kind_list s, sv_removed = st_removed s\<rparr>"

text \<open>Taking packages until the list of times is used up; the addresses in the order they came out.\<close>

fun drain :: "(go_time \<Rightarrow> 's \<Rightarrow> ('s \<times> addr option) option) \<Rightarrow> go_time list \<Rightarrow> 's \<Rightarrow> ('s \<times> addr list) option" where
  "drain pop [] s = Some (s, [])"
| "drain pop (t # ts) s =
     (case pop t s of
        None \<Rightarrow> None
      | Some (s', None) \<Rightarrow> drain pop ts s'
      | Some (s', Some a) \<Rightarrow> map_option (\<lambda>(s'', as). (s'', a # as)) (drain pop ts s'))"

subsection \<open>Facts on abstract stores\<close>

lemma pend_spec_remove:
  "view_ok v \<Longrightarrow> a \<in> pend v \<Longrightarrow> pend (spec_remove a v) = pend v - {a}"
  by (auto simp: pend_def spec_remove_def Let_def view_ok_def split: if_splits) metis

lemma pend_simps [simp]:
  "pend (spec_attempt a v) = pend v" "pend (spec_expire now a v) = pend v"
  by (auto simp: pend_def spec_attempt_def spec_expire_def)

lemma sv_contents_simps [simp]:
  "sv_contents (spec_remove a v) = sv_contents v" "sv_contents (spec_expire now a v) = sv_contents v"
  "sv_contents (spec_attempt a v) = (sv_contents v)(a := attempt (sv_contents v a))"
  by (auto simp: spec_remove_def Let_def spec_attempt_def spec_expire_def)

lemma view_ok_expire [simp]: "view_ok (spec_expire now a v) = view_ok v"
  by (simp add: view_ok_def spec_expire_def pend_def)

lemma stamp_Kind [simp]: "pk_Kind (stamp t0 p) = pk_Kind p"
  by (simp add: stamp_def)

lemma spec_Add_kinds:
  assumes "spec_Add t0 now a v = (v', n)"
  shows "sv_kinds v' = (sv_kinds v)(pk_Kind (sv_contents v a) :=
      purge (expired_in now (sv_contents v')) [] (sv_kinds v (pk_Kind (sv_contents v a)) @ [a]))"
    "sv_contents v' = (sv_contents v)(a := stamp t0 (sv_contents v a))"
  using assms by (auto simp: spec_Add_def Let_def)

lemma spec_Add_pend: "spec_Add t0 now a v = (v', n) \<Longrightarrow> pend v' \<subseteq> insert a (pend v)"
  using set_purge [of "[]" "expired_in now (sv_contents v')" "sv_kinds v (pk_Kind (sv_contents v a)) @ [a]"]
  by (auto simp: pend_def spec_Add_kinds split: if_splits)

text \<open>Right after an \<open>Add\<close>, nothing of that kind is expired, by time or by count.\<close>

lemma spec_Add_unexpired:
  assumes "spec_Add t0 now a v = (v', n)" "b \<in> set (sv_kinds v' (pk_Kind (sv_contents v a)))"
  shows "\<not> pack_expired now (length (sv_kinds v' (pk_Kind (sv_contents v a)))) (sv_contents v' b)"
proof -
  let ?E = "expired_in now (sv_contents v')" and ?l = "sv_kinds v (pk_Kind (sv_contents v a)) @ [a]"
  have "sv_kinds v' (pk_Kind (sv_contents v a)) = purge ?E [] ?l" using spec_Add_kinds [OF assms(1)] by simp
  then show ?thesis
    using purge_unexpired [of ?E "[]" ?l b] pack_expired_mono assms(2) by auto
qed

subsection \<open>The interface\<close>

locale pipe_store =
  fixes Add :: "go_time \<Rightarrow> go_time \<Rightarrow> 's \<Rightarrow> addr option \<Rightarrow> ('s \<times> int) option"
    and Peek :: "go_time \<Rightarrow> 's \<Rightarrow> ('s \<times> addr option) option"
    and Ack :: "'s \<Rightarrow> addr \<Rightarrow> 's option"
    and Pop :: "go_time \<Rightarrow> 's \<Rightarrow> ('s \<times> addr option) option"
    and Len :: "'s \<Rightarrow> int"
    and invar :: "'s \<Rightarrow> bool"
    and absv :: "'s \<Rightarrow> 'd store_view"
  assumes view_ok: "invar s \<Longrightarrow> view_ok (absv s)"
    and Add: "invar s \<Longrightarrow> a \<notin> pend (absv s) \<Longrightarrow>
      \<exists>s' n. Add t0 now s (Some a) = Some (s', n) \<and> invar s' \<and> spec_Add t0 now a (absv s) = (absv s', n)"
    and Peek: "invar s \<Longrightarrow>
      \<exists>s' r. Peek now s = Some (s', r) \<and> invar s' \<and> spec_Peek now (absv s) r (absv s')"
    and Ack: "invar s \<Longrightarrow> a \<in> pend (absv s) \<Longrightarrow>
      \<exists>s'. Ack s a = Some s' \<and> invar s' \<and> absv s' = spec_remove a (absv s)"
    and Pop: "invar s \<Longrightarrow>
      \<exists>s' r. Pop now s = Some (s', r) \<and> invar s' \<and> spec_Pop now (absv s) r (absv s')"
    and Len: "invar s \<Longrightarrow> Len s = int (card (pend (absv s)))"
begin

lemma Pop_pend:
  assumes "invar s" "Pop now s = Some (s', Some a)"
  shows "a \<in> pend (absv s)" "pend (absv s') = pend (absv s) - {a}" "invar s'"
    "b \<noteq> a \<Longrightarrow> sv_contents (absv s') b = sv_contents (absv s) b"
    "b \<in> pend (absv s) \<Longrightarrow> pack_key (sv_contents (absv s)) a \<le> pack_key (sv_contents (absv s)) b"
  using Pop [OF assms(1), of now] assms(2) view_ok [OF assms(1)]
  by (auto simp: spec_Pop_def least_pending_def pend_spec_remove)

lemma Pop_None_pend:
  assumes "invar s" "Pop now s = Some (s', None)"
  shows "pend (absv s) = {}" "absv s' = absv s" "invar s'"
  using Pop [OF assms(1), of now] assms(2) by (auto simp: spec_Pop_def)

lemma Pop_total: "invar s \<Longrightarrow> \<exists>s' r. Pop now s = Some (s', r)"
  using Pop by blast

text \<open>Draining a store gives every pending package once, best key first.\<close>

lemma drain_sorted:
  assumes "invar s" "length ts = card (pend (absv s))"
  shows "\<exists>s' as. drain Pop ts s = Some (s', as) \<and> invar s' \<and> pend (absv s') = {} \<and>
    distinct as \<and> set as = pend (absv s) \<and> sorted (map (pack_key (sv_contents (absv s))) as)"
  using assms
proof (induction ts arbitrary: s)
  case Nil
  then show ?case using view_ok [of s] by (auto simp: view_ok_def)
next
  case (Cons t ts)
  then have ne: "pend (absv s) \<noteq> {}" by auto
  obtain s1 r where "Pop t s = Some (s1, r)" using Pop_total Cons.prems(1) by blast
  moreover from this ne have "r \<noteq> None" using Pop_None_pend(1) [OF Cons.prems(1)] by auto
  ultimately obtain a where a: "Pop t s = Some (s1, Some a)" by auto
  note pop = Pop_pend [OF Cons.prems(1) a]
  have "length ts = card (pend (absv s1))"
    using Cons.prems(2) pop(1,2) view_ok [OF Cons.prems(1)] by (simp add: view_ok_def)
  then obtain s' as where rec: "drain Pop ts s1 = Some (s', as)" "invar s'" "pend (absv s') = {}"
    "distinct as" "set as = pend (absv s1)" "sorted (map (pack_key (sv_contents (absv s1))) as)"
    using Cons.IH [OF pop(3)] by blast
  have "pack_key (sv_contents (absv s1)) b = pack_key (sv_contents (absv s)) b" if "b \<in> set as" for b
    using that rec(5) pop(2) pop(4) [of b] by (auto simp: pack_key_def)
  then have "map (pack_key (sv_contents (absv s1))) as = map (pack_key (sv_contents (absv s))) as"
    by (rule map_cong [OF refl])
  with rec(6) have sorted: "sorted (map (pack_key (sv_contents (absv s))) as)" by simp
  have least: "pack_key (sv_contents (absv s)) a \<le> x" if "x \<in> set (map (pack_key (sv_contents (absv s))) as)" for x
    using that rec(5) pop(2) pop(5) by auto
  have "drain Pop (t # ts) s = Some (s', a # as)" using a rec(1) by simp
  moreover have "set (a # as) = pend (absv s)" "a \<notin> set as" using rec(5) pop(1,2) by auto
  ultimately show ?case using rec(2-4) sorted least by simp
qed

end

subsection \<open>\<open>DefaultPipeStore\<close> implements the interface\<close>

lemma view_sel [simp]:
  "sv_contents (view s) = contents s" "sv_kinds (view s) = kind_list s" "sv_removed (view s) = st_removed s"
  by (simp_all add: view_def)

lemma pend_view [simp]: "store_inv s \<Longrightarrow> pend (view s) = pending s"
  by (auto simp: pend_def store_inv_kind_list)

lemma view_ok_view: "store_inv s \<Longrightarrow> view_ok (view s)"
  by (simp add: view_ok_def) (simp add: store_inv_kind_list)

lemma view_takes: "takes now s a s' \<Longrightarrow> view s' = spec_attempt a (spec_remove a (spec_expire now a (view s)))"
  by (auto simp: takes_def view_def spec_attempt_def spec_remove_def spec_expire_def Let_def time_expired_def)

lemma view_drops: "drops s a s' \<Longrightarrow> view s' = spec_remove a (view s)"
  by (auto simp: drops_def view_def spec_remove_def Let_def)

lemma view_revises: "revises s a (attempt (st_mem s a)) s' \<Longrightarrow> view s' = spec_attempt a (view s)"
  using revises_attempt [of s a s'] by (auto simp: revises_def view_def spec_attempt_def)

lemma takes_inv: "takes now s a s' \<Longrightarrow> store_inv s'"
  by (simp add: takes_def)

lemma drops_inv: "drops s a s' \<Longrightarrow> store_inv s'"
  by (simp add: drops_def)

lemma revises_inv: "revises s a p s' \<Longrightarrow> store_inv s'"
  by (simp add: revises_def)

lemma time_expired_contents [simp]: "time_expired now (contents s a) = time_expired now (st_mem s a)"
  by (simp add: time_expired_def)

lemma first_least_pending: "store_inv s \<Longrightarrow> st_pq s = a # q \<Longrightarrow> least_pending (view s) a"
  using first_least [of s a q] by (simp add: least_pending_def)

lemma store_Add_view:
  assumes "store_inv s" "a \<notin> pending s"
  shows "\<exists>s' n. store_Add t0 now s (Some a) = Some (s', n) \<and> store_inv s' \<and>
    spec_Add t0 now a (view s) = (view s', n)"
  using store_Add_correct [OF assms, of t0 now]
  by (auto simp: spec_Add_def view_def Let_def)

lemma store_Pop_view:
  assumes "store_inv s"
  shows "\<exists>s' r. store_Pop now s = Some (s', r) \<and> store_inv s' \<and> spec_Pop now (view s) r (view s')"
proof (cases "st_pq s")
  case Nil
  then show ?thesis using assms by (simp add: store_Pop_empty spec_Pop_def)
next
  case (Cons a q)
  then obtain s' where "store_Pop now s = Some (s', Some a)" "takes now s a s'"
    using store_Pop_correct assms by blast
  then show ?thesis
    using first_least_pending [OF assms Cons] view_takes takes_inv by (fastforce simp: spec_Pop_def)
qed

lemma store_Peek_view:
  assumes "store_inv s"
  shows "\<exists>s' r. store_Peek now s = Some (s', r) \<and> store_inv s' \<and> spec_Peek now (view s) r (view s')"
proof (cases "st_pq s")
  case Nil
  then show ?thesis using assms by (simp add: store_Peek_def store_peek_empty spec_Peek_def)
next
  case (Cons a q)
  note least = first_least_pending [OF assms Cons]
  show ?thesis
  proof (cases "time_expired now (st_mem s a)")
    case True
    then obtain s' where "store_peek now s = Some (s', Some a)" "takes now s a s'"
      using store_peek_expired assms Cons by blast
    then show ?thesis
      using True least view_takes takes_inv by (fastforce simp: store_Peek_def spec_Peek_def)
  next
    case False
    then obtain s' where "store_peek now s = Some (s', Some a)" "revises s a (attempt (st_mem s a)) s'"
      using store_peek_fresh assms Cons by blast
    then show ?thesis
      using False least view_revises revises_inv
      by (fastforce simp: store_Peek_def spec_Peek_def spec_expire_def)
  qed
qed

lemma store_Len_view: "store_inv s \<Longrightarrow> store_Len s = int (card (pending s))"
  by (simp add: store_Len_def pq_Len_def store_inv_def pq_invar_def distinct_card)

interpretation ps: pipe_store store_Add store_Peek store_Ack store_Pop store_Len store_inv view
proof (unfold_locales, goal_cases)
  case (1 s)
  then show ?case by (rule view_ok_view)
next
  case (2 s a t0 now)
  then show ?case using store_Add_view by simp
next
  case (3 s now)
  then show ?case by (rule store_Peek_view)
next
  case (4 s a)
  then show ?case
    using store_remove_correct [of s a] pending_index_nonneg [of s a] view_drops drops_inv
    by (fastforce simp: store_Ack_def store_ack_def)
next
  case (5 s now)
  then show ?case by (rule store_Pop_view)
next
  case (6 s)
  then show ?case by (simp add: store_Len_view)
qed

end
