(* ===== verification/Pipe_Store_Properties.thy ===== *)
theory Pipe_Store_Properties
  imports Pipe_Interface
begin

text \<open>
  The properties of the package store: what each method does to the abstract store, that no
  history of calls panics or breaks the invariant, in which order packages come out, which packages
  an \<open>Add\<close> expires, and three places where the behaviour is not the documented one.
\<close>

subsection \<open>Histories of calls\<close>

text \<open>
  The calls a client may make: \<open>Add\<close> a package that is not queued already, \<open>Ack\<close> a package that is
  queued or was taken out before, \<open>Peek\<close> and \<open>Pop\<close> at any time. Between calls the client may
  allocate packages, that is, write to addresses that are not queued.
\<close>

datatype store_op = OpAdd go_time go_time addr | OpPeek go_time | OpAck addr | OpPop go_time

fun exec_op :: "'d DefaultPipeStore \<Rightarrow> store_op \<Rightarrow> 'd DefaultPipeStore option" where
  "exec_op s (OpAdd t0 now a) = map_option fst (store_Add t0 now s (Some a))"
| "exec_op s (OpPeek now) = map_option fst (store_Peek now s)"
| "exec_op s (OpAck a) = store_Ack s a"
| "exec_op s (OpPop now) = map_option fst (store_Pop now s)"

fun allowed :: "'d DefaultPipeStore \<Rightarrow> store_op \<Rightarrow> bool" where
  "allowed s (OpAdd t0 now a) = (a \<notin> pending s)"
| "allowed s (OpAck a) = (a \<in> pending s \<or> pk_index (st_mem s a) < 0)"
| "allowed s _ = True"

inductive store_reach :: "'d DefaultPipeStore \<Rightarrow> bool" where
  new: "NewDefaultPipeStore m = Some s \<Longrightarrow> store_reach s"
| alloc: "store_reach s \<Longrightarrow> a \<notin> pending s \<Longrightarrow> store_reach (s\<lparr>st_mem := (st_mem s)(a := p)\<rparr>)"
| call: "store_reach s \<Longrightarrow> allowed s op \<Longrightarrow> exec_op s op = Some s' \<Longrightarrow> store_reach s'"

text \<open>Stores to evaluate the properties on: a new one, and one with two packages of one kind.\<close>

definition plain_package :: "string \<Rightarrow> int \<Rightarrow> int \<Rightarrow> unit Package" where
  "plain_package k prio ec = \<lparr>pk_Kind = k, pk_ExpiryTime = None, pk_ExpiryCount = ec, pk_Priority = prio,
     pk_Retries = 0, pk_retries = 0, pk_index = 0, pk_time = 1, pk_Data = ()\<rparr>"

definition empty_store :: "'d mem \<Rightarrow> 'd DefaultPipeStore" where
  "empty_store m = \<lparr>st_mem = m, st_removed = 0, st_pq = [], st_kinds = fmempty\<rparr>"

definition demo_mem :: "unit mem" where
  "demo_mem = (\<lambda>a. if a = 0 then (plain_package ''logs'' 5 0)\<lparr>pk_index := 1\<rparr>
     else if a = 1 then (plain_package ''logs'' 2 0)\<lparr>pk_ExpiryTime := Some 10, pk_Retries := 1\<rparr>
     else plain_package ''logs'' 9 2)"

definition demo_store :: "unit DefaultPipeStore" where
  "demo_store = \<lparr>st_mem = demo_mem, st_removed = 0, st_pq = [1, 0], st_kinds = fmupd ''logs'' [0, 1] fmempty\<rparr>"

subsection \<open>Helper lemmas\<close>

lemma NewDefaultPipeStore_empty: "NewDefaultPipeStore m = Some (empty_store m)"
  by (simp add: NewDefaultPipeStore_def heap_Init_def priority_queue_def pq_Len_def empty_store_def)

lemma slice_at_empty [simp]: "slice_at fmempty k = []"
  by (simp add: slice_at_def)

lemma empty_store_sel [simp]:
  "st_mem (empty_store m) = m" "st_pq (empty_store m) = []" "st_kinds (empty_store m) = fmempty"
  "st_removed (empty_store m) = 0"
  by (simp_all add: empty_store_def)

lemma store_inv_empty [simp]: "store_inv (empty_store m)"
  by (simp add: store_inv_def pq_invar_def pq.heap_def heap_upto_def kinds_ok_def)

lemma demo_store_sel [simp]:
  "st_mem demo_store = demo_mem" "st_pq demo_store = [1, 0]" "st_removed demo_store = 0"
  "kind_list demo_store = (\<lambda>_. [])(''logs'' := [0, 1])"
  by (auto simp: demo_store_def fun_eq_iff)

lemma demo_mem_sel [simp]:
  "pk_Kind (demo_mem a) = ''logs''" "pk_time (demo_mem a) = 1"
  "pk_Priority (demo_mem a) = (if a = 0 then 5 else if a = 1 then 2 else 9)"
  "pk_index (demo_mem a) = (if a = 0 then 1 else 0)"
  "pk_ExpiryTime (demo_mem a) = (if a = 1 then Some 10 else None)"
  "pk_ExpiryCount (demo_mem a) = (if a = 0 \<or> a = 1 then 0 else 2)"
  "pk_Retries (demo_mem a) = (if a = 1 then 1 else 0)"
  by (simp_all add: demo_mem_def plain_package_def)

lemma store_inv_demo [simp]: "store_inv demo_store"
proof -
  have "pq_invar (pqueue demo_store)" by (auto simp: pq_invar_def less_Suc_eq)
  moreover have "pq.heap (pqueue demo_store)"
    by (auto simp: pq.heap_def heap_upto_def pq.keys_def pack_key_def less_eq_pack_key_def parent_def less_Suc_eq)
  moreover have "kinds_ok demo_store" by (auto simp: kinds_ok_def)
  ultimately show ?thesis by (simp add: store_inv_def)
qed

lemma exec_op_total:
  assumes "store_inv s" "allowed s op"
  shows "\<exists>s'. exec_op s op = Some s' \<and> store_inv s'"
proof (cases op)
  case (OpAdd t0 now a)
  then show ?thesis using store_Add_view [of s a t0 now] assms by auto
next
  case (OpPeek now)
  then show ?thesis using store_Peek_view [of s now] assms by auto
next
  case (OpAck a)
  then show ?thesis
    using store_remove_correct [of s a] pending_index_nonneg [of s a] drops_inv assms
    by (fastforce simp: store_Ack_def store_ack_def)
next
  case (OpPop now)
  then show ?thesis using store_Pop_view [of s now] assms by auto
qed

lemma store_reach_inv: "store_reach s \<Longrightarrow> store_inv s"
proof (induction rule: store_reach.induct)
  case (new m s)
  then show ?case by (auto simp: NewDefaultPipeStore_empty)
next
  case (alloc s a p)
  then show ?case by (simp add: store_inv_outside)
next
  case (call s op s')
  then show ?case using exec_op_total by fastforce
qed

lemma purge_skip:
  "(\<And>x n. x \<in> set xs \<Longrightarrow> \<not> E x n) \<Longrightarrow> purge E kept (xs @ ys) = purge E (kept @ xs) ys"
  by (induction xs arbitrary: kept) auto

lemma smod_1 [simp]: "(x::int) smod 1 = 0"
  by (simp add: signed_modulo_int_def)

lemma attempt_priority:
  "pk_Retries p = 1 \<Longrightarrow> is_int64 (pk_Priority p + 1) \<Longrightarrow> pk_Priority (attempt p) = pk_Priority p + 1"
  by (simp add: attempt_def Let_def)

lemma Peek_least:
  assumes "store_inv s" "store_Peek now s = Some (s', r)" "pending s \<noteq> {}"
  shows "\<exists>a. r = Some a \<and> a \<in> pending s \<and> store_inv s' \<and>
    (\<forall>b \<in> pending s. pack_key (contents s) a \<le> pack_key (contents s) b)"
  using store_Peek_view [OF assms(1), of now] assms
  by (auto simp: spec_Peek_def least_pending_def split: option.splits)

subsection \<open>Properties\<close>

text \<open>C1: Adding a package that is not queued never panics and its expiry loop ends; the invariant
  is kept, and the new store and the returned count are those of the abstract store: the package is
  stamped and appended to the list of its kind, that list is purged of expired packages in one pass,
  and the count is the number of packages dropped since the previous \<open>Add\<close>.\<close>

theorem store_Add_refines:
  assumes "store_inv s" and "a \<notin> pending s"
  shows "\<exists>s' n. store_Add t0 now s (Some a) = Some (s', n) \<and> store_inv s' \<and>
    spec_Add t0 now a (view s) = (view s', n)"
  using assms by (rule store_Add_view)

theorem store_Add_refines_witness:
  "\<exists>s' n. store_Add 5 20 demo_store (Some 7) = Some (s', n) \<and> store_inv s' \<and>
    spec_Add 5 20 7 (view demo_store) = (view s', n)"
  by (rule store_Add_refines) simp_all

text \<open>C2: \<open>Pop\<close> never panics; on an empty store it returns nothing, otherwise it returns a pending
  package with the least priority number and, among those, the earliest time, removes exactly that
  package, and counts the attempt in it.\<close>

theorem store_Pop_refines:
  assumes "store_inv s"
  shows "\<exists>s' r. store_Pop now s = Some (s', r) \<and> store_inv s' \<and> spec_Pop now (view s) r (view s')"
  using assms by (rule store_Pop_view)

theorem store_Pop_refines_witness:
  "\<exists>s' r. store_Pop 3 demo_store = Some (s', r) \<and> store_inv s' \<and> spec_Pop 3 (view demo_store) r (view s')"
  by (rule store_Pop_refines) simp

text \<open>C3: Popping as often as there are pending packages empties the store and yields every pending
  package exactly once, ordered by priority and then by time.\<close>

theorem store_drain_sorted:
  assumes "store_inv s" and "length ts = card (pending s)"
  shows "\<exists>s' as. drain store_Pop ts s = Some (s', as) \<and> pending s' = {} \<and> distinct as \<and>
    set as = pending s \<and> sorted (map (pack_key (contents s)) as)"
  using ps.drain_sorted [of s ts] assms by (auto simp: pend_view)

theorem store_drain_sorted_witness:
  "\<exists>s' as. drain store_Pop [3, 4] demo_store = Some (s', as) \<and> pending s' = {} \<and> distinct as \<and>
    set as = pending demo_store \<and> sorted (map (pack_key (contents demo_store)) as)"
  by (rule store_drain_sorted) simp_all

text \<open>C4: Whatever sequence of allowed calls a client makes on a new store, the store satisfies its
  invariant (a heap with correct positions, and per-kind lists that agree with it) and the next
  allowed call returns: it neither panics nor loops.\<close>

theorem store_never_panics:
  assumes "store_reach s"
  shows "store_inv s \<and> (\<forall>op. allowed s op \<longrightarrow> exec_op s op \<noteq> None)"
  using store_reach_inv [OF assms] exec_op_total by blast

theorem store_never_panics_witness:
  "store_inv (empty_store demo_mem) \<and> exec_op (empty_store demo_mem) (OpAdd 1 2 0) \<noteq> None"
  using store_never_panics [OF store_reach.new [OF NewDefaultPipeStore_empty [of demo_mem]]]
  by (metis allowed.simps(1) empty_iff empty_set empty_store_sel(2))

text \<open>Right after an \<open>Add\<close>, no pending package of that kind is past its expiry time, and each
  one with a positive expiry count has at most that many packages of its kind in the store.\<close>

theorem store_Add_expires:
  assumes "store_inv s" and "a \<notin> pending s" and "store_Add t0 now s (Some a) = Some (s', n)"
    and "b \<in> pending s'" and "pk_Kind (st_mem s' b) = pk_Kind (st_mem s a)"
  shows "\<not> time_expired now (st_mem s' b) \<and>
    (pk_ExpiryCount (st_mem s' b) > 0 \<longrightarrow>
      int (card {c \<in> pending s'. pk_Kind (st_mem s' c) = pk_Kind (st_mem s a)}) \<le> pk_ExpiryCount (st_mem s' b))"
proof -
  let ?k = "pk_Kind (st_mem s a)"
  have inv: "store_inv s'" and spec: "spec_Add t0 now a (view s) = (view s', n)"
    using store_Add_view [OF assms(1,2), of t0 now] assms(3) by auto
  have b: "b \<in> set (kind_list s' ?k)" using store_inv_kind_list [OF inv] assms(4,5) by simp
  have "card (set (kind_list s' ?k)) = length (kind_list s' ?k)"
    using store_inv_kind_list(2) [OF inv] by (simp add: distinct_card)
  then have "length (kind_list s' ?k) = card {c \<in> pending s'. pk_Kind (st_mem s' c) = ?k}"
    using store_inv_kind_list(1) [OF inv, of ?k] by simp
  then show ?thesis
    using spec_Add_unexpired [OF spec, of b] b by (auto simp: pack_expired_def)
qed

theorem store_Add_expires_witness:
  "\<exists>s' n. store_Add 5 20 demo_store (Some 7) = Some (s', n) \<and>
    (\<exists>b \<in> pending s'. pk_Kind (st_mem s' b) = ''logs'' \<and> \<not> time_expired 20 (st_mem s' b))"
proof -
  have "map_option (\<lambda>(s', n). (0 \<in> pending s', pk_Kind (st_mem s' 0))) (store_Add 5 20 demo_store (Some 7))
      = Some (True, ''logs'')"
    by code_simp
  then obtain s' n where s': "store_Add 5 20 demo_store (Some 7) = Some (s', n)"
    and 0: "0 \<in> pending s'" "pk_Kind (st_mem s' 0) = ''logs''"
    by auto
  then show ?thesis using store_Add_expires [OF _ _ s' 0(1)] by auto
qed

text \<open>A package at the head of the queue that is past its expiry time is still handed out by
  \<open>Pop\<close> (and so sent), and it is counted as dropped all the same. The field's comment says that
  after that time it will not be sent; the loop of \<open>peek\<close> leaves after its first round instead of
  going on to the next package.\<close>

theorem store_Pop_hands_out_expired:
  assumes "store_inv s" and "pq_First (pqueue s) = Some a" and "time_expired now (st_mem s a)"
  shows "\<exists>s'. store_Pop now s = Some (s', Some a) \<and> pending s' = pending s - {a} \<and>
    st_removed s' = wrap64 (st_removed s + 1)"
proof -
  obtain q where "st_pq s = a # q" using assms(2) by (auto simp: pq_First_def split: list.splits)
  then show ?thesis using store_Pop_correct [OF assms(1)] assms(3) by (fastforce simp: takes_def)
qed

theorem store_Pop_hands_out_expired_witness:
  "\<exists>s'. store_Pop 11 demo_store = Some (s', Some 1) \<and> pending s' = pending demo_store - {1} \<and>
    st_removed s' = wrap64 (st_removed demo_store + 1)"
  by (rule store_Pop_hands_out_expired) (simp_all add: pq_First_def time_expired_def)

text \<open>A package with a positive expiry count that is added behind at least that many packages
  of its kind which never expire is dropped by its own \<open>Add\<close>, although no package came after it;
  the field's comment says it expires if that number of packages come afterwards.\<close>

theorem store_Add_drops_own_package:
  assumes "store_inv s" and "a \<notin> pending s" and "0 < pk_ExpiryCount (st_mem s a)"
    and "pk_ExpiryCount (st_mem s a) \<le> int (length (kind_list s (pk_Kind (st_mem s a))))"
    and "\<forall>b \<in> set (kind_list s (pk_Kind (st_mem s a))). pk_ExpiryCount (st_mem s b) = 0 \<and> pk_ExpiryTime (st_mem s b) = None"
  shows "\<exists>s' n. store_Add t0 now s (Some a) = Some (s', n) \<and> a \<notin> pending s'"
proof -
  let ?l = "kind_list s (pk_Kind (st_mem s a))"
  obtain s' n where s': "store_Add t0 now s (Some a) = Some (s', n)" "store_inv s'"
    and spec: "spec_Add t0 now a (view s) = (view s', n)"
    using store_Add_view [OF assms(1,2)] by blast
  let ?E = "expired_in now (contents s')"
  have c: "contents s' = (contents s)(a := stamp t0 (contents s a))"
    using spec_Add_kinds(2) [OF spec] by simp
  have a: "a \<notin> set ?l" using store_inv_kind_list(1) [OF assms(1)] assms(2) by simp
  have keep: "\<not> ?E b m" if "b \<in> set ?l" for b m
    using that a assms(5) by (auto simp: c pack_expired_def time_expired_def)
  have own: "?E a (Suc (length ?l))"
    using assms(3,4) by (simp add: c pack_expired_def stamp_def)
  have "kind_list s' (pk_Kind (st_mem s a)) = purge ?E [] (?l @ [a])"
    using spec_Add_kinds(1) [OF spec] by simp
  also have "\<dots> = purge ?E ([] @ ?l) [a]" by (rule purge_skip) (rule keep)
  also have "\<dots> = ?l" using own by simp
  finally have "a \<notin> set (kind_list s' (pk_Kind (st_mem s a)))" using a by simp
  moreover have "pk_Kind (contents s' a) = pk_Kind (st_mem s a)" by (simp only: c) simp
  ultimately show ?thesis using s' store_inv_kind_list(1) [OF s'(2)] by auto
qed

theorem store_Add_drops_own_package_witness:
  "\<exists>s' n. store_Add 5 5 (demo_store\<lparr>st_mem := demo_mem(1 := (demo_mem 1)\<lparr>pk_ExpiryTime := None\<rparr>)\<rparr>) (Some 7)
    = Some (s', n) \<and> 7 \<notin> pending s'"
proof (rule store_Add_drops_own_package)
  show "store_inv (demo_store\<lparr>st_mem := demo_mem(1 := (demo_mem 1)\<lparr>pk_ExpiryTime := None\<rparr>)\<rparr>)"
    using change_same_key [of demo_store 1 "(demo_mem 1)\<lparr>pk_ExpiryTime := None\<rparr>"] by (simp add: revises_def)
qed simp_all

text \<open>Two calls of \<open>Peek\<close> in a row, with nothing expired and nothing acknowledged, can return
  different packages: the first call demotes a package whose \<open>Retries\<close> is 1, and another package of
  the same priority is then ahead of it. The interface's comment promises the same package.\<close>

theorem store_Peek_not_stable:
  assumes "store_inv s" and "pq_First (pqueue s) = Some a" and "\<not> time_expired now (st_mem s a)"
    and "pk_Retries (st_mem s a) = 1" and "is_int64 (pk_Priority (st_mem s a) + 1)"
    and "b \<in> pending s" and "b \<noteq> a" and "pk_Priority (st_mem s b) = pk_Priority (st_mem s a)"
  shows "\<exists>s1 s2 c. store_Peek now s = Some (s1, Some a) \<and> pending s1 = pending s \<and>
    store_Peek now s1 = Some (s2, Some c) \<and> c \<noteq> a"
proof -
  obtain q where q: "st_pq s = a # q" using assms(2) by (auto simp: pq_First_def split: list.splits)
  obtain s1 where s1: "store_peek now s = Some (s1, Some a)" "revises s a (attempt (st_mem s a)) s1"
    using store_peek_fresh [OF assms(1) q assms(3)] by blast
  have inv1: "store_inv s1" "pending s1 = pending s" using s1(2) by (auto simp: revises_def)
  have c1: "contents s1 = (contents s)(a := attempt (contents s a))" using revises_attempt [OF s1(2)] .
  obtain s2 r where s2: "store_Peek now s1 = Some (s2, r)" using store_Peek_view [OF inv1(1)] by blast
  have b1: "b \<in> pending s1" using inv1(2) assms(6) by simp
  then have "pending s1 \<noteq> {}" by (metis empty_iff)
  then obtain c where c: "r = Some c" "pack_key (contents s1) c \<le> pack_key (contents s1) b"
    using Peek_least [OF inv1(1) s2] b1 by blast
  have "\<not> pack_key (contents s1) a \<le> pack_key (contents s1) b"
    using assms(4,5,7,8) by (simp add: c1 pack_key_def less_eq_pack_key_def attempt_priority)
  with c(2) have "c \<noteq> a" by auto
  then show ?thesis using s1(1) inv1(2) s2 c(1) by (auto simp: store_Peek_def)
qed

theorem store_Peek_not_stable_witness:
  "\<exists>s1 s2 c. store_Peek 3 (demo_store\<lparr>st_mem := demo_mem(0 := (demo_mem 0)\<lparr>pk_Priority := 2\<rparr>)\<rparr>) = Some (s1, Some 1) \<and>
    pending s1 = pending (demo_store\<lparr>st_mem := demo_mem(0 := (demo_mem 0)\<lparr>pk_Priority := 2\<rparr>)\<rparr>) \<and>
    store_Peek 3 s1 = Some (s2, Some c) \<and> c \<noteq> 1"
proof (rule store_Peek_not_stable [where b = 0])
  let ?s = "demo_store\<lparr>st_mem := demo_mem(0 := (demo_mem 0)\<lparr>pk_Priority := 2\<rparr>)\<rparr>"
  have "pq_invar (pqueue ?s)" by (auto simp: pq_invar_def less_Suc_eq)
  moreover have "pq.heap (pqueue ?s)"
    by (auto simp: pq.heap_def heap_upto_def pq.keys_def pack_key_def less_eq_pack_key_def parent_def less_Suc_eq)
  moreover have "kinds_ok ?s" by (auto simp: kinds_ok_def)
  ultimately show "store_inv ?s" by (simp add: store_inv_def)
qed (simp_all add: pq_First_def time_expired_def is_int64_def)

end
