(* ===== verification/Pipe_Workers.thy ===== *)
theory Pipe_Workers
  imports Pipe_Store_Properties
begin

text \<open>
  \<open>client/pipe.go\<close>: the pipe, its \<open>Send\<close> and its worker goroutines, as a transition system.

  Each event is one atomic step of one goroutine: an acquisition or release of the lock \<open>cond.L\<close>, one
  call of a (mutex-protected) method of the store, one \<open>Broadcast\<close>, or the return of
  \<open>sender.Send\<close>. \<open>enabled\<close> says when a goroutine can take the step, \<open>exec_event\<close> what it does, with
  \<open>None\<close> for a panic; \<open>pipe_reach\<close> are the states of all interleavings. \<open>cond.Wait\<close> puts the worker on
  the list of waiters and releases the lock; since the worker is on the list before it releases the
  lock, this is one step. The sender is not part of this component: its answer is in the event.

  \<open>pi_sent\<close>, \<open>pi_dropped\<close> and \<open>pi_next\<close> are history: the packages delivered, the packages expired by
  the store, and the addresses used so far (\<open>Send\<close> stores its own copy of the package, so each call
  has a fresh address). A package that \<open>Pop\<close> hands out after its expiry time is counted in \<open>st_removed\<close>, but the
  worker sends it all the same: it ends up in \<open>pi_sent\<close> and not in \<open>pi_dropped\<close>.
\<close>

subsection \<open>States and events\<close>

datatype worker_pc =
    AtLock | Locked | GotNil | Waiting | Woken | Relocked | Got addr | Sending addr

record 'd Pipe =
  pi_storage :: "'d DefaultPipeStore"
  pi_lock :: "nat option"
  pi_workers :: "worker_pc list"
  pi_casts :: nat
  pi_next :: addr
  pi_sent :: "addr list"
  pi_dropped :: "addr set"

datatype 'd pipe_event =
    SendAdd go_time go_time "'d Package"
  | SendBroadcast
  | Lock nat
  | Pop nat go_time
  | Wait nat
  | Unlock nat
  | SendOk nat
  | SendErr nat go_time go_time

definition NewPipe :: "'d mem \<Rightarrow> 'd Pipe option" where
  "NewPipe m = do {
     s \<leftarrow> NewDefaultPipeStore m;
     Some \<lparr>pi_storage = s, pi_lock = None, pi_workers = [], pi_casts = 0, pi_next = 0,
       pi_sent = [], pi_dropped = {}\<rparr> }"

definition pipe_Start :: "'d Pipe \<Rightarrow> nat \<Rightarrow> 'd Pipe" where
  "pipe_Start p workers = p\<lparr>pi_workers := pi_workers p @ replicate workers AtLock\<rparr>"

definition pipe_Len :: "'d Pipe \<Rightarrow> int" where
  "pipe_Len p = store_Len (pi_storage p)"

abbreviation set_worker :: "'d Pipe \<Rightarrow> nat \<Rightarrow> worker_pc \<Rightarrow> 'd Pipe" where
  "set_worker p i pc \<equiv> p\<lparr>pi_workers := (pi_workers p)[i := pc]\<rparr>"

definition at_pc :: "'d Pipe \<Rightarrow> nat \<Rightarrow> worker_pc \<Rightarrow> bool" where
  "at_pc p i pc \<longleftrightarrow> i < length (pi_workers p) \<and> pi_workers p ! i = pc"

text \<open>\<open>storage.Add\<close> of the package at address \<open>a\<close>, with the packages it expires recorded.\<close>

definition pipe_add :: "go_time \<Rightarrow> go_time \<Rightarrow> 'd Pipe \<Rightarrow> addr \<Rightarrow> ('d Pipe \<times> int) option" where
  "pipe_add t0 now p a = do {
     (s', ret) \<leftarrow> store_Add t0 now (pi_storage p) (Some a);
     Some (p\<lparr>pi_storage := s',
       pi_dropped := pi_dropped p \<union> (insert a (pending (pi_storage p)) - pending s')\<rparr>, ret) }"

text \<open>The first half of \<open>Send\<close>: copy the package, stamp it, add it; the second is \<open>wake_all\<close>. The
  number of dropped packages that \<open>Add\<close> returns is the result of \<open>Send\<close>.\<close>

definition pipe_send_add :: "go_time \<Rightarrow> go_time \<Rightarrow> 'd Package \<Rightarrow> 'd Pipe \<Rightarrow> ('d Pipe \<times> int) option" where
  "pipe_send_add t now pack p =
     (let a = pi_next p;
          s = pi_storage p;
          s1 = s\<lparr>st_mem := (st_mem s)(a := pack\<lparr>pk_time := t\<rparr>)\<rparr>
      in map_option (\<lambda>(p', ret). (p'\<lparr>pi_casts := pi_casts p' + 1\<rparr>, ret))
           (pipe_add t now (p\<lparr>pi_storage := s1, pi_next := Suc a\<rparr>) a))"

definition wake_all :: "worker_pc list \<Rightarrow> worker_pc list" where
  "wake_all = map (\<lambda>pc. if pc = Waiting then Woken else pc)"

fun enabled :: "'d Pipe \<Rightarrow> 'd pipe_event \<Rightarrow> bool" where
  "enabled p (SendAdd t now pack) = True"
| "enabled p SendBroadcast = (pi_casts p > 0)"
| "enabled p (Lock i) = (pi_lock p = None \<and> (at_pc p i AtLock \<or> at_pc p i Woken))"
| "enabled p (Pop i now) = at_pc p i Locked"
| "enabled p (Wait i) = at_pc p i GotNil"
| "enabled p (Unlock i) = (at_pc p i Relocked \<or> (\<exists>a \<in> {..<pi_next p}. at_pc p i (Got a)))"
| "enabled p (SendOk i) = (\<exists>a \<in> {..<pi_next p}. at_pc p i (Sending a))"
| "enabled p (SendErr i t0 now) = (\<exists>a \<in> {..<pi_next p}. at_pc p i (Sending a))"

fun exec_event :: "'d Pipe \<Rightarrow> 'd pipe_event \<Rightarrow> 'd Pipe option" where
  "exec_event p (SendAdd t now pack) = map_option fst (pipe_send_add t now pack p)"
| "exec_event p SendBroadcast =
     Some (p\<lparr>pi_workers := wake_all (pi_workers p), pi_casts := pi_casts p - 1\<rparr>)"
| "exec_event p (Lock i) =
     Some ((set_worker p i (if at_pc p i AtLock then Locked else Relocked))\<lparr>pi_lock := Some i\<rparr>)"
| "exec_event p (Pop i now) = do {
     (s', r) \<leftarrow> store_Pop now (pi_storage p);
     Some ((set_worker p i (case r of None \<Rightarrow> GotNil | Some a \<Rightarrow> Got a))\<lparr>pi_storage := s'\<rparr>) }"
| "exec_event p (Wait i) = Some ((set_worker p i Waiting)\<lparr>pi_lock := None\<rparr>)"
| "exec_event p (Unlock i) =
     Some ((set_worker p i (case pi_workers p ! i of Got a \<Rightarrow> Sending a | _ \<Rightarrow> AtLock))\<lparr>pi_lock := None\<rparr>)"
| "exec_event p (SendOk i) = (case pi_workers p ! i of
     Sending a \<Rightarrow> Some ((set_worker p i AtLock)\<lparr>pi_sent := pi_sent p @ [a]\<rparr>)
   | _ \<Rightarrow> None)"
| "exec_event p (SendErr i t0 now) = (case pi_workers p ! i of
     Sending a \<Rightarrow> map_option fst (pipe_add t0 now (set_worker p i AtLock) a)
   | _ \<Rightarrow> None)"

text \<open>A whole call of \<open>Send\<close>, when nothing comes between its two steps.\<close>

definition pipe_Send :: "go_time \<Rightarrow> go_time \<Rightarrow> 'd Package \<Rightarrow> 'd Pipe \<Rightarrow> ('d Pipe \<times> int) option" where
  "pipe_Send t now pack p = do {
     (p1, ret) \<leftarrow> pipe_send_add t now pack p;
     p2 \<leftarrow> exec_event p1 SendBroadcast;
     Some (p2, ret) }"

inductive pipe_reach :: "nat \<Rightarrow> 'd Pipe \<Rightarrow> bool" for n where
  start: "NewPipe m = Some p \<Longrightarrow> pipe_reach n (pipe_Start p n)"
| step: "pipe_reach n p \<Longrightarrow> enabled p e \<Longrightarrow> exec_event p e = Some p' \<Longrightarrow> pipe_reach n p'"

subsection \<open>The invariant\<close>

fun carried :: "worker_pc \<Rightarrow> addr list" where
  "carried (Got a) = [a]"
| "carried (Sending a) = [a]"
| "carried _ = []"

fun in_critical :: "worker_pc \<Rightarrow> bool" where
  "in_critical Locked = True"
| "in_critical GotNil = True"
| "in_critical Relocked = True"
| "in_critical (Got a) = True"
| "in_critical _ = False"

definition in_flight :: "'d Pipe \<Rightarrow> addr multiset" where
  "in_flight p = (\<Sum>pc \<in># mset (pi_workers p). mset (carried pc))"

definition lock_ok :: "'d Pipe \<Rightarrow> bool" where
  "lock_ok p \<longleftrightarrow> (\<forall>i < length (pi_workers p). in_critical (pi_workers p ! i) \<longleftrightarrow> pi_lock p = Some i) \<and>
     (\<forall>i. pi_lock p = Some i \<longrightarrow> i < length (pi_workers p))"

text \<open>Every package handed to \<open>Send\<close> is in exactly one place.\<close>

definition accounted :: "'d Pipe \<Rightarrow> bool" where
  "accounted p \<longleftrightarrow> finite (pi_dropped p) \<and>
     mset_set (pending (pi_storage p)) + in_flight p + mset (pi_sent p) + mset_set (pi_dropped p)
       = mset_set {..<pi_next p}"

definition pipe_inv :: "nat \<Rightarrow> 'd Pipe \<Rightarrow> bool" where
  "pipe_inv n p \<longleftrightarrow> store_inv (pi_storage p) \<and> lock_ok p \<and> accounted p \<and> length (pi_workers p) = n"

subsection \<open>Accounting\<close>

lemma mset_set_once:
  assumes "M + N = mset_set S" "x \<in># M"
  shows "x \<notin># N" "x \<in> S"
proof -
  have "count (mset_set S) x \<le> 1" by (simp add: count_mset_set')
  then have "count M x + count N x \<le> 1" by (simp add: assms(1) [symmetric])
  moreover have "count M x > 0" using assms(2) by (simp only: count_greater_zero_iff)
  ultimately have "count N x = 0" by linarith
  then show "x \<notin># N" by (simp only: not_in_iff)
  show "x \<in> S" by (metis assms elem_mset_set infinite_set_mset_mset_set union_iff empty_iff)
qed

lemma accounted_parts:
  assumes "accounted p"
  shows "x \<in># in_flight p \<Longrightarrow> x \<notin> pending (pi_storage p) \<and> x \<notin> pi_dropped p \<and> x < pi_next p"
    and "x \<in> pending (pi_storage p) \<Longrightarrow> x \<notin> pi_dropped p \<and> x < pi_next p"
    and "x \<in> pi_dropped p \<Longrightarrow> x < pi_next p"
proof -
  let ?P = "mset_set (pending (pi_storage p))" and ?D = "mset_set (pi_dropped p)"
    and ?S = "mset (pi_sent p)" and ?F = "in_flight p"
  have fin: "finite (pi_dropped p)" and eq: "?P + ?F + ?S + ?D = mset_set {..<pi_next p}"
    using assms by (auto simp: accounted_def)
  have "?F + (?P + ?S + ?D) = mset_set {..<pi_next p}" using eq by (simp add: ac_simps)
  from mset_set_once [OF this, of x] fin
  show "x \<in># ?F \<Longrightarrow> x \<notin> pending (pi_storage p) \<and> x \<notin> pi_dropped p \<and> x < pi_next p" by auto
  have "?P + (?F + ?S + ?D) = mset_set {..<pi_next p}" using eq by (simp add: ac_simps)
  from mset_set_once [OF this, of x] fin
  show "x \<in> pending (pi_storage p) \<Longrightarrow> x \<notin> pi_dropped p \<and> x < pi_next p" by auto
  have "?D + (?P + ?F + ?S) = mset_set {..<pi_next p}" using eq by (simp add: ac_simps)
  from mset_set_once [OF this, of x] fin
  show "x \<in> pi_dropped p \<Longrightarrow> x < pi_next p" by auto
qed

lemma in_flight_set_worker:
  assumes "at_pc p i pc"
  shows "in_flight (set_worker p i pc') + mset (carried pc) = in_flight p + mset (carried pc')"
proof -
  have "pc \<in># mset (pi_workers p)" using assms by (auto simp: at_pc_def)
  then have "in_flight p = mset (carried pc) + (\<Sum>x \<in># mset (pi_workers p) - {#pc#}. mset (carried x))"
    unfolding in_flight_def by (metis insert_DiffM sum_mset.insert)
  then show ?thesis using assms by (auto simp: in_flight_def at_pc_def mset_update)
qed

lemma in_flight_wake_all: "(\<Sum>pc \<in># mset (wake_all ws). mset (carried pc)) = (\<Sum>pc \<in># mset ws. mset (carried pc))"
  by (induction ws) (auto simp: wake_all_def)

lemma in_flight_simps [simp]:
  "in_flight (p\<lparr>pi_storage := s\<rparr>) = in_flight p" "in_flight (p\<lparr>pi_lock := l\<rparr>) = in_flight p"
  "in_flight (p\<lparr>pi_next := k\<rparr>) = in_flight p" "in_flight (p\<lparr>pi_casts := c\<rparr>) = in_flight p"
  "in_flight (p\<lparr>pi_sent := z\<rparr>) = in_flight p" "in_flight (p\<lparr>pi_dropped := d\<rparr>) = in_flight p"
  by (simp_all add: in_flight_def)

lemma mset_set_disjoint_Un:
  "finite A \<Longrightarrow> finite B \<Longrightarrow> A \<inter> B = {} \<Longrightarrow> mset_set A + mset_set B = mset_set (A \<union> B)"
  by (simp add: mset_set_Union)

text \<open>An \<open>Add\<close> of a package that is neither queued nor dropped moves it, and what it expires.\<close>

lemma pipe_add_correct:
  assumes "store_inv (pi_storage p)" "finite (pi_dropped p)" "a \<notin> pending (pi_storage p)"
    "a \<notin> pi_dropped p" "pending (pi_storage p) \<inter> pi_dropped p = {}"
  shows "\<exists>s' d n. pipe_add t0 now p a = Some (p\<lparr>pi_storage := s', pi_dropped := d\<rparr>, n) \<and> store_inv s' \<and>
    finite d \<and> mset_set (pending s') + mset_set d =
      add_mset a (mset_set (pending (pi_storage p)) + mset_set (pi_dropped p))"
proof -
  let ?P = "pending (pi_storage p)"
  obtain s' n where s': "store_Add t0 now (pi_storage p) (Some a) = Some (s', n)" "store_inv s'"
      "spec_Add t0 now a (view (pi_storage p)) = (view s', n)"
    using store_Add_view [OF assms(1,3)] by blast
  have sub: "pending s' \<subseteq> insert a ?P"
    using spec_Add_pend [OF s'(3)] assms(1) s'(2) by simp
  let ?d = "pi_dropped p \<union> (insert a ?P - pending s')"
  have "mset_set (pending s') + mset_set ?d = mset_set (pending s' \<union> ?d)"
    using assms(2,4,5) sub by (intro mset_set_disjoint_Un) auto
  also have "pending s' \<union> ?d = insert a (?P \<union> pi_dropped p)" using sub by auto
  also have "mset_set \<dots> = add_mset a (mset_set ?P + mset_set (pi_dropped p))"
    using assms by (simp add: mset_set_disjoint_Un)
  finally show ?thesis using s' assms(2) by (auto simp: pipe_add_def)
qed

subsection \<open>The invariant is kept\<close>

lemma lock_ok_acquire:
  assumes "lock_ok p" "pi_lock p = None" "at_pc p i pc" "in_critical pc'"
  shows "lock_ok ((set_worker p i pc')\<lparr>pi_lock := Some i\<rparr>)"
  using assms by (auto simp: lock_ok_def at_pc_def nth_list_update)

lemma lock_ok_release:
  assumes "lock_ok p" "at_pc p i pc" "in_critical pc" "\<not> in_critical pc'"
  shows "lock_ok ((set_worker p i pc')\<lparr>pi_lock := None\<rparr>)"
  using assms by (fastforce simp: lock_ok_def at_pc_def nth_list_update)

lemma lock_ok_keep:
  assumes "lock_ok p" "at_pc p i pc" "in_critical pc = in_critical pc'"
  shows "lock_ok (set_worker p i pc')"
  using assms by (fastforce simp: lock_ok_def at_pc_def nth_list_update)

lemma lock_ok_simps [simp]:
  "lock_ok (p\<lparr>pi_storage := s\<rparr>) = lock_ok p" "lock_ok (p\<lparr>pi_next := k\<rparr>) = lock_ok p"
  "lock_ok (p\<lparr>pi_casts := c\<rparr>) = lock_ok p" "lock_ok (p\<lparr>pi_sent := z\<rparr>) = lock_ok p"
  "lock_ok (p\<lparr>pi_dropped := d\<rparr>) = lock_ok p"
  by (simp_all add: lock_ok_def)

lemma accounted_lock [simp]: "accounted (p\<lparr>pi_lock := l\<rparr>) = accounted p"
  by (simp add: accounted_def)

text \<open>A step of one worker that changes nothing but its program counter and the lock.\<close>

lemma accounted_keep:
  assumes "accounted p" "at_pc p i pc" "carried pc' = carried pc"
  shows "accounted (set_worker p i pc')"
  using assms in_flight_set_worker [OF assms(2), of pc'] by (simp add: accounted_def)

lemma in_flight_sending: "at_pc p i pc \<Longrightarrow> a \<in> set (carried pc) \<Longrightarrow> a \<in># in_flight p"
  by (fastforce simp: in_flight_def at_pc_def)

lemma in_critical_woken [simp]: "in_critical (if pc = Waiting then Woken else pc) = in_critical pc"
  by simp

lemma pipe_inv_start: "NewPipe m = Some p \<Longrightarrow> pipe_inv n (pipe_Start p n)"
  by (auto simp: NewPipe_def NewDefaultPipeStore_empty pipe_inv_def pipe_Start_def lock_ok_def accounted_def
      in_flight_def)

lemma SendAdd_inv:
  assumes "pipe_inv n p"
  shows "\<exists>p' ret. pipe_send_add t now pack p = Some (p', ret) \<and> pipe_inv n p'"
proof -
  let ?a = "pi_next p" and ?s = "pi_storage p"
  let ?s1 = "?s\<lparr>st_mem := (st_mem ?s)(?a := pack\<lparr>pk_time := t\<rparr>)\<rparr>"
  let ?p1 = "p\<lparr>pi_storage := ?s1, pi_next := Suc ?a\<rparr>"
  have acc: "accounted p" "store_inv ?s" using assms by (auto simp: pipe_inv_def)
  have fresh: "?a \<notin> pending ?s" "?a \<notin> pi_dropped p" "pending ?s \<inter> pi_dropped p = {}"
    using accounted_parts(2,3) [OF acc(1)] by blast+
  have "store_inv ?s1" using store_inv_outside acc(2) fresh(1) by blast
  then obtain s' d ret where r: "pipe_add t now ?p1 ?a = Some (?p1\<lparr>pi_storage := s', pi_dropped := d\<rparr>, ret)"
    "store_inv s'" "finite d"
    "mset_set (pending s') + mset_set d = add_mset ?a (mset_set (pending ?s1) + mset_set (pi_dropped p))"
    using pipe_add_correct [of ?p1 ?a t now] acc(1) fresh by (auto simp: accounted_def)
  have "mset_set (pending s') + in_flight p + mset (pi_sent p) + mset_set d
      = (mset_set (pending s') + mset_set d) + in_flight p + mset (pi_sent p)" by (simp add: ac_simps)
  also have "\<dots> = add_mset ?a (mset_set {..<?a})" using acc(1) r(4) by (simp add: accounted_def ac_simps)
  finally have "accounted (?p1\<lparr>pi_storage := s', pi_dropped := d\<rparr>)"
    using r(3) by (simp add: accounted_def lessThan_Suc)
  then have "pipe_inv n (?p1\<lparr>pi_storage := s', pi_dropped := d, pi_casts := Suc (pi_casts p)\<rparr>)"
    using assms r(2) by (auto simp: pipe_inv_def accounted_def lock_ok_def in_flight_def)
  then show ?thesis
    unfolding pipe_send_add_def Let_def r(1) by simp
qed

lemma SendErr_inv:
  assumes "pipe_inv n p" "at_pc p i (Sending a)"
  shows "\<exists>p' ret. pipe_add t0 now (set_worker p i AtLock) a = Some (p', ret) \<and> pipe_inv n p'"
proof -
  let ?s = "pi_storage p" and ?q = "set_worker p i AtLock"
  have acc: "accounted p" "store_inv ?s" "lock_ok p" using assms(1) by (auto simp: pipe_inv_def)
  have gone: "a \<notin> pending ?s" "a \<notin> pi_dropped p" "pending ?s \<inter> pi_dropped p = {}"
    using accounted_parts(1,2) [OF acc(1)] in_flight_sending [OF assms(2)] by auto
  have fl: "add_mset a (in_flight ?q) = in_flight p" using in_flight_set_worker [OF assms(2), of AtLock] by simp
  obtain s' d ret where r: "pipe_add t0 now ?q a = Some (?q\<lparr>pi_storage := s', pi_dropped := d\<rparr>, ret)"
    "store_inv s'" "finite d"
    "mset_set (pending s') + mset_set d = add_mset a (mset_set (pending ?s) + mset_set (pi_dropped p))"
    using pipe_add_correct [of ?q a t0 now] acc gone by (auto simp: accounted_def)
  have "mset_set (pending s') + in_flight ?q + mset (pi_sent p) + mset_set d
      = (mset_set (pending s') + mset_set d) + in_flight ?q + mset (pi_sent p)" by (simp add: ac_simps)
  also have "\<dots> = mset_set (pending ?s) + add_mset a (in_flight ?q) + mset (pi_sent p) + mset_set (pi_dropped p)"
    using r(4) by (simp add: ac_simps)
  also have "\<dots> = mset_set {..<pi_next p}" unfolding fl using acc(1) by (simp add: accounted_def)
  finally have "accounted (?q\<lparr>pi_storage := s', pi_dropped := d\<rparr>)"
    using r(3) by (simp add: accounted_def)
  then show ?thesis
    using assms r lock_ok_keep [OF acc(3) assms(2), of AtLock] by (simp add: pipe_inv_def accounted_def)
qed

lemma Pop_inv:
  assumes "pipe_inv n p" "at_pc p i Locked"
  shows "\<exists>p'. exec_event p (Pop i now) = Some p' \<and> pipe_inv n p'"
proof -
  let ?s = "pi_storage p"
  have acc: "accounted p" "store_inv ?s" "lock_ok p" using assms(1) by (auto simp: pipe_inv_def)
  obtain s' r where r: "store_Pop now ?s = Some (s', r)" using ps.Pop_total [OF acc(2)] by blast
  show ?thesis
  proof (cases r)
    case None
    note pop = ps.Pop_None_pend [OF acc(2) r [unfolded None]]
    have "pending s' = {}" "pending ?s = {}" using pop acc(2) by (metis pend_view)+
    then show ?thesis
      using assms r None pop(3) lock_ok_keep [OF acc(3) assms(2), of GotNil] accounted_keep [OF acc(1) assms(2), of GotNil]
      by (simp add: pipe_inv_def accounted_def)
  next
    case (Some a)
    note pop = ps.Pop_pend [OF acc(2) r [unfolded Some]]
    have a: "a \<in> pending ?s" "pending s' = pending ?s - {a}" using pop acc(2) by (metis pend_view)+
    have "mset_set (pending ?s) = add_mset a (mset_set (pending s'))"
      using a by (metis finite_Diff finite_set insert_Diff mset_set.insert_remove Diff_idemp)
    then have "accounted ((set_worker p i (Got a))\<lparr>pi_storage := s'\<rparr>)"
      using acc(1) in_flight_set_worker [OF assms(2), of "Got a"] by (simp add: accounted_def)
    then show ?thesis
      using assms r Some pop(3) lock_ok_keep [OF acc(3) assms(2), of "Got a"] by (simp add: pipe_inv_def)
  qed
qed

lemma Broadcast_inv:
  assumes "pipe_inv n p"
  shows "pipe_inv n (p\<lparr>pi_workers := wake_all (pi_workers p), pi_casts := c\<rparr>)"
  using assms by (auto simp: pipe_inv_def lock_ok_def accounted_def in_flight_def in_flight_wake_all)
    (auto simp: wake_all_def split: if_splits)

lemma Sent_inv:
  assumes "pipe_inv n p" "at_pc p i (Sending a)"
  shows "pipe_inv n ((set_worker p i AtLock)\<lparr>pi_sent := pi_sent p @ [a]\<rparr>)"
proof -
  have "in_flight p = add_mset a (in_flight (set_worker p i AtLock))"
    using in_flight_set_worker [OF assms(2), of AtLock] by simp
  then show ?thesis
    using assms lock_ok_keep [OF _ assms(2), of AtLock] by (simp add: pipe_inv_def accounted_def)
qed

lemma exec_event_inv:
  assumes inv: "pipe_inv n p" and en: "enabled p e"
  shows "\<exists>p'. exec_event p e = Some p' \<and> pipe_inv n p'"
proof (cases e)
  case (SendAdd t now pack)
  then show ?thesis using SendAdd_inv [OF inv, of t now pack] by auto
next
  case SendBroadcast
  then show ?thesis using Broadcast_inv [OF inv] by simp
next
  case (Lock i)
  then show ?thesis
    using inv en by (auto simp: pipe_inv_def intro: lock_ok_acquire accounted_keep)
next
  case (Pop i now)
  then show ?thesis using Pop_inv [OF inv] en by simp
next
  case (Wait i)
  then show ?thesis
    using inv en by (auto simp: pipe_inv_def intro: lock_ok_release accounted_keep)
next
  case (Unlock i)
  then show ?thesis
    using inv en by (auto simp: pipe_inv_def at_pc_def intro: lock_ok_release accounted_keep)
next
  case (SendOk i)
  then show ?thesis using Sent_inv [OF inv] en by (auto simp: at_pc_def)
next
  case (SendErr i t0 now)
  then obtain a where a: "at_pc p i (Sending a)" using en by auto
  then show ?thesis using SendErr_inv [OF inv a, of t0 now] SendErr by (auto simp: at_pc_def)
qed

lemma pipe_Send_total:
  assumes "pipe_inv n p"
  shows "\<exists>p' ret. pipe_Send t now pack p = Some (p', ret) \<and> pipe_inv n p'"
proof -
  obtain p1 ret where p1: "pipe_send_add t now pack p = Some (p1, ret)" "pipe_inv n p1" using SendAdd_inv [OF assms] by blast
  then show ?thesis using Broadcast_inv [OF p1(2)] by (simp add: pipe_Send_def)
qed

lemma pipe_reach_inv: "pipe_reach n p \<Longrightarrow> pipe_inv n p"
proof (induction rule: pipe_reach.induct)
  case (start m p)
  then show ?case by (rule pipe_inv_start)
next
  case (step p e p')
  then show ?case using exec_event_inv by fastforce
qed

subsection \<open>A run in which the workers sleep with a package pending\<close>

text \<open>\<open>k\<close> of the \<open>n\<close> workers have found the store empty and wait.\<close>

definition sleepers :: "'d mem \<Rightarrow> nat \<Rightarrow> nat \<Rightarrow> 'd Pipe" where
  "sleepers m n k = \<lparr>pi_storage = empty_store m, pi_lock = None,
     pi_workers = replicate k Waiting @ replicate (n - k) AtLock, pi_casts = 0, pi_next = 0,
     pi_sent = [], pi_dropped = {}\<rparr>"

definition sleepers_nil :: "'d mem \<Rightarrow> nat \<Rightarrow> nat \<Rightarrow> 'd Pipe" where
  "sleepers_nil m n k = (set_worker (sleepers m n k) k GotNil)\<lparr>pi_lock := Some k\<rparr>"

lemma Pop_of_empty: "store_Pop now (empty_store m) = Some (empty_store m, None)"
  by (simp add: store_Pop_def store_peek_def pq_Len_def pqueue_def)

lemma sleepers_start: "pipe_reach n (sleepers m n 0)"
proof -
  obtain p :: "'a Pipe" where "NewPipe m = Some p" "pipe_Start p n = sleepers m n 0"
    by (simp add: NewPipe_def NewDefaultPipeStore_empty pipe_Start_def sleepers_def)
  then show ?thesis using pipe_reach.start by metis
qed

lemma sleepers_to_nil:
  assumes "pipe_reach n (sleepers m n k)" "k < n"
  shows "pipe_reach n (sleepers_nil m n k)"
proof -
  let ?p1 = "(set_worker (sleepers m n k) k Locked)\<lparr>pi_lock := Some k\<rparr>"
  have at: "at_pc (sleepers m n k) k AtLock" using assms(2) by (simp add: at_pc_def sleepers_def nth_append)
  then have "pipe_reach n ?p1"
    using pipe_reach.step [OF assms(1), of "Lock k"] by (simp add: sleepers_def at_pc_def)
  moreover have "exec_event ?p1 (Pop k 0) = Some (sleepers_nil m n k)"
    by (simp add: sleepers_nil_def sleepers_def Pop_of_empty)
  moreover have "enabled ?p1 (Pop k 0)" using assms(2) by (simp add: at_pc_def sleepers_def)
  ultimately show ?thesis using pipe_reach.step by blast
qed

lemma sleepers_reach: "k \<le> n \<Longrightarrow> pipe_reach n (sleepers m n k)"
proof (induction k)
  case 0
  show ?case by (rule sleepers_start)
next
  case (Suc k)
  then have r: "pipe_reach n (sleepers_nil m n k)" and k: "k < n" by (auto intro: sleepers_to_nil)
  have "exec_event (sleepers_nil m n k) (Wait k) = Some (sleepers m n (Suc k))"
    using k Suc_diff_Suc [OF k, symmetric]
    by (simp add: sleepers_nil_def sleepers_def list_update_append replicate_app_Cons_same)
  moreover have "enabled (sleepers_nil m n k) (Wait k)"
    using k by (simp add: at_pc_def sleepers_def sleepers_nil_def)
  ultimately show ?case using pipe_reach.step [OF r] by blast
qed

lemma Add_keeps_unexpiring:
  assumes "store_inv s" "a \<notin> pending s" "kind_list s (pk_Kind (st_mem s a)) = []"
    "pk_ExpiryTime (st_mem s a) = None" "pk_ExpiryCount (st_mem s a) \<le> 0"
  shows "\<exists>s' n. store_Add t0 now s (Some a) = Some (s', n) \<and> a \<in> pending s' \<and> pk_Data (st_mem s' a) = pk_Data (st_mem s a) \<and>
    pk_ExpiryTime (st_mem s' a) = None"
proof -
  obtain s' n where s': "store_Add t0 now s (Some a) = Some (s', n)" "store_inv s'"
    "spec_Add t0 now a (view s) = (view s', n)" using store_Add_view [OF assms(1,2)] by blast
  have c: "contents s' = (contents s)(a := stamp t0 (contents s a))"
    using spec_Add_kinds(2) [OF s'(3)] by simp
  have "\<not> expired_in now (contents s') a m" for m
    using assms(4,5) by (simp add: c pack_expired_def time_expired_def stamp_def)
  then have "kind_list s' (pk_Kind (st_mem s a)) = [a]"
    using spec_Add_kinds(1) [OF s'(3)] assms(3) by simp
  then have "a \<in> pending s'" using s' store_inv_kind_list(1) [OF s'(2), of "pk_Kind (st_mem s a)"] by auto
  moreover have "pk_Data (contents s' a) = pk_Data (st_mem s a)" "pk_ExpiryTime (contents s' a) = None"
    using assms(4) by (simp_all only: c) (simp_all add: stamp_def)
  ultimately show ?thesis using s'(1) by auto
qed

text \<open>A package that does not expire stays in a store that was empty.\<close>

lemma SendAdd_to_empty:
  fixes p :: "'d Pipe"
  assumes "pi_storage p = empty_store m" "pi_next p = 0" "pk_ExpiryTime pack = None" "pk_ExpiryCount pack \<le> 0"
  shows "\<exists>p1. exec_event p (SendAdd 1 1 pack) = Some p1 \<and> pi_workers p1 = pi_workers p \<and> pi_casts p1 = Suc (pi_casts p) \<and>
    0 \<in> pending (pi_storage p1) \<and> pk_Data (st_mem (pi_storage p1) 0) = pk_Data pack \<and>
    pk_ExpiryTime (st_mem (pi_storage p1) 0) = None \<and> pi_next p1 = 1"
proof -
  let ?s1 = "empty_store (m(0 := pack\<lparr>pk_time := 1\<rparr>))"
  obtain s' k where s': "store_Add 1 1 ?s1 (Some 0) = Some (s', k)" "0 \<in> pending s'"
    "pk_Data (st_mem s' 0) = pk_Data pack" "pk_ExpiryTime (st_mem s' 0) = None"
    using Add_keeps_unexpiring [of ?s1 0 1 1] assms(3,4) by (auto simp: slice_at_def)
  have "(empty_store m)\<lparr>st_mem := m(0 := pack\<lparr>pk_time := 1\<rparr>)\<rparr> = ?s1" by (simp add: empty_store_def)
  with s'(1) have "store_Add 1 1 ((empty_store m)\<lparr>st_mem := m(0 := pack\<lparr>pk_time := 1\<rparr>)\<rparr>) (Some 0) = Some (s', k)"
    by (simp only:)
  then show ?thesis using assms(1,2) s'(2-4) by (simp add: pipe_send_add_def pipe_add_def Let_def)
qed

text \<open>The only worker found nothing; a package is added and announced; then the worker sleeps.\<close>

lemma lost_wakeup_run:
  fixes pack :: "'d Package" and m :: "'d mem"
  assumes "pk_ExpiryTime pack = None" "pk_ExpiryCount pack \<le> 0"
  shows "\<exists>p :: 'd Pipe. pipe_reach 1 p \<and>
    (\<exists>a \<in> pending (pi_storage p). pk_Data (st_mem (pi_storage p) a) = pk_Data pack) \<and>
    pi_casts p = 0 \<and> pi_workers p = [Waiting]"
proof -
  let ?p0 = "sleepers_nil m 1 0"
  have r0: "pipe_reach 1 ?p0" by (rule sleepers_to_nil [OF sleepers_start]) simp
  have w0: "pi_workers ?p0 = [GotNil]" "pi_casts ?p0 = 0" "pi_next ?p0 = 0" "pi_storage ?p0 = empty_store m"
    by (simp_all add: sleepers_nil_def sleepers_def)
  obtain p1 where p1: "exec_event ?p0 (SendAdd 1 1 pack) = Some p1" "pi_workers p1 = [GotNil]" "pi_casts p1 = 1"
    and a: "0 \<in> pending (pi_storage p1)" "pk_Data (st_mem (pi_storage p1) 0) = pk_Data pack"
    using SendAdd_to_empty [OF w0(4,3) assms] w0 by auto
  have r1: "pipe_reach 1 p1" using pipe_reach.step [OF r0 _ p1(1)] by simp
  let ?p2 = "p1\<lparr>pi_workers := wake_all (pi_workers p1), pi_casts := 0\<rparr>"
  have r2: "pipe_reach 1 ?p2" using pipe_reach.step [OF r1, of SendBroadcast] p1(3) by simp
  have "at_pc ?p2 0 GotNil" using p1(2) by (simp add: at_pc_def wake_all_def)
  then have "pipe_reach 1 ((set_worker ?p2 0 Waiting)\<lparr>pi_lock := None\<rparr>)"
    using pipe_reach.step [OF r2, of "Wait 0"] by simp
  then show ?thesis using p1(2) a by (fastforce simp: wake_all_def)
qed

subsection \<open>Two workers or more do not miss a package\<close>

definition awake :: "'d Pipe \<Rightarrow> bool" where
  "awake p \<longleftrightarrow> (pending (pi_storage p) \<noteq> {} \<longrightarrow> pi_casts p = 0 \<longrightarrow>
     (\<exists>j < length (pi_workers p). pi_workers p ! j \<notin> {Waiting, GotNil}))"

lemma awake_set_worker:
  assumes "awake p" "i < length (pi_workers p)" "pc \<notin> {Waiting, GotNil} \<or> pi_workers p ! i \<in> {Waiting, GotNil}"
  shows "awake (set_worker p i pc)"
proof -
  have "\<exists>j < length (pi_workers p). (pi_workers p)[i := pc] ! j \<notin> {Waiting, GotNil}"
    if "j < length (pi_workers p)" "pi_workers p ! j \<notin> {Waiting, GotNil}" for j
    using that assms(2,3) by (cases "i = j") (metis nth_list_update)+
  then show ?thesis using assms(1) by (fastforce simp: awake_def)
qed

lemma awake_worker_ready:
  "i < length (pi_workers p) \<Longrightarrow> pi_workers p ! i \<notin> {Waiting, GotNil} \<Longrightarrow> awake p"
  by (auto simp: awake_def)

lemma awake_broadcast:
  assumes "pipe_inv n p" "2 \<le> n"
  shows "awake (p\<lparr>pi_workers := wake_all (pi_workers p), pi_casts := c\<rparr>)"
proof -
  have len: "length (pi_workers p) = n" and l: "lock_ok p" using assms(1) by (auto simp: pipe_inv_def)
  have "\<not> (pi_workers p ! 0 = GotNil \<and> pi_workers p ! 1 = GotNil)"
  proof
    assume "pi_workers p ! 0 = GotNil \<and> pi_workers p ! 1 = GotNil"
    moreover have "0 < length (pi_workers p)" "1 < length (pi_workers p)" using len assms(2) by auto
    ultimately have "pi_lock p = Some 0" "pi_lock p = Some 1" using l by (force simp: lock_ok_def)+
    then show False by simp
  qed
  moreover have "0 < n" "1 < n" using assms(2) by auto
  ultimately obtain j where "j < n" "pi_workers p ! j \<noteq> GotNil" by blast
  then show ?thesis using len by (intro awake_worker_ready [of j]) (auto simp: wake_all_def)
qed

lemma awake_step:
  assumes "pipe_inv n p" "2 \<le> n" "awake p" "enabled p e" "exec_event p e = Some p'"
  shows "awake p'"
proof (cases e)
  case (SendAdd t now pack)
  then have "0 < pi_casts p'" using assms(5) by (auto simp: pipe_send_add_def Let_def)
  then show ?thesis by (simp add: awake_def)
next
  case SendBroadcast
  then show ?thesis using awake_broadcast [OF assms(1,2)] assms(5) by auto
next
  case (Lock i)
  then have "p' = (set_worker p i (if at_pc p i AtLock then Locked else Relocked))\<lparr>pi_lock := Some i\<rparr>"
    using assms(5) by simp
  then show ?thesis using Lock assms(4) by (intro awake_worker_ready [of i]) (auto simp: at_pc_def)
next
  case (Pop i now)
  then obtain s' r where r: "store_Pop now (pi_storage p) = Some (s', r)"
    and p': "p' = (set_worker p i (case r of None \<Rightarrow> GotNil | Some a \<Rightarrow> Got a))\<lparr>pi_storage := s'\<rparr>"
    using assms(5) by (auto split: Option.bind_splits)
  show ?thesis
  proof (cases r)
    case None
    have inv: "store_inv (pi_storage p)" using assms(1) by (simp add: pipe_inv_def)
    have "pending s' = {}" using ps.Pop_None_pend [OF inv r [unfolded None]] by (metis pend_view)
    then show ?thesis by (simp add: p' awake_def)
  next
    case (Some a)
    then show ?thesis using Pop assms(4) by (intro awake_worker_ready [of i]) (auto simp: p' at_pc_def)
  qed
next
  case (Wait i)
  then have "awake (set_worker p i Waiting)" using assms(3,4) by (intro awake_set_worker) (auto simp: at_pc_def)
  then show ?thesis using Wait assms(5) by (auto simp: awake_def)
next
  case (Unlock i)
  then have "p' = (set_worker p i (case pi_workers p ! i of Got a \<Rightarrow> Sending a | _ \<Rightarrow> AtLock))\<lparr>pi_lock := None\<rparr>"
    using assms(5) by simp
  then show ?thesis
    using Unlock assms(4) by (intro awake_worker_ready [of i]) (auto simp: at_pc_def split: worker_pc.splits)
next
  case (SendOk i)
  then obtain a where a: "at_pc p i (Sending a)" using assms(4) by auto
  then have "p' = (set_worker p i AtLock)\<lparr>pi_sent := pi_sent p @ [a]\<rparr>" using SendOk assms(5) by (simp add: at_pc_def)
  then show ?thesis using a by (intro awake_worker_ready [of i]) (auto simp: at_pc_def)
next
  case (SendErr i t0 now)
  then obtain a where a: "at_pc p i (Sending a)" using assms(4) by auto
  then obtain ret where "pipe_add t0 now (set_worker p i AtLock) a = Some (p', ret)"
    using SendErr assms(5) by (auto simp: at_pc_def)
  then have "pi_workers p' = (pi_workers p)[i := AtLock]" by (auto simp: pipe_add_def split: Option.bind_splits)
  then show ?thesis using a by (intro awake_worker_ready [of i]) (auto simp: at_pc_def)
qed

lemma awake_reach: "pipe_reach n p \<Longrightarrow> 2 \<le> n \<Longrightarrow> awake p"
proof (induction rule: pipe_reach.induct)
  case (start m p)
  then show ?case by (auto simp: NewPipe_def NewDefaultPipeStore_empty pipe_Start_def awake_def)
next
  case (step p e p')
  then show ?case using awake_step pipe_reach_inv by blast
qed

text \<open>A worker that does not wait can take a step whenever the lock allows.\<close>

lemma worker_enabled:
  assumes "pipe_inv n p" "i < n" "pi_workers p ! i \<noteq> Waiting" "pi_lock p = None \<or> pi_lock p = Some i"
  shows "enabled p (Lock i) \<or> enabled p (Pop i now) \<or> enabled p (Wait i) \<or> enabled p (Unlock i) \<or> enabled p (SendOk i)"
proof -
  have len: "i < length (pi_workers p)" using assms(1,2) by (simp add: pipe_inv_def)
  have crit: "in_critical (pi_workers p ! i) \<longleftrightarrow> pi_lock p = Some i"
    using assms(1) len by (simp add: pipe_inv_def lock_ok_def)
  have bound: "a < pi_next p" if "a \<in> set (carried (pi_workers p ! i))" for a
    using that accounted_parts(1) in_flight_sending [of p i] len assms(1) by (metis at_pc_def pipe_inv_def)
  show ?thesis
    using crit assms(3,4) len bound by (cases "pi_workers p ! i") (auto simp: at_pc_def)
qed

lemma worker_can_step:
  assumes "pipe_inv n p" "\<not> set (pi_workers p) \<subseteq> {Waiting}"
  shows "\<exists>i < n. enabled p (Lock i) \<or> enabled p (Pop i now) \<or> enabled p (Wait i) \<or> enabled p (Unlock i) \<or> enabled p (SendOk i)"
proof (cases "pi_lock p")
  case None
  from assms obtain i where "i < n" "pi_workers p ! i \<noteq> Waiting"
    unfolding pipe_inv_def by (metis in_set_conv_nth singleton_iff subsetI)
  then show ?thesis using worker_enabled [OF assms(1)] None by blast
next
  case (Some i)
  then have "i < n" "in_critical (pi_workers p ! i)" using assms(1) by (auto simp: pipe_inv_def lock_ok_def)
  moreover from this(2) have "pi_workers p ! i \<noteq> Waiting" by auto
  ultimately show ?thesis using worker_enabled [OF assms(1)] Some by blast
qed

subsection \<open>Properties\<close>

text \<open>C5: In every state the pipe can reach, with any number of workers and any interleaving of
  their steps with calls of \<open>Send\<close>, every package given to \<open>Send\<close> is in exactly one place: pending in
  the store, held by one worker, delivered (once), or expired by the store.\<close>

theorem pipe_conservation:
  assumes "pipe_reach n p"
  shows "mset_set (pending (pi_storage p)) + in_flight p + mset (pi_sent p) + mset_set (pi_dropped p)
    = mset_set {..<pi_next p}"
  using pipe_reach_inv [OF assms] by (simp add: pipe_inv_def accounted_def)

theorem pipe_conservation_witness:
  "mset_set (pending (pi_storage (sleepers demo_mem 2 1))) + in_flight (sleepers demo_mem 2 1) +
    mset (pi_sent (sleepers demo_mem 2 1)) + mset_set (pi_dropped (sleepers demo_mem 2 1))
    = mset_set {..<pi_next (sleepers demo_mem 2 1)}"
  by (rule pipe_conservation [of 2]) (rule sleepers_reach, simp)

text \<open>C8: No step of any goroutine of the pipe panics: the store methods always return, and a
  package that failed to be sent is never added while it is still queued. At most one worker is
  between \<open>cond.L.Lock()\<close> and \<open>cond.L.Unlock()\<close>.\<close>

theorem pipe_never_panics:
  assumes "pipe_reach n p" and "enabled p e"
  shows "exec_event p e \<noteq> None \<and>
    card {i. i < length (pi_workers p) \<and> in_critical (pi_workers p ! i)} \<le> 1"
proof -
  have inv: "pipe_inv n p" using pipe_reach_inv [OF assms(1)] .
  then have "{i. i < length (pi_workers p) \<and> in_critical (pi_workers p ! i)} \<subseteq> set_option (pi_lock p)"
    by (auto simp: pipe_inv_def lock_ok_def)
  then have "card {i. i < length (pi_workers p) \<and> in_critical (pi_workers p ! i)} \<le> card (set_option (pi_lock p))"
    by (simp add: card_mono)
  also have "\<dots> \<le> 1" by (cases "pi_lock p") auto
  finally show ?thesis using exec_event_inv [OF inv assms(2)] by auto
qed

theorem pipe_never_panics_witness:
  "exec_event (sleepers demo_mem 2 1) (SendAdd 1 2 (demo_mem 0)) \<noteq> None \<and>
    card {i. i < length (pi_workers (sleepers demo_mem 2 1)) \<and> in_critical (pi_workers (sleepers demo_mem 2 1) ! i)} \<le> 1"
  by (rule pipe_never_panics [of 2]) (rule sleepers_reach, simp_all)

text \<open>The workers never deadlock: in every reachable state some worker can take a step, unless
  all of them wait for a broadcast.\<close>

theorem pipe_progress:
  assumes "pipe_reach n p"
  shows "set (pi_workers p) \<subseteq> {Waiting} \<or>
    (\<exists>i < n. enabled p (Lock i) \<or> enabled p (Pop i now) \<or> enabled p (Wait i) \<or> enabled p (Unlock i) \<or> enabled p (SendOk i))"
  using worker_can_step [OF pipe_reach_inv [OF assms], of now] by blast

theorem pipe_progress_witness:
  "\<exists>i < 2. enabled (sleepers demo_mem 2 1) (Lock i) \<or> enabled (sleepers demo_mem 2 1) (Pop i 0) \<or>
    enabled (sleepers demo_mem 2 1) (Wait i) \<or> enabled (sleepers demo_mem 2 1) (Unlock i) \<or>
    enabled (sleepers demo_mem 2 1) (SendOk i)"
proof -
  have "pipe_reach 2 (sleepers demo_mem 2 1)" by (rule sleepers_reach) simp
  from pipe_progress [OF this, of 0] show ?thesis by (auto simp: sleepers_def)
qed

text \<open>With two workers or more (the client starts ten on its main pipe) no package is stranded:
  when all workers wait and every \<open>Send\<close> has done its broadcast, nothing is pending.\<close>

theorem pipe_no_lost_wakeup:
  assumes "pipe_reach n p" and "2 \<le> n" and "set (pi_workers p) \<subseteq> {Waiting}" and "pi_casts p = 0"
  shows "pending (pi_storage p) = {}"
proof -
  have "\<not> (\<exists>j < length (pi_workers p). pi_workers p ! j \<notin> {Waiting, GotNil})"
    using assms(3) nth_mem by blast
  then show ?thesis using awake_reach [OF assms(1,2)] assms(4) by (auto simp: awake_def)
qed

theorem pipe_no_lost_wakeup_witness: "pending (pi_storage (sleepers demo_mem 10 10)) = {}"
proof (rule pipe_no_lost_wakeup)
  show "pipe_reach 10 (sleepers demo_mem 10 10)" by (rule sleepers_reach) simp
qed (simp_all add: sleepers_def)

text \<open>With a single worker, as the client starts on its status pipe, a package can be stranded:
  \<open>Send\<close> adds and broadcasts without holding \<open>cond.L\<close>, so both can fall between the worker's \<open>Pop\<close>,
  which found nothing, and its \<open>Wait\<close>. The package stays pending while the only worker sleeps and no
  broadcast is due.\<close>

theorem pipe_lost_wakeup:
  fixes pack :: "'d Package"
  assumes "pk_ExpiryTime pack = None" and "pk_ExpiryCount pack \<le> 0"
  shows "\<exists>p :: 'd Pipe. pipe_reach 1 p \<and>
    (\<exists>a \<in> pending (pi_storage p). pk_Data (st_mem (pi_storage p) a) = pk_Data pack) \<and>
    pi_casts p = 0 \<and> pi_workers p = [Waiting]"
  using assms by (rule lost_wakeup_run)

theorem pipe_lost_wakeup_witness:
  "\<exists>p. pipe_reach 1 p \<and>
    (\<exists>a \<in> pending (pi_storage p). pk_Data (st_mem (pi_storage p) a) = pk_Data (demo_mem 0)) \<and>
    pi_casts p = 0 \<and> pi_workers p = [Waiting]"
  by (rule pipe_lost_wakeup) simp_all

end
