(* ===== verification/Kuber_Parents.thy ===== *)
theory Kuber_Parents
  imports Prelude
begin

text \<open>
  \<open>kuber/utils.go\<close>: entity keys, the store of computed parents, and the walk from an object to its
  owners.

  \<open>Identifiable\<close> is an interface of getters; an object is represented by what they return. A
  \<open>ParentController\<close> is written once, before anything else refers to it, so a value stands for the
  pointer, and \<open>nil\<close> is \<open>None\<close>. \<open>getWatcher\<close> and the listers belong to the Kubernetes client
  library: a watcher is the function its lister computes, from namespace and name to an error or an
  object, with \<open>None\<close> for an object that is not an \<open>*unstructured.Unstructured\<close>. The data that the
  code puts into error messages is dropped, the kind of error is kept.
\<close>

subsection \<open>Entity keys\<close>

definition GetEntityKey :: "string \<Rightarrow> string \<Rightarrow> string \<Rightarrow> string" where
  "GetEntityKey namespace kind name = namespace @ '':'' @ kind @ '':'' @ name"

abbreviation colon_free :: "string \<Rightarrow> bool" where
  "colon_free s \<equiv> CHR '':'' \<notin> set s"

lemma split_at_separator:
  assumes "xs @ c # ys = xs' @ c # ys'" "c \<notin> set xs" "c \<notin> set xs'"
  shows "xs = xs' \<and> ys = ys'"
  using assms
proof (induction xs arbitrary: xs')
  case Nil
  then show ?case by (cases xs') auto
next
  case (Cons x xs)
  then show ?case by (cases xs') auto
qed

lemma GetEntityKey_inj:
  assumes "GetEntityKey ns k n = GetEntityKey ns' k' n'"
    "colon_free ns" "colon_free ns'" "colon_free k" "colon_free k'"
  shows "ns = ns' \<and> k = k' \<and> n = n'"
  using assms split_at_separator [of ns "CHR '':''" "k @ '':'' @ n" ns' "k' @ '':'' @ n'"]
    split_at_separator [of k "CHR '':''" n k' n'] by (simp add: GetEntityKey_def)

subsection \<open>Objects, owners and parents\<close>

record OwnerReference =
  or_Kind :: string
  or_Name :: string
  or_APIVersion :: string
  or_Controller :: "bool option"

record Identifiable =
  id_OwnerReferences :: "OwnerReference list"
  id_Namespace :: string
  id_Kind :: string
  id_Name :: string
  id_APIVersion :: string

datatype ParentController = ParentController
  (pc_Kind: string) (pc_Name: string) (pc_APIVersion: string) (pc_IsWatched: bool)
  (pc_Parent: "ParentController option")

type_synonym ParentsStore = "(string, ParentController option) fmap"
type_synonym Watcher = "string \<Rightarrow> string \<Rightarrow> string + Identifiable option"
type_synonym GetWatcherFromKindFunc = "string \<Rightarrow> Watcher option"

datatype parents_error =
    MultipleOwners | OwnerNotListed string | OwnerNotUnstructured | OwnerParents parents_error

definition NewParentsStore :: ParentsStore where
  "NewParentsStore = fmempty"

definition SetParents ::
  "string \<Rightarrow> string \<Rightarrow> string \<Rightarrow> ParentController option \<Rightarrow> ParentsStore \<Rightarrow> ParentsStore" where
  "SetParents namespace kind name parent s = fmupd (GetEntityKey namespace kind name) parent s"

definition store_GetParents ::
  "string \<Rightarrow> string \<Rightarrow> string \<Rightarrow> ParentsStore \<Rightarrow> ParentController option option" where
  "store_GetParents namespace kind name s = fmlookup s (GetEntityKey namespace kind name)"

definition parents_Delete :: "string \<Rightarrow> string \<Rightarrow> string \<Rightarrow> ParentsStore \<Rightarrow> ParentsStore" where
  "parents_Delete namespace kind name s = fmdrop (GetEntityKey namespace kind name) s"

text \<open>
  \<open>GetParents\<close>. \<open>None\<close> is a call that never returns. The loop over the owners runs at most once, since
  more than one owner is an error; \<open>or_Controller\<close> is \<open>owner.Controller != nil && *owner.Controller\<close>.
\<close>

partial_function (option) GetParents ::
  "GetWatcherFromKindFunc \<Rightarrow> Identifiable \<Rightarrow> ParentsStore \<Rightarrow>
    (ParentsStore \<times> (parents_error + ParentController option)) option" where
  "GetParents getWatcher obj s =
     (case store_GetParents (id_Namespace obj) (id_Kind obj) (id_Name obj) s of
        Some parents \<Rightarrow> Some (s, Inr parents)
      | None \<Rightarrow>
          (let save = (\<lambda>parent s1. Some (SetParents (id_Namespace obj) (id_Kind obj) (id_Name obj) parent s1, Inr parent))
           in case id_OwnerReferences obj of
                [] \<Rightarrow> save None s
              | [owner] \<Rightarrow>
                  if or_Controller owner = Some True then
                    (case getWatcher (or_Kind owner) of
                       None \<Rightarrow> save (Some (ParentController (or_Kind owner) (or_Name owner) (or_APIVersion owner) False None)) s
                     | Some watcher \<Rightarrow>
                         (case watcher (id_Namespace obj) (or_Name owner) of
                            Inl e \<Rightarrow> Some (s, Inl (OwnerNotListed e))
                          | Inr None \<Rightarrow> Some (s, Inl OwnerNotUnstructured)
                          | Inr (Some ownerU) \<Rightarrow>
                              Option.bind (GetParents getWatcher ownerU s) (\<lambda>(s1, r).
                                case r of
                                  Inl e \<Rightarrow> Some (s1, Inl (OwnerParents e))
                                | Inr parentParent \<Rightarrow>
                                    save (Some (ParentController (or_Kind owner) (or_Name owner) (or_APIVersion owner) True parentParent)) s1)))
                  else save None s
              | _ # _ # _ \<Rightarrow> Some (s, Inl MultipleOwners)))"

declare GetParents.simps [code]

fun RootParent_loop :: "ParentController \<Rightarrow> ParentController" where
  "RootParent_loop (ParentController k n a w None) = ParentController k n a w None"
| "RootParent_loop (ParentController k n a w (Some q)) = RootParent_loop q"

definition RootParent :: "ParentController option \<Rightarrow> ParentController option" where
  "RootParent parent = map_option RootParent_loop parent"

subsection \<open>What the walk computes\<close>

text \<open>The owner that \<open>GetParents\<close> follows, and whether and where it is watched.\<close>

definition controller_of :: "Identifiable \<Rightarrow> OwnerReference option" where
  "controller_of obj = (case id_OwnerReferences obj of
     [owner] \<Rightarrow> if or_Controller owner = Some True then Some owner else None | _ \<Rightarrow> None)"

definition owner_obj :: "GetWatcherFromKindFunc \<Rightarrow> Identifiable \<Rightarrow> Identifiable option" where
  "owner_obj getWatcher obj = do {
     owner \<leftarrow> controller_of obj;
     watcher \<leftarrow> getWatcher (or_Kind owner);
     (case watcher (id_Namespace obj) (or_Name owner) of Inr (Some u) \<Rightarrow> Some u | _ \<Rightarrow> None) }"

abbreviation parent_entry :: "OwnerReference \<Rightarrow> bool \<Rightarrow> ParentController option \<Rightarrow> ParentController" where
  "parent_entry owner \<equiv> ParentController (or_Kind owner) (or_Name owner) (or_APIVersion owner)"

text \<open>\<open>ownership gw obj p\<close>: the chain of controllers above \<open>obj\<close> is \<open>p\<close>.\<close>

inductive ownership :: "GetWatcherFromKindFunc \<Rightarrow> Identifiable \<Rightarrow> ParentController option \<Rightarrow> bool" for gw where
  top: "length (id_OwnerReferences obj) \<le> 1 \<Longrightarrow> controller_of obj = None \<Longrightarrow> ownership gw obj None"
| unwatched: "controller_of obj = Some owner \<Longrightarrow> gw (or_Kind owner) = None \<Longrightarrow>
    ownership gw obj (Some (parent_entry owner False None))"
| watched: "controller_of obj = Some owner \<Longrightarrow> owner_obj gw obj = Some u \<Longrightarrow> ownership gw u p \<Longrightarrow>
    ownership gw obj (Some (parent_entry owner True p))"

inductive_cases ownershipE: "ownership gw obj p"

subsection \<open>The cases of the walk\<close>

abbreviation cached :: "ParentsStore \<Rightarrow> Identifiable \<Rightarrow> ParentController option option" where
  "cached s obj \<equiv> store_GetParents (id_Namespace obj) (id_Kind obj) (id_Name obj) s"

abbreviation remember :: "Identifiable \<Rightarrow> ParentController option \<Rightarrow> ParentsStore \<Rightarrow> ParentsStore" where
  "remember obj \<equiv> SetParents (id_Namespace obj) (id_Kind obj) (id_Name obj)"

lemma GetParents_cached: "cached s obj = Some p \<Longrightarrow> GetParents gw obj s = Some (s, Inr p)"
  by (subst GetParents.simps) simp

lemma GetParents_multiple:
  "cached s obj = None \<Longrightarrow> length (id_OwnerReferences obj) > 1 \<Longrightarrow> GetParents gw obj s = Some (s, Inl MultipleOwners)"
  by (subst GetParents.simps) (auto simp: Let_def split: list.splits)

lemma GetParents_top:
  "cached s obj = None \<Longrightarrow> length (id_OwnerReferences obj) \<le> 1 \<Longrightarrow> controller_of obj = None \<Longrightarrow>
    GetParents gw obj s = Some (remember obj None s, Inr None)"
  by (subst GetParents.simps) (auto simp: Let_def controller_of_def split: list.splits if_splits)

lemma GetParents_unwatched:
  "cached s obj = None \<Longrightarrow> controller_of obj = Some owner \<Longrightarrow> gw (or_Kind owner) = None \<Longrightarrow>
    GetParents gw obj s =
      (let p = Some (parent_entry owner False None) in Some (remember obj p s, Inr p))"
  by (subst GetParents.simps) (auto simp: Let_def controller_of_def split: list.splits if_splits)

lemma GetParents_no_owner_obj:
  assumes "cached s obj = None" "controller_of obj = Some owner" "gw (or_Kind owner) = Some w" "owner_obj gw obj = None"
  shows "\<exists>e. GetParents gw obj s = Some (s, Inl e)"
  using assms by (subst GetParents.simps)
    (auto simp: Let_def controller_of_def owner_obj_def split: list.splits if_splits sum.splits option.splits)

lemma GetParents_watched:
  assumes "cached s obj = None" "controller_of obj = Some owner" "owner_obj gw obj = Some u"
  shows "GetParents gw obj s = Option.bind (GetParents gw u s) (\<lambda>(s1, r). case r of
      Inl e \<Rightarrow> Some (s1, Inl (OwnerParents e))
    | Inr pp \<Rightarrow> (let p = Some (parent_entry owner True pp) in Some (remember obj p s1, Inr p)))"
  using assms by (subst GetParents.simps)
    (auto simp: Let_def controller_of_def owner_obj_def split: list.splits if_splits sum.splits option.splits
      Option.bind_splits)

lemma store_laws [simp]:
  "cached (remember obj p s) obj = Some p"
  "store_GetParents ns k n (parents_Delete ns k n s) = None"
  by (simp_all add: store_GetParents_def SetParents_def parents_Delete_def)

subsection \<open>Correctness on a snapshot of the cluster\<close>

text \<open>
  The objects of the cluster: closed under owners, one object per namespace, kind and name, and no
  colon in a namespace or a kind (Kubernetes allows none there).
\<close>

definition cluster :: "GetWatcherFromKindFunc \<Rightarrow> Identifiable set \<Rightarrow> bool" where
  "cluster gw C \<longleftrightarrow>
     (\<forall>obj \<in> C. \<forall>u. owner_obj gw obj = Some u \<longrightarrow> u \<in> C) \<and>
     (\<forall>obj \<in> C. colon_free (id_Namespace obj) \<and> colon_free (id_Kind obj)) \<and>
     (\<forall>obj \<in> C. \<forall>obj' \<in> C. id_Namespace obj = id_Namespace obj' \<longrightarrow> id_Kind obj = id_Kind obj' \<longrightarrow>
        id_Name obj = id_Name obj' \<longrightarrow> obj = obj')"

definition parents_sound :: "GetWatcherFromKindFunc \<Rightarrow> Identifiable set \<Rightarrow> ParentsStore \<Rightarrow> bool" where
  "parents_sound gw C s \<longleftrightarrow> (\<forall>obj \<in> C. \<forall>p. cached s obj = Some p \<longrightarrow> ownership gw obj p)"

lemma cluster_owner: "cluster gw C \<Longrightarrow> obj \<in> C \<Longrightarrow> owner_obj gw obj = Some u \<Longrightarrow> u \<in> C"
  unfolding cluster_def by blast

lemma cached_other:
  assumes "cluster gw C" "obj \<in> C" "obj' \<in> C" "obj' \<noteq> obj"
  shows "cached (remember obj p s) obj' = cached s obj'"
proof -
  have "GetEntityKey (id_Namespace obj) (id_Kind obj) (id_Name obj) \<noteq>
      GetEntityKey (id_Namespace obj') (id_Kind obj') (id_Name obj')"
    using assms GetEntityKey_inj unfolding cluster_def by metis
  then show ?thesis by (simp add: store_GetParents_def SetParents_def)
qed

lemma parents_sound_remember:
  assumes "cluster gw C" "obj \<in> C" "parents_sound gw C s" "ownership gw obj p"
  shows "parents_sound gw C (remember obj p s)"
  using assms cached_other [OF assms(1,2)] unfolding parents_sound_def
  by (metis option.inject store_laws(1))

lemma GetParents_total:
  assumes "cluster gw C" "\<And>x u. x \<in> C \<Longrightarrow> owner_obj gw x = Some u \<Longrightarrow> rank u < (rank x :: nat)"
  shows "obj \<in> C \<Longrightarrow> parents_sound gw C s \<Longrightarrow> \<exists>s' r. GetParents gw obj s = Some (s', r) \<and>
    parents_sound gw C s' \<and> (\<forall>p. r = Inr p \<longrightarrow> ownership gw obj p \<and> cached s' obj = Some p)"
proof (induction "rank obj" arbitrary: obj s rule: less_induct)
  case less
  note save = parents_sound_remember [OF assms(1) less.prems(1)]
  show ?case
  proof (cases "cached s obj")
    case (Some p)
    then show ?thesis using GetParents_cached less.prems by (auto simp: parents_sound_def)
  next
    case None
    show ?thesis
    proof (cases "length (id_OwnerReferences obj) > 1")
      case True
      then show ?thesis using GetParents_multiple [OF None] less.prems(2) by auto
    next
      case few: False
      show ?thesis
      proof (cases "controller_of obj")
        case top: None
        have "ownership gw obj None" using few top by (auto intro: ownership.top)
        then show ?thesis using GetParents_top [OF None _ top] few save less.prems(2) by auto
      next
        case owner: (Some owner)
        show ?thesis
        proof (cases "owner_obj gw obj")
          case no: None
          show ?thesis
          proof (cases "gw (or_Kind owner)")
            case nw: None
            have "ownership gw obj (Some (parent_entry owner False None))" using owner nw by (rule ownership.unwatched)
            then show ?thesis
              using GetParents_unwatched [where gw = gw, OF None owner nw] save less.prems(2) by (auto simp: Let_def)
          next
            case (Some w)
            then show ?thesis using GetParents_no_owner_obj [OF None owner Some no] less.prems(2) by auto
          qed
        next
          case u: (Some u)
          have uC: "u \<in> C" "rank u < rank obj"
            using cluster_owner [OF assms(1) less.prems(1) u] assms(2) [OF less.prems(1) u] .
          obtain s1 r where r: "GetParents gw u s = Some (s1, r)" "parents_sound gw C s1"
            "\<forall>p. r = Inr p \<longrightarrow> ownership gw u p" using less.hyps [OF uC(2,1) less.prems(2)] by auto
          show ?thesis
          proof (cases r)
            case (Inl e)
            then show ?thesis using GetParents_watched [OF None owner u] r(1,2) by simp
          next
            case (Inr pp)
            then have own: "ownership gw obj (Some (parent_entry owner True pp))"
              using r(3) ownership.watched [OF owner u] by blast
            then show ?thesis
              using GetParents_watched [OF None owner u] r(1) Inr save [OF r(2) own] by (simp add: Let_def)
          qed
        qed
      qed
    qed
  qed
qed

text \<open>On a set of objects that own each other, none of them cached, the walk never returns.\<close>

lemma GetParents_cycle:
  assumes cycle: "\<And>x. x \<in> S \<Longrightarrow> cached s x = None \<and> (\<exists>u \<in> S. owner_obj gw x = Some u)"
    and ret: "GetParents gw obj s = Some y"
  shows "obj \<notin> S"
proof -
  have "gw = gw \<longrightarrow> s = s \<longrightarrow> obj \<notin> S"
  proof (rule GetParents.raw_induct [where P = "\<lambda>gw' x s' y. gw' = gw \<longrightarrow> s' = s \<longrightarrow> x \<notin> S", OF _ ret],
      intro impI notI, goal_cases)
    case (1 GP gw' x s' y)
    then obtain u where u: "u \<in> S" "owner_obj gw x = Some u" "cached s x = None" using cycle by blast
    then obtain owner w where "id_OwnerReferences x = [owner]" "or_Controller owner = Some True"
      "gw (or_Kind owner) = Some w" "w (id_Namespace x) (or_Name owner) = Inr (Some u)"
      by (auto simp: owner_obj_def controller_of_def split: list.splits if_splits sum.splits option.splits Option.bind_splits)
    with 1 u show False by (auto simp: Let_def split: Option.bind_splits)
  qed
  then show ?thesis by simp
qed

subsection \<open>Roots\<close>

fun ancestors :: "ParentController \<Rightarrow> ParentController list" where
  "ancestors (ParentController k n a w None) = [ParentController k n a w None]"
| "ancestors (ParentController k n a w (Some q)) = ParentController k n a w (Some q) # ancestors q"

lemma ancestors_not_Nil [simp]: "ancestors p \<noteq> []"
  by (cases p rule: ancestors.cases) auto

lemma RootParent_loop_last: "RootParent_loop p = last (ancestors p)"
  by (induction p rule: RootParent_loop.induct) auto

lemma RootParent_loop_no_parent: "pc_Parent (RootParent_loop p) = None"
  by (induction p rule: RootParent_loop.induct) auto

subsection \<open>A small cluster\<close>

text \<open>A pod whose replica set is watched, the replica set's deployment is not; and a pod that is its
  own controller.\<close>

definition demo_object :: "string \<Rightarrow> string \<Rightarrow> OwnerReference list \<Rightarrow> Identifiable" where
  "demo_object kind name owners = \<lparr>id_OwnerReferences = owners, id_Namespace = ''ns'', id_Kind = kind,
     id_Name = name, id_APIVersion = ''v1''\<rparr>"

definition demo_owner :: "string \<Rightarrow> string \<Rightarrow> OwnerReference" where
  "demo_owner kind name = \<lparr>or_Kind = kind, or_Name = name, or_APIVersion = ''v1'', or_Controller = Some True\<rparr>"

definition demo_rs :: Identifiable where
  "demo_rs = demo_object ''ReplicaSet'' ''rs'' [demo_owner ''Deployment'' ''web'']"

definition demo_pod :: Identifiable where
  "demo_pod = demo_object ''Pod'' ''p'' [demo_owner ''ReplicaSet'' ''rs'']"

definition demo_loop :: Identifiable where
  "demo_loop = demo_object ''Pod'' ''p'' [demo_owner ''Pod'' ''p'']"

definition demo_watcher :: GetWatcherFromKindFunc where
  "demo_watcher kind = (if kind = ''ReplicaSet''
     then Some (\<lambda>ns n. if n = ''rs'' then Inr (Some demo_rs) else Inl ''not found'')
     else if kind = ''Pod'' then Some (\<lambda>ns n. Inr (Some demo_loop)) else None)"

lemmas demo_parents_defs = demo_object_def demo_owner_def demo_rs_def demo_pod_def demo_loop_def demo_watcher_def

lemma demo_owner_obj:
  "owner_obj demo_watcher demo_pod = Some demo_rs" "owner_obj demo_watcher demo_rs = None"
  "owner_obj demo_watcher demo_loop = Some demo_loop"
  by (simp_all add: owner_obj_def controller_of_def demo_parents_defs)

lemma demo_cluster: "cluster demo_watcher {demo_pod, demo_rs}"
  unfolding cluster_def by (auto simp: demo_owner_obj) (simp_all add: demo_parents_defs)

subsection \<open>Properties\<close>

text \<open>Entity keys identify entities: two entities with the same key have the same namespace,
  kind and name, provided that namespaces and kinds contain no colon; names may.\<close>

theorem GetEntityKey_unique:
  assumes "colon_free ns" and "colon_free ns'" and "colon_free k" and "colon_free k'"
  shows "GetEntityKey ns k n = GetEntityKey ns' k' n' \<longleftrightarrow> ns = ns' \<and> k = k' \<and> n = n'"
  using GetEntityKey_inj [OF _ assms] by blast

theorem GetEntityKey_unique_witness:
  "GetEntityKey [] ''ClusterRole'' ''system:node'' = GetEntityKey [] ''ClusterRole'' ''system:node'' \<longleftrightarrow>
    [] = ([] :: string) \<and> ''ClusterRole'' = ''ClusterRole'' \<and> ''system:node'' = ''system:node''"
  by (rule GetEntityKey_unique) simp_all

text \<open>C36: On a cluster without ownership cycles, with a parents store that holds only correct
  entries, \<open>GetParents\<close> returns; if it succeeds, the result is the object's chain of controllers and
  is stored under the object's key; either way the store still holds only correct entries.\<close>

theorem GetParents_correct:
  assumes "cluster gw C" and "obj \<in> C" and "parents_sound gw C s"
    and "\<And>x u. x \<in> C \<Longrightarrow> owner_obj gw x = Some u \<Longrightarrow> rank u < (rank x :: nat)"
  shows "\<exists>s' r. GetParents gw obj s = Some (s', r) \<and> parents_sound gw C s' \<and>
    (\<forall>p. r = Inr p \<longrightarrow> ownership gw obj p \<and> cached s' obj = Some p)"
  by (rule GetParents_total [OF assms(1,4,2,3)])

theorem GetParents_correct_witness:
  "\<exists>s' r. GetParents demo_watcher demo_pod NewParentsStore = Some (s', r) \<and>
    parents_sound demo_watcher {demo_pod, demo_rs} s' \<and>
    (\<forall>p. r = Inr p \<longrightarrow> ownership demo_watcher demo_pod p \<and> cached s' demo_pod = Some p)"
proof (rule GetParents_correct [where rank = "\<lambda>x. if x = demo_pod then 1 else 0"])
  show "parents_sound demo_watcher {demo_pod, demo_rs} NewParentsStore"
    by (simp add: parents_sound_def NewParentsStore_def store_GetParents_def)
  show "(if u = demo_pod then 1 else 0) < (if x = demo_pod then 1 else 0 :: nat)"
    if "x \<in> {demo_pod, demo_rs}" "owner_obj demo_watcher x = Some u" for x u
    using that by (auto simp: demo_owner_obj) (simp add: demo_parents_defs)
qed (simp_all add: demo_cluster)

text \<open>\<open>GetParents\<close> has no guard against ownership cycles: if the objects of a set are each
  controlled by a watched object of the same set and none is in the store, it never returns (the
  recursion exhausts the stack).\<close>

theorem GetParents_diverges_on_cycle:
  assumes "\<And>x. x \<in> S \<Longrightarrow> cached s x = None \<and> (\<exists>u \<in> S. owner_obj gw x = Some u)" and "obj \<in> S"
  shows "GetParents gw obj s = None"
  using GetParents_cycle [of S s gw obj] assms by (cases "GetParents gw obj s") blast+

theorem GetParents_diverges_on_cycle_witness: "GetParents demo_watcher demo_loop NewParentsStore = None"
  by (rule GetParents_diverges_on_cycle [of "{demo_loop}"])
    (simp_all add: demo_owner_obj NewParentsStore_def store_GetParents_def)

end
