(* ===== verification/Governance_Data.thy ===== *)
theory Governance_Data
  imports Prelude
begin

text \<open>
  \<open>agent/governance.go\<close> and the audit packets of \<open>proto/packets.go\<close>: constraints, audit results and
  their wire form. Dynamic JSON values (\<open>map[string]interface{}\<close>) are only passed on by the agent:
  parameters are a type \<open>'par\<close> and the body of an entity a type \<open>'obj\<close>.
\<close>

record Match =
  mt_Namespaces :: "string list"
  mt_Kinds :: "string list"
  mt_Labels :: "(string \<times> string) list list"

text \<open>\<open>agent.Constraint\<close>. A label map is an association list in the order a \<open>range\<close> loop visits it.\<close>

record 'par AgentConstraint =
  ac_Id :: string
  ac_TemplateId :: string
  ac_AccountId :: string
  ac_ClusterId :: string
  ac_Name :: string
  ac_TemplateName :: string
  ac_Parameters :: 'par
  ac_Match :: Match
  ac_Code :: string
  ac_Description :: string
  ac_HowToSolve :: string
  ac_UpdatedAt :: go_time
  ac_CategoryId :: string
  ac_Severity :: string
  ac_Controls :: "string list"
  ac_Standards :: "string list"
  ac_DeletedAt :: "string option"

type_synonym AuditResultStatus = string

definition AuditResultStatusViolating :: AuditResultStatus where
  "AuditResultStatusViolating = ''Violation''"

definition AuditResultStatusCompliant :: AuditResultStatus where
  "AuditResultStatusCompliant = ''Compliance''"

definition AuditResultStatusIgnored :: AuditResultStatus where
  "AuditResultStatusIgnored = ''Ignored''"

lemmas status_defs =
  AuditResultStatusViolating_def AuditResultStatusCompliant_def AuditResultStatusIgnored_def

record 'obj AuditResult =
  ar_Id :: string
  ar_TemplateID :: "string option"
  ar_ConstraintID :: "string option"
  ar_CategoryID :: "string option"
  ar_Severity :: "string option"
  ar_Controls :: "string list"
  ar_Standards :: "string list"
  ar_Description :: string
  ar_HowToSolve :: string
  ar_Status :: AuditResultStatus
  ar_Msg :: "string option"
  ar_EntityName :: "string option"
  ar_EntityKind :: "string option"
  ar_NamespaceName :: "string option"
  ar_ParentName :: "string option"
  ar_ParentKind :: "string option"
  ar_EntitySpec :: 'obj
  ar_Trigger :: string

text \<open>\<open>uuid.NewV4().String()\<close> is the argument \<open>u\<close>.\<close>

definition GenerateID :: "string \<Rightarrow> 'obj AuditResult \<Rightarrow> 'obj AuditResult" where
  "GenerateID u a = a\<lparr>ar_Id := u\<rparr>"

subsection \<open>Packets\<close>

record 'obj PacketAuditResultItem =
  pa_Id :: string
  pa_TemplateID :: "string option"
  pa_ConstraintID :: "string option"
  pa_CategoryID :: "string option"
  pa_Severity :: "string option"
  pa_Controls :: "string list"
  pa_Standards :: "string list"
  pa_Description :: string
  pa_HowToSolve :: string
  pa_Status :: string
  pa_Msg :: "string option"
  pa_EntityName :: "string option"
  pa_EntityKind :: "string option"
  pa_NamespaceName :: "string option"
  pa_ParentName :: "string option"
  pa_ParentKind :: "string option"
  pa_EntitySpec :: 'obj
  pa_Trigger :: string

record 'obj PacketAuditResultRequest =
  pr_Items :: "'obj PacketAuditResultItem list"
  pr_Timestamp :: go_time

record PacketMatch =
  pm_Namespaces :: "string list"
  pm_Kinds :: "string list"
  pm_Labels :: "(string \<times> string) list list"

record 'par PacketConstraintItem =
  pi_Id :: string
  pi_TemplateId :: string
  pi_AccountId :: string
  pi_ClusterId :: string
  pi_Name :: string
  pi_TemplateName :: string
  pi_Parameters :: 'par
  pi_Match :: PacketMatch
  pi_Code :: string
  pi_Description :: string
  pi_HowToSolve :: string
  pi_CategoryId :: string
  pi_Severity :: string
  pi_Controls :: "string list"
  pi_Standards :: "string list"
  pi_UpdatedAt :: go_time
  pi_DeletedAt :: "string option"

text \<open>The status strings of the \<open>proto\<close> package are declared separately from those of \<open>agent\<close>.\<close>

definition proto_StatusViolating :: string where
  "proto_StatusViolating = ''Violation''"

definition proto_StatusCompliant :: string where
  "proto_StatusCompliant = ''Compliance''"

definition proto_StatusIgnored :: string where
  "proto_StatusIgnored = ''Ignored''"

lemmas proto_status_defs = proto_StatusViolating_def proto_StatusCompliant_def proto_StatusIgnored_def

definition packet_status :: "AuditResultStatus \<Rightarrow> string" where
  "packet_status st =
     (if st = AuditResultStatusViolating then proto_StatusViolating
      else if st = AuditResultStatusCompliant then proto_StatusCompliant
      else if st = AuditResultStatusIgnored then proto_StatusIgnored
      else [])"

definition ToPacket :: "'obj AuditResult \<Rightarrow> 'obj PacketAuditResultItem" where
  "ToPacket r = \<lparr>pa_Id = ar_Id r, pa_TemplateID = ar_TemplateID r, pa_ConstraintID = ar_ConstraintID r,
     pa_CategoryID = ar_CategoryID r, pa_Severity = ar_Severity r, pa_Controls = ar_Controls r,
     pa_Standards = ar_Standards r, pa_Description = ar_Description r, pa_HowToSolve = ar_HowToSolve r,
     pa_Status = packet_status (ar_Status r), pa_Msg = ar_Msg r, pa_EntityName = ar_EntityName r,
     pa_EntityKind = ar_EntityKind r, pa_NamespaceName = ar_NamespaceName r, pa_ParentName = ar_ParentName r,
     pa_ParentKind = ar_ParentKind r, pa_EntitySpec = ar_EntitySpec r, pa_Trigger = ar_Trigger r\<rparr>"

text \<open>The body of the loop of the constraints listener, \<open>gateway/governance.go\<close>.\<close>

definition constraint_of_packet :: "'par PacketConstraintItem \<Rightarrow> 'par AgentConstraint" where
  "constraint_of_packet c = \<lparr>ac_Id = pi_Id c, ac_TemplateId = pi_TemplateId c, ac_AccountId = pi_AccountId c,
     ac_ClusterId = pi_ClusterId c, ac_Name = pi_Name c, ac_TemplateName = pi_TemplateName c,
     ac_Parameters = pi_Parameters c,
     ac_Match = \<lparr>mt_Namespaces = pm_Namespaces (pi_Match c), mt_Kinds = pm_Kinds (pi_Match c), mt_Labels = pm_Labels (pi_Match c)\<rparr>,
     ac_Code = pi_Code c, ac_Description = pi_Description c, ac_HowToSolve = pi_HowToSolve c,
     ac_UpdatedAt = pi_UpdatedAt c, ac_CategoryId = pi_CategoryId c, ac_Severity = pi_Severity c,
     ac_Controls = pi_Controls c, ac_Standards = pi_Standards c, ac_DeletedAt = pi_DeletedAt c\<rparr>"

lemma packet_status_id:
  "st \<in> {AuditResultStatusViolating, AuditResultStatusCompliant, AuditResultStatusIgnored, []} \<Longrightarrow> packet_status st = st"
  by (auto simp: packet_status_def status_defs proto_status_defs)

lemma ToPacket_inj:
  assumes "ToPacket r = ToPacket r'" and "packet_status (ar_Status r) = ar_Status r"
    and "packet_status (ar_Status r') = ar_Status r'"
  shows "r = r'"
proof -
  have "ar_Status r = ar_Status r'" using assms by (simp add: ToPacket_def)
  then show ?thesis using assms(1) by (cases r, cases r') (simp add: ToPacket_def)
qed

end
