(* ===== verification/Results_Cache.thy ===== *)
theory Results_Cache
  imports Governance_Data
begin

text \<open>
  \<open>auditor/opa-auditor/audit-results-cache.go\<close>: the last status of each constraint on each resource.

  The inner maps are only reachable through the outer map, so the nested map is a value. The locale
  \<open>results_cache\<close> is what the auditor relies on.
\<close>

type_synonym AuditResultsCache = "(string, (string, AuditResultStatus) fmap) fmap"

definition NewAuditResultsCache :: AuditResultsCache where
  "NewAuditResultsCache = fmempty"

definition cache_Put :: "string \<Rightarrow> string \<Rightarrow> AuditResultStatus \<Rightarrow> AuditResultsCache \<Rightarrow> AuditResultsCache" where
  "cache_Put constraintId resourceId status c =
     (let constraint = (case fmlookup c constraintId of None \<Rightarrow> fmempty | Some m \<Rightarrow> m)
      in fmupd constraintId (fmupd resourceId status constraint) c)"

definition cache_Get :: "string \<Rightarrow> string \<Rightarrow> AuditResultsCache \<Rightarrow> AuditResultStatus option" where
  "cache_Get constraintId resourceId c =
     (case fmlookup c constraintId of None \<Rightarrow> None | Some constraint \<Rightarrow> fmlookup constraint resourceId)"

definition cache_RemoveConstraint :: "string \<Rightarrow> AuditResultsCache \<Rightarrow> AuditResultsCache" where
  "cache_RemoveConstraint constraintId c = fmdrop constraintId c"

definition cache_RemoveResource :: "string \<Rightarrow> AuditResultsCache \<Rightarrow> AuditResultsCache" where
  "cache_RemoveResource resourceId c = fmmap (fmdrop resourceId) c"

text \<open>A batch of puts: the loop of \<open>UpdateCache\<close>.\<close>

definition put_all :: "(string \<Rightarrow> string \<Rightarrow> AuditResultStatus \<Rightarrow> 'c \<Rightarrow> 'c) \<Rightarrow>
    (string \<times> string \<times> AuditResultStatus) list \<Rightarrow> 'c \<Rightarrow> 'c" where
  "put_all put xs c = fold (\<lambda>(k, r, st). put k r st) xs c"

locale results_cache =
  fixes empty :: 'c
    and put :: "string \<Rightarrow> string \<Rightarrow> AuditResultStatus \<Rightarrow> 'c \<Rightarrow> 'c"
    and get :: "string \<Rightarrow> string \<Rightarrow> 'c \<Rightarrow> AuditResultStatus option"
    and remove_constraint :: "string \<Rightarrow> 'c \<Rightarrow> 'c"
    and remove_resource :: "string \<Rightarrow> 'c \<Rightarrow> 'c"
  assumes get_empty: "get k r empty = None"
    and get_put: "get k r (put k' r' st c) = (if k = k' \<and> r = r' then Some st else get k r c)"
    and get_remove_constraint: "get k r (remove_constraint k' c) = (if k = k' then None else get k r c)"
    and get_remove_resource: "get k r (remove_resource r' c) = (if r = r' then None else get k r c)"
begin

lemma get_put_all_notin:
  "(k, r) \<notin> set (map (\<lambda>(k, r, st). (k, r)) xs) \<Longrightarrow> get k r (put_all put xs c) = get k r c"
  by (induction xs arbitrary: c) (auto simp: put_all_def get_put)

lemma get_put_all_last:
  assumes "distinct (map (\<lambda>(k, r, st). (k, r)) xs)" "(k, r, st) \<in> set xs"
  shows "get k r (put_all put xs c) = Some st"
  using assms
proof (induction xs arbitrary: c)
  case Nil
  then show ?case by simp
next
  case (Cons x xs)
  show ?case
  proof (cases "x = (k, r, st)")
    case True
    then have "(k, r) \<notin> set (map (\<lambda>(k, r, st). (k, r)) xs)" using Cons.prems(1) by simp
    then have "get k r (put_all put xs (put k r st c)) = get k r (put k r st c)" by (rule get_put_all_notin)
    then show ?thesis using True by (simp add: put_all_def get_put)
  next
    case False
    then show ?thesis using Cons by (cases x) (auto simp: put_all_def)
  qed
qed

end

interpretation rc: results_cache NewAuditResultsCache cache_Put cache_Get cache_RemoveConstraint cache_RemoveResource
  by unfold_locales
    (auto simp: NewAuditResultsCache_def cache_Put_def cache_Get_def cache_RemoveConstraint_def
      cache_RemoveResource_def Let_def split: option.splits)

end
