(* ===== verification/Opa_Auditor.thy ===== *)
theory Opa_Auditor
  imports Results_Cache Kuber_Parents
begin

text \<open>
  \<open>auditor/opa-auditor/opa-auditor.go\<close>: the constraints and policy templates of the auditor, which
  entities a constraint matches, and the evaluation of an entity.

  An \<open>unstructured.Unstructured\<close> is represented by what its getters return. A template is only
  reachable through the map of templates, so the maps hold values. The policy engine is not part of
  the repository: \<open>opa.Parse\<close> and \<open>Policy.EvalGateKeeperCompliant\<close> are the fields of \<open>opa_core\<close>, as
  is \<open>GetParents\<close> of the entities watcher. A map key that is missing where the code dereferences the
  \<open>nil\<close> it reads is a panic, \<open>None\<close>.
\<close>

subsection \<open>Entities, policies and errors\<close>

record 'obj Unstructured =
  un_OwnerReferences :: "OwnerReference list"
  un_Namespace :: string
  un_Kind :: string
  un_Name :: string
  un_Labels :: "(string, string) fmap"
  un_Object :: 'obj

text \<open>What an evaluation error carries: an \<open>interface{}\<close>, a map of strings to such values or another value.\<close>

datatype 'v iface = IString string | IOther 'v

datatype 'v opa_details = DetailsMap "(string, 'v iface) fmap" | DetailsOther "'v iface"

datatype 'v eval_error = OPAError "'v opa_details" | OtherError string

record ('pol, 'par, 'obj, 'v) opa_core =
  opa_Parse :: "string \<Rightarrow> string \<Rightarrow> string + 'pol"
  opa_Eval :: "'pol \<Rightarrow> 'obj \<Rightarrow> 'par \<Rightarrow> string \<Rightarrow> 'v eval_error option"
  ew_GetParents :: "string \<Rightarrow> string \<Rightarrow> string \<Rightarrow> ParentController option option"

definition PolicyQuery :: string where
  "PolicyQuery = ''violation''"

record 'pol Template =
  tp_Id :: string
  tp_Name :: string
  tp_Policy :: 'pol
  tp_Description :: string
  tp_HowToSolve :: string
  tp_UsageCount :: int

record 'par Constraint =
  co_Id :: string
  co_TemplateId :: string
  co_Name :: string
  co_Parameters :: 'par
  co_Match :: Match
  co_UpdatedAt :: go_time
  co_CategoryId :: string
  co_Severity :: string
  co_Controls :: "string list"
  co_Standards :: "string list"

record ('pol, 'par) OpaAuditor =
  oa_templates :: "(string, 'pol Template) fmap"
  oa_constraints :: "(string, 'par Constraint) fmap"
  oa_cache :: AuditResultsCache

definition opa_New :: "('pol, 'par) OpaAuditor" where
  "opa_New = \<lparr>oa_templates = fmempty, oa_constraints = fmempty, oa_cache = NewAuditResultsCache\<rparr>"

definition GetConstraintsSize :: "('pol, 'par) OpaAuditor \<Rightarrow> nat" where
  "GetConstraintsSize a = fcard (fmdom (oa_constraints a))"

subsection \<open>Constraints\<close>

definition stored_constraint :: "'par AgentConstraint \<Rightarrow> 'par Constraint" where
  "stored_constraint c = \<lparr>co_Id = ac_Id c, co_TemplateId = ac_TemplateId c, co_Name = ac_Name c,
     co_Parameters = ac_Parameters c, co_Match = ac_Match c, co_UpdatedAt = ac_UpdatedAt c,
     co_CategoryId = ac_CategoryId c, co_Severity = ac_Severity c, co_Controls = ac_Controls c,
     co_Standards = ac_Standards c\<rparr>"

definition stored_template :: "'par AgentConstraint \<Rightarrow> 'pol \<Rightarrow> int \<Rightarrow> 'pol Template" where
  "stored_template c policy n = \<lparr>tp_Id = ac_TemplateId c, tp_Name = ac_TemplateName c, tp_Policy = policy,
     tp_Description = ac_Description c, tp_HowToSolve = ac_HowToSolve c, tp_UsageCount = n\<rparr>"

definition add_constraint :: "'par AgentConstraint \<Rightarrow> ('pol, 'par) OpaAuditor \<Rightarrow> ('pol, 'par) OpaAuditor" where
  "add_constraint c a = a\<lparr>oa_constraints := fmupd (ac_Id c) (stored_constraint c) (oa_constraints a)\<rparr>"

definition set_template :: "string \<Rightarrow> 'pol Template \<Rightarrow> ('pol, 'par) OpaAuditor \<Rightarrow> ('pol, 'par) OpaAuditor" where
  "set_template tId t a = a\<lparr>oa_templates := fmupd tId t (oa_templates a)\<rparr>"

definition UpdateConstraint :: "('pol, 'par, 'obj, 'v) opa_core \<Rightarrow> ('pol, 'par) OpaAuditor \<Rightarrow>
    'par AgentConstraint \<Rightarrow> (('pol, 'par) OpaAuditor \<times> (string + bool)) option" where
  "UpdateConstraint env a c =
     (let tId = ac_TemplateId c; t = fmlookup (oa_templates a) tId; a1 = add_constraint c a in
      case fmlookup (oa_constraints a) (ac_Id c) of
        None \<Rightarrow>
          (case t of
             None \<Rightarrow>
               (case opa_Parse env (ac_Code c) PolicyQuery of
                  Inl err \<Rightarrow> Some (a1, Inl err)
                | Inr policy \<Rightarrow> Some (set_template tId (stored_template c policy 1) a1, Inr True))
           | Some t \<Rightarrow> Some (set_template tId (t\<lparr>tp_UsageCount := wrap64 (tp_UsageCount t + 1)\<rparr>) a1, Inr True))
      | Some old \<Rightarrow>
          if ac_UpdatedAt c > co_UpdatedAt old then
            (case opa_Parse env (ac_Code c) PolicyQuery of
               Inl err \<Rightarrow> Some (a1, Inl err)
             | Inr policy \<Rightarrow>
                 (case t of
                    None \<Rightarrow> None
                  | Some t \<Rightarrow> Some (set_template tId (stored_template c policy (tp_UsageCount t)) a1, Inr True)))
          else Some (a, Inr False))"

definition RemoveConstraint :: "('pol, 'par) OpaAuditor \<Rightarrow> string \<Rightarrow> ('pol, 'par) OpaAuditor option" where
  "RemoveConstraint a cid =
     (case fmlookup (oa_constraints a) cid of
        None \<Rightarrow> Some a
      | Some c \<Rightarrow>
          (case fmlookup (oa_templates a) (co_TemplateId c) of
             None \<Rightarrow> None
           | Some t \<Rightarrow>
               Some (a\<lparr>oa_templates :=
                   (if tp_UsageCount t > 1
                    then fmupd (co_TemplateId c) (t\<lparr>tp_UsageCount := tp_UsageCount t - 1\<rparr>) (oa_templates a)
                    else fmdrop (co_TemplateId c) (oa_templates a)),
                 oa_constraints := fmdrop cid (oa_constraints a),
                 oa_cache := cache_RemoveConstraint cid (oa_cache a)\<rparr>)))"

text \<open>The loop of \<open>UpdateConstraints\<close>; \<open>updated\<close> and \<open>errorsMap\<close> are its accumulators.\<close>

fun UpdateConstraints_loop :: "('pol, 'par, 'obj, 'v) opa_core \<Rightarrow> 'par AgentConstraint list \<Rightarrow>
    ('pol, 'par) OpaAuditor \<Rightarrow> string list \<Rightarrow> (string, string) fmap \<Rightarrow>
    (('pol, 'par) OpaAuditor \<times> string list \<times> (string, string) fmap) option" where
  "UpdateConstraints_loop env [] a updated errorsMap = Some (a, updated, errorsMap)"
| "UpdateConstraints_loop env (c # cs) a updated errorsMap =
     (if ac_DeletedAt c \<noteq> None then do {
        a1 \<leftarrow> RemoveConstraint a (ac_Id c);
        UpdateConstraints_loop env cs a1 updated errorsMap }
      else do {
        (a1, r) \<leftarrow> UpdateConstraint env a c;
        (case r of
           Inl err \<Rightarrow> UpdateConstraints_loop env cs a1 updated (fmupd (ac_Id c) err errorsMap)
         | Inr constraintUpdated \<Rightarrow>
             if constraintUpdated
             then UpdateConstraints_loop env cs (a1\<lparr>oa_cache := cache_RemoveConstraint (ac_Id c) (oa_cache a1)\<rparr>)
                    (updated @ [ac_Id c]) errorsMap
             else UpdateConstraints_loop env cs a1 updated errorsMap) })"

definition UpdateConstraints where
  "UpdateConstraints env a cs = UpdateConstraints_loop env cs a [] fmempty"

subsection \<open>Matching\<close>

text \<open>The label loops: the first entry of any of the maps that the entity has with the same value, or
  with any value for a star, ends both loops.\<close>

fun match_label_map :: "(string, string) fmap \<Rightarrow> (string \<times> string) list \<Rightarrow> bool" where
  "match_label_map labels [] = False"
| "match_label_map labels ((key, val) # rest) =
     (case fmlookup labels key of
        None \<Rightarrow> match_label_map labels rest
      | Some entityVal \<Rightarrow>
          if val \<noteq> ''*'' \<and> val \<noteq> entityVal then match_label_map labels rest else True)"

fun match_labels :: "(string, string) fmap \<Rightarrow> (string \<times> string) list list \<Rightarrow> bool" where
  "match_labels labels [] = False"
| "match_labels labels (obj # rest) = (match_label_map labels obj \<or> match_labels labels rest)"

fun match_any :: "string \<Rightarrow> string list \<Rightarrow> bool" where
  "match_any x [] = False"
| "match_any x (y # ys) = (if x = y then True else match_any x ys)"

definition matchEntity :: "'obj Unstructured \<Rightarrow> Match \<Rightarrow> bool" where
  "matchEntity resource m =
     (let matchKind = (if mt_Kinds m = [] then True else match_any (un_Kind resource) (mt_Kinds m));
          matchNamespace = (if mt_Namespaces m = [] then True else match_any (un_Namespace resource) (mt_Namespaces m));
          matchLabel = (if mt_Labels m = [] then True else match_labels (un_Labels resource) (mt_Labels m))
      in matchKind \<and> matchNamespace \<and> matchLabel)"

fun pick_constraints :: "string list \<Rightarrow> (string, 'c) fmap \<Rightarrow> (string, 'c) fmap \<Rightarrow> (string, 'c) fmap" where
  "pick_constraints [] cs acc = acc"
| "pick_constraints (i # is) cs acc =
     pick_constraints is cs (case fmlookup cs i of None \<Rightarrow> acc | Some c \<Rightarrow> fmupd i c acc)"

definition getConstraints :: "string list \<Rightarrow> (string, 'c) fmap \<Rightarrow> (string, 'c) fmap" where
  "getConstraints constraintIds cachedConstraints =
     (if constraintIds = [] then cachedConstraints else pick_constraints constraintIds cachedConstraints fmempty)"

definition getResourceKey :: "'obj Unstructured \<Rightarrow> string" where
  "getResourceKey resource = GetEntityKey (un_Namespace resource) (un_Kind resource) (un_Name resource)"

subsection \<open>The cache of results\<close>

definition RemoveResource :: "('pol, 'par) OpaAuditor \<Rightarrow> 'obj Unstructured \<Rightarrow> ('pol, 'par) OpaAuditor" where
  "RemoveResource a resource = a\<lparr>oa_cache := cache_RemoveResource (getResourceKey resource) (oa_cache a)\<rparr>"

definition CheckResourceStatusWithConstraint ::
  "('pol, 'par) OpaAuditor \<Rightarrow> string \<Rightarrow> 'obj Unstructured \<Rightarrow> AuditResultStatus \<Rightarrow> bool" where
  "CheckResourceStatusWithConstraint a constraintId resource currentStatus =
     (case cache_Get constraintId (getResourceKey resource) (oa_cache a) of
        None \<Rightarrow> True
      | Some oldStatus \<Rightarrow> oldStatus \<noteq> currentStatus)"

definition deref :: "string option \<Rightarrow> string" where
  "deref p = (case p of None \<Rightarrow> [] | Some s \<Rightarrow> s)"

fun UpdateCache_loop :: "'obj AuditResult list \<Rightarrow> AuditResultsCache \<Rightarrow> AuditResultsCache option" where
  "UpdateCache_loop [] c = Some c"
| "UpdateCache_loop (r # rs) c = do {
     constraintId \<leftarrow> ar_ConstraintID r;
     UpdateCache_loop rs
       (cache_Put constraintId
         (GetEntityKey (deref (ar_NamespaceName r)) (deref (ar_EntityKind r)) (deref (ar_EntityName r))) (ar_Status r) c) }"

definition UpdateCache :: "('pol, 'par) OpaAuditor \<Rightarrow> 'obj AuditResult list \<Rightarrow> ('pol, 'par) OpaAuditor option" where
  "UpdateCache a results = do { c \<leftarrow> UpdateCache_loop results (oa_cache a); Some (a\<lparr>oa_cache := c\<rparr>) }"

subsection \<open>Auditing an entity\<close>

text \<open>The title of a violation; \<open>msg.(string)\<close> panics if the policy's \<open>msg\<close> is not a string.\<close>

definition violation_title :: "'v opa_details \<Rightarrow> string \<Rightarrow> string option" where
  "violation_title d cname =
     (let details = (case d of DetailsMap m \<Rightarrow> m | DetailsOther v \<Rightarrow> fmupd ''issue'' v fmempty) in
      case fmlookup details ''msg'' of
        None \<Rightarrow> Some cname
      | Some (IString title) \<Rightarrow> Some title
      | Some (IOther _) \<Rightarrow> None)"

definition new_result :: "'obj Unstructured \<Rightarrow> string \<Rightarrow> string \<Rightarrow> string \<Rightarrow> 'par Constraint \<Rightarrow> 'pol Template \<Rightarrow> 'obj AuditResult" where
  "new_result resource triggerType parentName parentKind c t =
     \<lparr>ar_Id = [], ar_TemplateID = Some (co_TemplateId c), ar_ConstraintID = Some (co_Id c),
      ar_CategoryID = Some (co_CategoryId c), ar_Severity = Some (co_Severity c), ar_Controls = co_Controls c,
      ar_Standards = co_Standards c, ar_Description = tp_Description t, ar_HowToSolve = tp_HowToSolve t,
      ar_Status = [], ar_Msg = None, ar_EntityName = Some (un_Name resource), ar_EntityKind = Some (un_Kind resource),
      ar_NamespaceName = Some (un_Namespace resource), ar_ParentName = Some parentName, ar_ParentKind = Some parentKind,
      ar_EntitySpec = un_Object resource, ar_Trigger = triggerType\<rparr>"

text \<open>One matching constraint: its result, and the error if the policy could not be evaluated.\<close>

definition audit_constraint :: "('pol, 'par, 'obj, 'v) opa_core \<Rightarrow> ('pol, 'par) OpaAuditor \<Rightarrow> 'obj Unstructured \<Rightarrow>
    string \<Rightarrow> string \<Rightarrow> string \<Rightarrow> string \<Rightarrow> 'par Constraint \<Rightarrow> ('obj AuditResult \<times> string option) option" where
  "audit_constraint env a resource triggerType parentName parentKind u c = do {
     t \<leftarrow> fmlookup (oa_templates a) (co_TemplateId c);
     let res = GenerateID u (new_result resource triggerType parentName parentKind c t);
     (case opa_Eval env (tp_Policy t) (un_Object resource) (co_Parameters c) PolicyQuery of
        None \<Rightarrow> Some (res\<lparr>ar_Status := AuditResultStatusCompliant\<rparr>, None)
      | Some (OPAError d) \<Rightarrow> do {
          title \<leftarrow> violation_title d (co_Name c);
          let msg = title @ '' in '' @ un_Kind resource @ '' '' @ un_Name resource;
          Some (res\<lparr>ar_Status := AuditResultStatusViolating, ar_Msg := Some msg\<rparr>, None) }
      | Some (OtherError e) \<Rightarrow> Some (res, Some e)) }"

fun audit_loop :: "('pol, 'par, 'obj, 'v) opa_core \<Rightarrow> ('pol, 'par) OpaAuditor \<Rightarrow> 'obj Unstructured \<Rightarrow>
    string \<Rightarrow> string \<Rightarrow> string \<Rightarrow> (nat \<Rightarrow> string) \<Rightarrow> 'par Constraint list \<Rightarrow> 'obj AuditResult list \<Rightarrow> string list \<Rightarrow>
    ('obj AuditResult list \<times> string list) option" where
  "audit_loop env a resource trig pn pk uuids [] results errs = Some (results, errs)"
| "audit_loop env a resource trig pn pk uuids (c # cs) results errs =
     (if \<not> matchEntity resource (co_Match c) then audit_loop env a resource trig pn pk uuids cs results errs
      else do {
        (res, err) \<leftarrow> audit_constraint env a resource trig pn pk (uuids (length results)) c;
        audit_loop env a resource trig pn pk uuids cs (results @ [res])
          (case err of None \<Rightarrow> errs | Some e \<Rightarrow> errs @ [e]) })"

text \<open>\<open>order\<close> is the order in which \<open>range constraints\<close> visits the chosen constraints.\<close>

definition Audit :: "('pol, 'par, 'obj, 'v) opa_core \<Rightarrow> ('pol, 'par) OpaAuditor \<Rightarrow> 'obj Unstructured \<Rightarrow> string list \<Rightarrow>
    string \<Rightarrow> string list \<Rightarrow> (nat \<Rightarrow> string) \<Rightarrow> ('obj AuditResult list \<times> string list) option" where
  "Audit env a resource constraintIds triggerType order uuids =
     (if un_OwnerReferences resource \<noteq> [] then Some ([], [])
      else
        (let constraints = getConstraints constraintIds (oa_constraints a);
             cs = List.map_filter (fmlookup constraints) order;
             kind = un_Kind resource
         in case ew_GetParents env (un_Namespace resource) kind (un_Name resource) of
              Some (Some parent) \<Rightarrow>
                if kind = ''Pod'' \<or> kind = ''ReplicaSet'' then Some ([], [])
                else (let topParent = RootParent_loop parent
                      in audit_loop env a resource triggerType (pc_Name topParent) (pc_Kind topParent) uuids cs [] [])
            | _ \<Rightarrow> audit_loop env a resource triggerType [] [] uuids cs [] []))"

subsection \<open>Matching, declaratively\<close>

lemma match_any_iff: "match_any x ys \<longleftrightarrow> x \<in> set ys"
  by (induction ys) auto

lemma match_label_map_iff:
  "match_label_map labels obj \<longleftrightarrow>
    (\<exists>(key, val) \<in> set obj. \<exists>v. fmlookup labels key = Some v \<and> (val = ''*'' \<or> val = v))"
  by (induction labels obj rule: match_label_map.induct) (auto split: option.splits)

lemma match_labels_iff: "match_labels labels objs \<longleftrightarrow> (\<exists>obj \<in> set objs. match_label_map labels obj)"
  by (induction objs) auto

lemma fmlookup_pick_constraints:
  "fmlookup (pick_constraints is cs acc) i =
    (if i \<in> set is \<and> fmlookup cs i \<noteq> None then fmlookup cs i else fmlookup acc i)"
  by (induction "is" arbitrary: acc) (auto split: option.splits)

lemma fmlookup_getConstraints:
  "fmlookup (getConstraints is cs) i = (if is = [] \<or> i \<in> set is then fmlookup cs i else None)"
  by (auto simp: getConstraints_def fmlookup_pick_constraints)

subsection \<open>The invariant of constraints and templates\<close>

text \<open>The constraints that use a template.\<close>

definition users :: "('pol, 'par) OpaAuditor \<Rightarrow> string \<Rightarrow> string set" where
  "users a tid = {k. \<exists>c. fmlookup (oa_constraints a) k = Some c \<and> co_TemplateId c = tid}"

definition opa_inv :: "(string \<Rightarrow> string) \<Rightarrow> ('pol, 'par) OpaAuditor \<Rightarrow> bool" where
  "opa_inv tmpl a \<longleftrightarrow>
     (\<forall>k c. fmlookup (oa_constraints a) k = Some c \<longrightarrow> co_Id c = k \<and> co_TemplateId c = tmpl k) \<and>
     (\<forall>tid. users a tid \<noteq> {} \<longleftrightarrow> fmlookup (oa_templates a) tid \<noteq> None) \<and>
     (\<forall>tid t. fmlookup (oa_templates a) tid = Some t \<longrightarrow> tp_UsageCount t = int (card (users a tid)))"

lemma finite_users [simp]: "finite (users a tid)"
proof -
  have "users a tid \<subseteq> fmdom' (oa_constraints a)" by (auto simp: users_def intro: fmdom'I)
  then show ?thesis by (rule finite_subset) simp
qed

lemma users_simps [simp]:
  "users (set_template tid t a) = users a" "users (a\<lparr>oa_cache := ch\<rparr>) = users a"
  "oa_constraints (set_template tid t a) = oa_constraints a"
  "oa_templates (set_template tid t a) = fmupd tid t (oa_templates a)"
  "oa_constraints (add_constraint c a) = fmupd (ac_Id c) (stored_constraint c) (oa_constraints a)"
  "oa_templates (add_constraint c a) = oa_templates a" "oa_cache (add_constraint c a) = oa_cache a"
  "oa_cache (set_template tid t a) = oa_cache a"
  by (auto simp: users_def set_template_def add_constraint_def fun_eq_iff)

lemma stored_constraint_sel [simp]:
  "co_Id (stored_constraint c) = ac_Id c" "co_TemplateId (stored_constraint c) = ac_TemplateId c"
  "co_UpdatedAt (stored_constraint c) = ac_UpdatedAt c" "co_Match (stored_constraint c) = ac_Match c"
  by (simp_all add: stored_constraint_def)

lemma users_add_new:
  "fmlookup (oa_constraints a) (ac_Id c) = None \<Longrightarrow>
    users (add_constraint c a) tid = (if tid = ac_TemplateId c then insert (ac_Id c) (users a tid) else users a tid)"
  by (auto simp: users_def)

lemma users_add_same:
  "fmlookup (oa_constraints a) (ac_Id c) = Some old \<Longrightarrow> co_TemplateId old = ac_TemplateId c \<Longrightarrow>
    users (add_constraint c a) tid = users a tid"
  by (auto simp: users_def)

lemma users_remove:
  "fmlookup (oa_constraints a) cid = Some c \<Longrightarrow>
    users (a\<lparr>oa_templates := ts, oa_constraints := fmdrop cid (oa_constraints a)\<rparr>) tid =
      (if tid = co_TemplateId c then users a tid - {cid} else users a tid)"
  by (auto simp: users_def)

lemma card_users_le: "card (users a tid) \<le> GetConstraintsSize a"
proof -
  have "users a tid \<subseteq> fset (fmdom (oa_constraints a))" by (auto simp: users_def fmlookup_dom_iff)
  then show ?thesis by (simp add: GetConstraintsSize_def fcard.rep_eq card_mono)
qed

text \<open>What an update does to the map of constraints.\<close>

definition newer :: "'par AgentConstraint \<Rightarrow> (string, 'par Constraint) fmap \<Rightarrow> bool" where
  "newer c m = (case fmlookup m (ac_Id c) of None \<Rightarrow> True | Some old \<Rightarrow> ac_UpdatedAt c > co_UpdatedAt old)"

definition apply_update :: "'par AgentConstraint \<Rightarrow> (string, 'par Constraint) fmap \<Rightarrow> (string, 'par Constraint) fmap" where
  "apply_update c m =
     (if ac_DeletedAt c \<noteq> None then fmdrop (ac_Id c) m
      else if newer c m then fmupd (ac_Id c) (stored_constraint c) m else m)"

lemma opa_inv_new_constraint:
  assumes "opa_inv tmpl a" "fmlookup (oa_constraints a) (ac_Id c) = None" "ac_TemplateId c = tmpl (ac_Id c)"
    "tp_UsageCount t = int (card (users a (ac_TemplateId c))) + 1"
  shows "opa_inv tmpl (set_template (ac_TemplateId c) t (add_constraint c a))"
proof -
  have "ac_Id c \<notin> users a tid" for tid using assms(2) by (simp add: users_def)
  then show ?thesis using assms by (auto simp: opa_inv_def users_add_new)
qed

lemma opa_inv_same_template:
  assumes "opa_inv tmpl a" "fmlookup (oa_constraints a) (ac_Id c) = Some old" "ac_TemplateId c = tmpl (ac_Id c)"
    "fmlookup (oa_templates a) (ac_TemplateId c) = Some t0" "tp_UsageCount t = tp_UsageCount t0"
  shows "opa_inv tmpl (set_template (ac_TemplateId c) t (add_constraint c a))"
proof -
  have "co_TemplateId old = ac_TemplateId c" using assms(1-3) by (simp add: opa_inv_def)
  then have "users (add_constraint c a) = users a" using users_add_same [OF assms(2)] by (simp add: fun_eq_iff)
  then show ?thesis using assms by (auto simp: opa_inv_def)
qed

lemma UpdateConstraint_ok:
  assumes inv: "opa_inv tmpl a" and parse: "opa_Parse env (ac_Code c) PolicyQuery = Inr pol"
    and tid: "ac_TemplateId c = tmpl (ac_Id c)" and size: "int (GetConstraintsSize a) < 2 ^ 63 - 1"
  shows "\<exists>a' b. UpdateConstraint env a c = Some (a', Inr b) \<and> opa_inv tmpl a' \<and> b = newer c (oa_constraints a) \<and>
    oa_cache a' = oa_cache a \<and>
    oa_constraints a' = (if b then fmupd (ac_Id c) (stored_constraint c) (oa_constraints a) else oa_constraints a)"
proof (cases "fmlookup (oa_constraints a) (ac_Id c)")
  case None
  let ?n = "int (card (users a (ac_TemplateId c)))"
  have "is_int64 (?n + 1)" using size card_users_le [of a "ac_TemplateId c"] by (simp add: is_int64_def)
  then have count: "wrap64 (tp_UsageCount t + 1) = ?n + 1" if "fmlookup (oa_templates a) (ac_TemplateId c) = Some t" for t
    using inv that by (simp add: opa_inv_def)
  have empty: "card (users a (ac_TemplateId c)) = 0" if "fmlookup (oa_templates a) (ac_TemplateId c) = None"
    using inv that by (metis opa_inv_def card.empty)
  note new = opa_inv_new_constraint [OF inv None tid]
  show ?thesis
    using None parse new count empty
    by (cases "fmlookup (oa_templates a) (ac_TemplateId c)")
      (auto simp: UpdateConstraint_def Let_def newer_def stored_template_def)
next
  case (Some old)
  have "ac_Id c \<in> users a (ac_TemplateId c)" using inv Some tid by (simp add: opa_inv_def users_def)
  then obtain t where t: "fmlookup (oa_templates a) (ac_TemplateId c) = Some t"
    using inv unfolding opa_inv_def by (metis empty_iff option.exhaust)
  show ?thesis
    using Some parse t inv opa_inv_same_template [OF inv Some tid t]
    by (auto simp: UpdateConstraint_def Let_def newer_def stored_template_def)
qed

lemma RemoveConstraint_ok:
  assumes inv: "opa_inv tmpl a"
  shows "\<exists>a'. RemoveConstraint a cid = Some a' \<and> opa_inv tmpl a' \<and> oa_constraints a' = fmdrop cid (oa_constraints a)"
proof (cases "fmlookup (oa_constraints a) cid")
  case None
  then have "fmdrop cid (oa_constraints a) = oa_constraints a" by (intro fmap_ext) auto
  then show ?thesis using None inv by (simp add: RemoveConstraint_def)
next
  case (Some c)
  let ?tid = "co_TemplateId c" and ?u = "users a (co_TemplateId c)"
  have cid: "cid \<in> ?u" using Some by (simp add: users_def)
  then obtain t where t: "fmlookup (oa_templates a) ?tid = Some t"
    using inv unfolding opa_inv_def by (metis empty_iff option.exhaust)
  then have n: "tp_UsageCount t = int (card ?u)" using inv by (simp add: opa_inv_def)
  have card: "card (?u - {cid}) = card ?u - 1" "card ?u > 0" using cid by (auto simp: card_gt_0_iff)
  have last: "?u - {cid} \<noteq> {} \<longleftrightarrow> card ?u > 1" using card by (metis card_eq_0_iff finite_Diff finite_users diff_is_0_eq not_less)
  show ?thesis
    using Some t n inv card last
    by (auto simp: RemoveConstraint_def opa_inv_def users_remove [OF Some])
qed

lemma opa_inv_cache [simp]: "opa_inv tmpl (a\<lparr>oa_cache := ch\<rparr>) = opa_inv tmpl a"
  by (simp add: opa_inv_def)

lemma GetConstraintsSize_upd:
  "GetConstraintsSize (a\<lparr>oa_constraints := apply_update c (oa_constraints a)\<rparr>) \<le> Suc (GetConstraintsSize a)"
proof -
  have "fcard (finsert x F) \<le> Suc (fcard F)" for x and F :: "string fset"
    by (simp add: fcard.rep_eq card_insert_le_m1 card_insert_if)
  moreover have "fcard (F |-| {|x|}) \<le> Suc (fcard F)" for x and F :: "string fset"
    by (auto simp: fcard.rep_eq card_Diff_singleton_if)
  ultimately show ?thesis by (auto simp: GetConstraintsSize_def apply_update_def)
qed

lemma GetConstraintsSize_cong: "oa_constraints a = oa_constraints b \<Longrightarrow> GetConstraintsSize a = GetConstraintsSize b"
  by (simp add: GetConstraintsSize_def)

text \<open>The hypotheses on a batch: policies parse, and a constraint keeps its template.\<close>

definition good_batch :: "('pol, 'par, 'obj, 'v) opa_core \<Rightarrow> (string \<Rightarrow> string) \<Rightarrow> 'par AgentConstraint list \<Rightarrow> bool" where
  "good_batch env tmpl cs \<longleftrightarrow> (\<forall>c \<in> set cs. ac_DeletedAt c = None \<longrightarrow>
     ac_TemplateId c = tmpl (ac_Id c) \<and> (\<exists>pol. opa_Parse env (ac_Code c) PolicyQuery = Inr pol))"

text \<open>The ids that \<open>UpdateConstraints\<close> reports as updated.\<close>

fun updated_ids :: "'par AgentConstraint list \<Rightarrow> (string, 'par Constraint) fmap \<Rightarrow> string list" where
  "updated_ids [] m = []"
| "updated_ids (c # cs) m =
     (if ac_DeletedAt c = None \<and> newer c m then [ac_Id c] else []) @ updated_ids cs (apply_update c m)"

lemma UpdateConstraints_loop_ok:
  "opa_inv tmpl a \<Longrightarrow> good_batch env tmpl cs \<Longrightarrow> int (GetConstraintsSize a + length cs) < 2 ^ 63 \<Longrightarrow>
    \<exists>a'. UpdateConstraints_loop env cs a upd errs = Some (a', upd @ updated_ids cs (oa_constraints a), errs) \<and>
      opa_inv tmpl a' \<and> oa_constraints a' = fold apply_update cs (oa_constraints a)"
proof (induction cs arbitrary: a upd errs)
  case Nil
  then show ?case by simp
next
  case (Cons c cs)
  have good: "good_batch env tmpl cs" using Cons.prems(2) by (simp add: good_batch_def)
  have size: "int (GetConstraintsSize a1 + length cs) < 2 ^ 63" if "oa_constraints a1 = apply_update c (oa_constraints a)" for a1
    using Cons.prems(3) GetConstraintsSize_upd [of c a]
      GetConstraintsSize_cong [of a1 "a\<lparr>oa_constraints := apply_update c (oa_constraints a)\<rparr>"] that by simp
  show ?case
  proof (cases "ac_DeletedAt c")
    case (Some d)
    obtain a1 where a1: "RemoveConstraint a (ac_Id c) = Some a1" "opa_inv tmpl a1"
      "oa_constraints a1 = fmdrop (ac_Id c) (oa_constraints a)" using RemoveConstraint_ok [OF Cons.prems(1)] by blast
    have "oa_constraints a1 = apply_update c (oa_constraints a)" using a1(3) Some by (simp add: apply_update_def)
    then show ?thesis using Cons.IH [OF a1(2) good size] a1(1) Some by simp
  next
    case None
    obtain pol where pol: "opa_Parse env (ac_Code c) PolicyQuery = Inr pol" "ac_TemplateId c = tmpl (ac_Id c)"
      using Cons.prems(2) None by (auto simp: good_batch_def)
    have "int (GetConstraintsSize a) < 2 ^ 63 - 1" using Cons.prems(3) by simp
    from UpdateConstraint_ok [OF Cons.prems(1) pol this] obtain a1 b where
      a1: "UpdateConstraint env a c = Some (a1, Inr b)" "opa_inv tmpl a1" "b = newer c (oa_constraints a)"
      "oa_constraints a1 = (if b then fmupd (ac_Id c) (stored_constraint c) (oa_constraints a) else oa_constraints a)" by blast
    have upd: "oa_constraints a1 = apply_update c (oa_constraints a)" using a1(3,4) None by (simp add: apply_update_def)
    let ?a2 = "if b then a1\<lparr>oa_cache := cache_RemoveConstraint (ac_Id c) (oa_cache a1)\<rparr> else a1"
    have a2: "opa_inv tmpl ?a2" "oa_constraints ?a2 = apply_update c (oa_constraints a)" using a1(2) upd by auto
    show ?thesis
      using Cons.IH [OF a2(1) good size [OF a2(2)], of "if b then upd @ [ac_Id c] else upd" errs] a1(1,3) a2(2) None
      by (cases b) auto
  qed
qed

subsection \<open>What an audit returns\<close>

definition eval_status :: "'v eval_error option \<Rightarrow> AuditResultStatus" where
  "eval_status e = (case e of
     None \<Rightarrow> AuditResultStatusCompliant
   | Some (OPAError _) \<Rightarrow> AuditResultStatusViolating
   | Some (OtherError _) \<Rightarrow> [])"

abbreviation evaluate :: "('pol, 'par, 'obj, 'v) opa_core \<Rightarrow> ('pol, 'par) OpaAuditor \<Rightarrow> 'obj Unstructured \<Rightarrow>
    'par Constraint \<Rightarrow> 'v eval_error option" where
  "evaluate env a resource c \<equiv>
     opa_Eval env (tp_Policy (the (fmlookup (oa_templates a) (co_TemplateId c)))) (un_Object resource) (co_Parameters c) PolicyQuery"

text \<open>The message of a violation is not a string: the type assertion \<open>msg.(string)\<close> of \<open>Audit\<close> panics.\<close>

fun bad_message :: "'v eval_error option \<Rightarrow> bool" where
  "bad_message (Some (OPAError (DetailsMap m))) = (case fmlookup m ''msg'' of Some (IOther _) \<Rightarrow> True | _ \<Rightarrow> False)"
| "bad_message _ = False"

text \<open>No policy of the engine does that.\<close>

definition string_msgs :: "('pol, 'par, 'obj, 'v) opa_core \<Rightarrow> bool" where
  "string_msgs env \<longleftrightarrow> (\<forall>p obj par q m. opa_Eval env p obj par q = Some (OPAError (DetailsMap m)) \<longrightarrow>
     (\<forall>v. fmlookup m ''msg'' \<noteq> Some (IOther v)))"

definition result_for :: "'obj Unstructured \<Rightarrow> 'par Constraint \<Rightarrow> AuditResultStatus \<Rightarrow> 'obj AuditResult \<Rightarrow> bool" where
  "result_for resource c st r \<longleftrightarrow> ar_ConstraintID r = Some (co_Id c) \<and> ar_TemplateID r = Some (co_TemplateId c) \<and>
     ar_NamespaceName r = Some (un_Namespace resource) \<and> ar_EntityKind r = Some (un_Kind resource) \<and>
     ar_EntityName r = Some (un_Name resource) \<and> ar_EntitySpec r = un_Object resource \<and> ar_Status r = st \<and>
     (ar_Msg r = None \<longleftrightarrow> st \<noteq> AuditResultStatusViolating)"

lemma string_msgs_good: "string_msgs env \<Longrightarrow> \<not> bad_message (opa_Eval env p obj par q)"
  by (cases "opa_Eval env p obj par q" rule: bad_message.cases) (auto simp: string_msgs_def split: option.splits iface.splits)

lemma violation_title_None: "violation_title d cname = None \<longleftrightarrow> bad_message (Some (OPAError d))"
  by (cases d) (auto simp: violation_title_def split: option.splits iface.splits)

lemma audit_constraint_panics:
  assumes "fmlookup (oa_templates a) (co_TemplateId c) = Some t" "bad_message (evaluate env a resource c)"
  shows "audit_constraint env a resource trig pn pk u c = None"
proof -
  obtain d where d: "evaluate env a resource c = Some (OPAError d)" using assms(2) by (auto elim: bad_message.elims)
  then have "violation_title d (co_Name c) = None" using assms(2) by (simp add: violation_title_None)
  then show ?thesis using assms(1) d by (simp add: audit_constraint_def)
qed

lemma audit_constraint_result:
  assumes "\<not> bad_message (evaluate env a resource c)" "fmlookup (oa_templates a) (co_TemplateId c) = Some t"
  shows "\<exists>r err. audit_constraint env a resource trig pn pk u c = Some (r, err) \<and>
    result_for resource c (eval_status (evaluate env a resource c)) r \<and>
    (err = None \<longleftrightarrow> (\<forall>e. evaluate env a resource c \<noteq> Some (OtherError e)))"
proof (cases "opa_Eval env (tp_Policy t) (un_Object resource) (co_Parameters c) PolicyQuery")
  case None
  then show ?thesis
    using assms(2) by (simp add: audit_constraint_def result_for_def new_result_def GenerateID_def eval_status_def status_defs)
next
  case (Some e)
  show ?thesis
  proof (cases e)
    case (OPAError d)
    then obtain title where "violation_title d (co_Name c) = Some title"
      using violation_title_None [of d "co_Name c"] assms Some by fastforce
    then show ?thesis
      using Some OPAError assms(2)
      by (simp add: audit_constraint_def result_for_def new_result_def GenerateID_def eval_status_def)
  next
    case (OtherError e')
    then show ?thesis
      using Some assms(2)
      by (simp add: audit_constraint_def result_for_def new_result_def GenerateID_def eval_status_def status_defs)
  qed
qed

lemma audit_loop_results:
  assumes "\<forall>c \<in> set cs. matchEntity resource (co_Match c) \<longrightarrow> \<not> bad_message (evaluate env a resource c)"
    and "\<forall>c \<in> set cs. matchEntity resource (co_Match c) \<longrightarrow> fmlookup (oa_templates a) (co_TemplateId c) \<noteq> None"
  shows "\<exists>rs es. audit_loop env a resource trig pn pk uuids cs results errs = Some (results @ rs, errs @ es) \<and>
    list_all2 (\<lambda>c r. result_for resource c (eval_status (evaluate env a resource c)) r)
      (filter (\<lambda>c. matchEntity resource (co_Match c)) cs) rs \<and>
    (es = [] \<longleftrightarrow> (\<forall>c \<in> set cs. \<forall>e. matchEntity resource (co_Match c) \<longrightarrow> evaluate env a resource c \<noteq> Some (OtherError e)))"
  using assms
proof (induction cs arbitrary: results errs)
  case Nil
  then show ?case by simp
next
  case (Cons c cs)
  show ?case
  proof (cases "matchEntity resource (co_Match c)")
    case False
    then show ?thesis using Cons by simp
  next
    case True
    then have "fmlookup (oa_templates a) (co_TemplateId c) \<noteq> None" using Cons.prems by simp
    then obtain t where t: "fmlookup (oa_templates a) (co_TemplateId c) = Some t" by (cases "fmlookup (oa_templates a) (co_TemplateId c)") simp_all
    have good: "\<not> bad_message (evaluate env a resource c)" using Cons.prems(1) True by simp
    obtain r err where r: "audit_constraint env a resource trig pn pk (uuids (length results)) c = Some (r, err)"
      "result_for resource c (eval_status (evaluate env a resource c)) r"
      "err = None \<longleftrightarrow> (\<forall>e. evaluate env a resource c \<noteq> Some (OtherError e))"
      using audit_constraint_result [OF good t, of trig pn pk "uuids (length results)"] by (elim exE conjE) (rule that)
    let ?es = "case err of None \<Rightarrow> [] | Some e \<Rightarrow> [e]"
    have errs: "(case err of None \<Rightarrow> errs | Some e \<Rightarrow> errs @ [e]) = errs @ ?es" by (simp split: option.splits)
    have tmpl: "\<forall>c \<in> set cs. matchEntity resource (co_Match c) \<longrightarrow> fmlookup (oa_templates a) (co_TemplateId c) \<noteq> None"
      "\<forall>c \<in> set cs. matchEntity resource (co_Match c) \<longrightarrow> \<not> bad_message (evaluate env a resource c)"
      using Cons.prems by simp_all
    obtain rs es where IH: "audit_loop env a resource trig pn pk uuids cs (results @ [r]) (errs @ ?es)
        = Some ((results @ [r]) @ rs, (errs @ ?es) @ es)"
      "list_all2 (\<lambda>c r. result_for resource c (eval_status (evaluate env a resource c)) r)
        (filter (\<lambda>c. matchEntity resource (co_Match c)) cs) rs"
      "es = [] \<longleftrightarrow> (\<forall>c \<in> set cs. \<forall>e. matchEntity resource (co_Match c) \<longrightarrow> evaluate env a resource c \<noteq> Some (OtherError e))"
      using Cons.IH [OF tmpl(2,1), of "results @ [r]" "errs @ ?es"] by (elim exE conjE) (rule that)
    have "audit_loop env a resource trig pn pk uuids (c # cs) results errs = Some (results @ r # rs, errs @ ?es @ es)"
      using IH(1) r(1) True errs by simp
    then show ?thesis using IH(2,3) r(2,3) True by (auto split: option.splits)
  qed
qed

text \<open>A panic for one matching constraint stops the whole audit; a message that is not a string is such a panic.\<close>

lemma audit_loop_panics:
  "c \<in> set cs \<Longrightarrow> matchEntity resource (co_Match c) \<Longrightarrow> (\<And>u. audit_constraint env a resource trig pn pk u c = None) \<Longrightarrow>
    audit_loop env a resource trig pn pk uuids cs results errs = None"
  by (induction cs arbitrary: results errs) (auto split: Option.bind_splits)

lemma audit_loop_bad_message:
  assumes "\<forall>c \<in> set cs. matchEntity resource (co_Match c) \<longrightarrow> fmlookup (oa_templates a) (co_TemplateId c) \<noteq> None"
    and "c \<in> set cs" "matchEntity resource (co_Match c)" "bad_message (evaluate env a resource c)"
  shows "audit_loop env a resource trig pn pk uuids cs results errs = None"
proof (rule audit_loop_panics [OF assms(2,3)])
  fix u
  obtain t where "fmlookup (oa_templates a) (co_TemplateId c) = Some t" using assms(1-3) by auto
  then show "audit_constraint env a resource trig pn pk u c = None" using assms(4) by (simp add: audit_constraint_panics)
qed

end
