(* ===== verification/Opa_Auditor_Properties.thy ===== *)
theory Opa_Auditor_Properties
  imports Opa_Auditor
begin

text \<open>
  The properties of the policy auditor: how batches of constraints are applied, which entities match,
  that an audit gives exactly one result for each matching constraint, how the cache of results is
  kept, and what a policy that does not parse and a constraint that changes its template do.
\<close>

subsection \<open>A small policy engine\<close>

text \<open>An engine to evaluate the properties on: policies are strings, \<open>''bad''\<close> does not parse, \<open>''deny''\<close>
  reports a violation, and \<open>''crash''\<close> cannot be evaluated.\<close>

definition demo_core :: "(string, unit, unit, unit) opa_core" where
  "demo_core = \<lparr>opa_Parse = (\<lambda>code q. if code = ''bad'' then Inl ''syntax error'' else Inr code),
     opa_Eval = (\<lambda>p obj par q. if p = ''deny'' then Some (OPAError (DetailsMap fmempty))
       else if p = ''crash'' then Some (OtherError ''no result'') else None),
     ew_GetParents = (\<lambda>_ _ _. None)\<rparr>"

definition any_match :: Match where
  "any_match = \<lparr>mt_Namespaces = [], mt_Kinds = [], mt_Labels = []\<rparr>"

definition demo_constraint :: "string \<Rightarrow> string \<Rightarrow> string \<Rightarrow> go_time \<Rightarrow> unit AgentConstraint" where
  "demo_constraint cid tid code updated = \<lparr>ac_Id = cid, ac_TemplateId = tid, ac_AccountId = [], ac_ClusterId = [],
     ac_Name = cid, ac_TemplateName = tid, ac_Parameters = (), ac_Match = any_match, ac_Code = code,
     ac_Description = [], ac_HowToSolve = [], ac_UpdatedAt = updated, ac_CategoryId = [], ac_Severity = [],
     ac_Controls = [], ac_Standards = [], ac_DeletedAt = None\<rparr>"

definition demo_entity :: "unit Unstructured" where
  "demo_entity = \<lparr>un_OwnerReferences = [], un_Namespace = ''ns'', un_Kind = ''Deployment'', un_Name = ''web'',
     un_Labels = fmupd ''app'' ''web'' fmempty, un_Object = ()\<rparr>"

definition demo_auditor :: "(string, unit) OpaAuditor" where
  "demo_auditor = set_template ''t'' (stored_template (demo_constraint ''c'' ''t'' ''deny'' 1) ''deny'' 1)
     (add_constraint (demo_constraint ''c'' ''t'' ''deny'' 1) opa_New)"

lemmas demo_audit_defs = demo_core_def any_match_def demo_constraint_def demo_entity_def

lemma opa_inv_New: "opa_inv tmpl opa_New"
  by (simp add: opa_inv_def opa_New_def users_def)

lemma opa_inv_demo: "opa_inv (\<lambda>_. ''t'') demo_auditor"
  unfolding demo_auditor_def
  using opa_inv_new_constraint [OF opa_inv_New, of "demo_constraint ''c'' ''t'' ''deny'' 1" "\<lambda>_. ''t''"
      "stored_template (demo_constraint ''c'' ''t'' ''deny'' 1) ''deny'' 1"]
  by (simp add: demo_constraint_def opa_New_def users_def stored_template_def)

lemma demo_auditor_constraints [simp]:
  "oa_constraints demo_auditor = fmupd ''c'' (stored_constraint (demo_constraint ''c'' ''t'' ''deny'' 1)) fmempty"
  by (simp add: demo_auditor_def demo_constraint_def opa_New_def)

lemma string_msgs_demo: "string_msgs demo_core"
  by (auto simp: string_msgs_def demo_core_def split: if_splits)

subsection \<open>Helper lemmas\<close>

lemma set_map_filter_iff: "y \<in> set (List.map_filter f xs) \<longleftrightarrow> (\<exists>x \<in> set xs. f x = Some y)"
  by (induction xs) (auto split: option.splits)

lemma fmlookup_map_filter:
  assumes "range_order m order"
  shows "c \<in> set (List.map_filter (fmlookup m) order) \<longleftrightarrow> (\<exists>k. fmlookup m k = Some c)"
  using assms unfolding set_map_filter_iff range_order_def by (metis fmlookup_dom'_iff)

lemma map_filter_ids:
  assumes "\<And>k c. fmlookup m k = Some c \<Longrightarrow> f c = k" "set order \<subseteq> fmdom' m"
  shows "map f (List.map_filter (fmlookup m) order) = order"
  using assms(2)
proof (induction order)
  case (Cons k ks)
  then obtain c where "fmlookup m k = Some c" by (auto simp: fmlookup_dom'_iff)
  then show ?case using Cons assms(1) by simp
qed simp

lemma audit_unfold:
  assumes "un_OwnerReferences resource = []"
    and "\<forall>p. ew_GetParents env (un_Namespace resource) (un_Kind resource) (un_Name resource) = Some (Some p) \<longrightarrow>
      un_Kind resource \<noteq> ''Pod'' \<and> un_Kind resource \<noteq> ''ReplicaSet''"
  shows "\<exists>pn pk. Audit env a resource ids trig order uuids = audit_loop env a resource trig pn pk uuids
    (List.map_filter (fmlookup (getConstraints ids (oa_constraints a))) order) [] []"
proof (cases "\<exists>p. ew_GetParents env (un_Namespace resource) (un_Kind resource) (un_Name resource) = Some (Some p)")
  case True
  then obtain p where "ew_GetParents env (un_Namespace resource) (un_Kind resource) (un_Name resource) = Some (Some p)" ..
  then show ?thesis using assms by (auto simp: Audit_def Let_def)
next
  case False
  then have "Audit env a resource ids trig order uuids = audit_loop env a resource trig [] [] uuids
    (List.map_filter (fmlookup (getConstraints ids (oa_constraints a))) order) [] []"
    using assms(1) by (auto simp: Audit_def Let_def split: option.splits)
  then show ?thesis by blast
qed

lemma list_all2_ids:
  assumes "list_all2 (\<lambda>c r. result_for resource c (st c) r) cs rs"
  shows "map ar_ConstraintID rs = map (\<lambda>c. Some (co_Id c)) cs"
    and "r \<in> set rs \<Longrightarrow> \<exists>c \<in> set cs. result_for resource c (st c) r"
  using assms by (induction rule: list_all2_induct) (auto simp: result_for_def)

lemma UpdateCache_loop_puts:
  assumes "\<forall>r \<in> set rs. ar_ConstraintID r \<noteq> None"
  shows "UpdateCache_loop rs c = Some (put_all cache_Put (map (\<lambda>r. (the (ar_ConstraintID r),
    GetEntityKey (deref (ar_NamespaceName r)) (deref (ar_EntityKind r)) (deref (ar_EntityName r)), ar_Status r)) rs) c)"
  using assms by (induction rs arbitrary: c) (auto simp: put_all_def)

text \<open>The results of one audit: one entity, distinct constraints.\<close>

definition audit_results :: "'obj Unstructured \<Rightarrow> 'obj AuditResult list \<Rightarrow> bool" where
  "audit_results resource rs \<longleftrightarrow> distinct (map ar_ConstraintID rs) \<and>
     (\<forall>r \<in> set rs. \<exists>cid. ar_ConstraintID r = Some cid \<and> ar_NamespaceName r = Some (un_Namespace resource) \<and>
        ar_EntityKind r = Some (un_Kind resource) \<and> ar_EntityName r = Some (un_Name resource))"

lemma audit_results_filter: "audit_results resource rs \<Longrightarrow> audit_results resource (filter P rs)"
  by (auto simp: audit_results_def distinct_map_filter)

lemma UpdateCache_get:
  assumes "audit_results resource rs"
  shows "\<exists>a'. UpdateCache a rs = Some a' \<and> oa_templates a' = oa_templates a \<and> oa_constraints a' = oa_constraints a \<and>
    (\<forall>r \<in> set rs. cache_Get (the (ar_ConstraintID r)) (getResourceKey resource) (oa_cache a') = Some (ar_Status r)) \<and>
    (\<forall>cid key. Some cid \<notin> ar_ConstraintID ` set rs \<or> key \<noteq> getResourceKey resource \<longrightarrow>
      cache_Get cid key (oa_cache a') = cache_Get cid key (oa_cache a))"
proof -
  let ?key = "getResourceKey resource"
  let ?xs = "map (\<lambda>r. (the (ar_ConstraintID r), ?key, ar_Status r)) rs"
  have some: "\<forall>r \<in> set rs. ar_ConstraintID r \<noteq> None" using assms by (force simp: audit_results_def)
  have eq: "map (\<lambda>r. (the (ar_ConstraintID r),
      GetEntityKey (deref (ar_NamespaceName r)) (deref (ar_EntityKind r)) (deref (ar_EntityName r)), ar_Status r)) rs = ?xs"
    using assms by (force simp: audit_results_def getResourceKey_def deref_def)
  have run: "UpdateCache_loop rs (oa_cache a) = Some (put_all cache_Put ?xs (oa_cache a))"
    using UpdateCache_loop_puts [OF some, of "oa_cache a"] unfolding eq .
  have ids: "map ar_ConstraintID rs = map Some (map (\<lambda>r. the (ar_ConstraintID r)) rs)"
    using assms by (force simp: audit_results_def)
  then have "distinct (map (\<lambda>r. the (ar_ConstraintID r)) rs)"
    using assms by (metis audit_results_def distinct_map)
  then have d: "distinct (map (\<lambda>(k, r, st). (k, r)) ?xs)"
    by (simp add: comp_def distinct_map inj_on_def)
  have got: "cache_Get (the (ar_ConstraintID r)) ?key (put_all cache_Put ?xs (oa_cache a)) = Some (ar_Status r)"
    if "r \<in> set rs" for r using that by (intro rc.get_put_all_last [OF d]) auto
  have other: "cache_Get cid key (put_all cache_Put ?xs (oa_cache a)) = cache_Get cid key (oa_cache a)"
    if "Some cid \<notin> ar_ConstraintID ` set rs \<or> key \<noteq> ?key" for cid key
  proof (rule rc.get_put_all_notin)
    show "(cid, key) \<notin> set (map (\<lambda>(k, r, st). (k, r)) ?xs)"
      using that assms by (force simp: audit_results_def)
  qed
  show ?thesis using run got other by (simp add: UpdateCache_def)
qed

text \<open>Entities that an audit does not skip, and whether one of the chosen policies makes it panic.\<close>

definition audited :: "('pol, 'par, 'obj, 'v) opa_core \<Rightarrow> 'obj Unstructured \<Rightarrow> bool" where
  "audited env x \<longleftrightarrow> un_OwnerReferences x = [] \<and>
     (\<forall>p. ew_GetParents env (un_Namespace x) (un_Kind x) (un_Name x) = Some (Some p) \<longrightarrow>
       un_Kind x \<noteq> ''Pod'' \<and> un_Kind x \<noteq> ''ReplicaSet'')"

definition bad_policy :: "('pol, 'par, 'obj, 'v) opa_core \<Rightarrow> ('pol, 'par) OpaAuditor \<Rightarrow> string list \<Rightarrow> 'obj Unstructured \<Rightarrow> bool" where
  "bad_policy env a ids resource \<longleftrightarrow> (\<exists>cid c. fmlookup (getConstraints ids (oa_constraints a)) cid = Some c \<and>
     matchEntity resource (co_Match c) \<and> bad_message (evaluate env a resource c))"

lemma string_msgs_policy: "string_msgs env \<Longrightarrow> \<not> bad_policy env a ids resource"
  using string_msgs_good by (fastforce simp: bad_policy_def)

lemma chosen_constraints:
  assumes "opa_inv tmpl a" "fmlookup (getConstraints ids (oa_constraints a)) k = Some c"
  shows "co_Id c = k" "fmlookup (oa_templates a) (co_TemplateId c) \<noteq> None"
proof -
  have c: "fmlookup (oa_constraints a) k = Some c" using assms(2) by (simp add: fmlookup_getConstraints split: if_splits)
  then have "users a (co_TemplateId c) \<noteq> {}" by (auto simp: users_def)
  then show "co_Id c = k" "fmlookup (oa_templates a) (co_TemplateId c) \<noteq> None"
    using assms(1) c unfolding opa_inv_def by blast+
qed

lemma Audit_panics:
  assumes "opa_inv tmpl a" "range_order (getConstraints ids (oa_constraints a)) order" "audited env resource" "bad_policy env a ids resource"
  shows "Audit env a resource ids trig order uuids = None"
proof -
  let ?cs = "List.map_filter (fmlookup (getConstraints ids (oa_constraints a))) order"
  obtain c where c: "c \<in> set ?cs" "matchEntity resource (co_Match c)" "bad_message (evaluate env a resource c)"
    using assms(4) fmlookup_map_filter [OF assms(2)] by (auto simp: bad_policy_def)
  have "\<forall>c \<in> set ?cs. matchEntity resource (co_Match c) \<longrightarrow> fmlookup (oa_templates a) (co_TemplateId c) \<noteq> None"
    using chosen_constraints(2) [OF assms(1)] fmlookup_map_filter [OF assms(2)] by blast
  moreover obtain pn pk where "Audit env a resource ids trig order uuids = audit_loop env a resource trig pn pk uuids ?cs [] []"
    using audit_unfold [of resource env a ids trig order uuids] assms(3) unfolding audited_def by blast
  ultimately show ?thesis using audit_loop_bad_message c by metis
qed

lemma Audit_results_safe:
  assumes inv: "opa_inv tmpl a" and msgs: "\<not> bad_policy env a ids resource" and ord: "range_order (getConstraints ids (oa_constraints a)) order"
    and own: "un_OwnerReferences resource = []"
    and par: "\<forall>p. ew_GetParents env (un_Namespace resource) (un_Kind resource) (un_Name resource) = Some (Some p) \<longrightarrow>
      un_Kind resource \<noteq> ''Pod'' \<and> un_Kind resource \<noteq> ''ReplicaSet''"
  shows "\<exists>rs errs. Audit env a resource ids trig order uuids = Some (rs, errs) \<and> audit_results resource rs \<and>
    (\<forall>cid st. (\<exists>r \<in> set rs. ar_ConstraintID r = Some cid \<and> ar_Status r = st) \<longleftrightarrow>
      (\<exists>c. fmlookup (getConstraints ids (oa_constraints a)) cid = Some c \<and> matchEntity resource (co_Match c) \<and>
        st = eval_status (evaluate env a resource c)))"
proof -
  let ?m = "getConstraints ids (oa_constraints a)"
  let ?cs = "List.map_filter (fmlookup ?m) order"
  let ?hit = "filter (\<lambda>c. matchEntity resource (co_Match c)) ?cs"
  note id = chosen_constraints [OF inv, of ids]
  have good: "\<forall>c \<in> set ?cs. matchEntity resource (co_Match c) \<longrightarrow> \<not> bad_message (evaluate env a resource c)"
    using msgs fmlookup_map_filter [OF ord] by (auto simp: bad_policy_def)
  have tm: "\<forall>c \<in> set ?cs. matchEntity resource (co_Match c) \<longrightarrow> fmlookup (oa_templates a) (co_TemplateId c) \<noteq> None"
    using id fmlookup_map_filter [OF ord] by blast
  obtain pn pk where unf: "Audit env a resource ids trig order uuids = audit_loop env a resource trig pn pk uuids ?cs [] []"
    using audit_unfold [OF own par] by blast
  obtain rs errs where rs: "Audit env a resource ids trig order uuids = Some (rs, errs)"
    "list_all2 (\<lambda>c r. result_for resource c (eval_status (evaluate env a resource c)) r) ?hit rs"
    using audit_loop_results [OF good tm, of trig pn pk uuids "[]" "[]", unfolded append_Nil, folded unf]
    by (elim exE conjE) (rule that)
  have "map co_Id ?cs = order" using map_filter_ids [of ?m co_Id order] id ord by (simp add: range_order_def)
  then have "distinct (map co_Id ?cs)" using ord by (simp add: range_order_def)
  then have "distinct (map (\<lambda>c. Some (co_Id c)) ?hit)" by (auto simp: distinct_map inj_on_def)
  then have "audit_results resource rs"
    using list_all2_ids [OF rs(2)] by (auto simp: audit_results_def result_for_def)
  moreover have "(\<exists>r \<in> set rs. ar_ConstraintID r = Some cid \<and> ar_Status r = st) \<longleftrightarrow>
      (\<exists>c. fmlookup ?m cid = Some c \<and> matchEntity resource (co_Match c) \<and> st = eval_status (evaluate env a resource c))" for cid st
  proof -
    have "(\<exists>r \<in> set rs. ar_ConstraintID r = Some cid \<and> ar_Status r = st) \<longleftrightarrow>
        (\<exists>c \<in> set ?hit. co_Id c = cid \<and> st = eval_status (evaluate env a resource c))"
      using rs(2) by (induction rule: list_all2_induct) (auto simp: result_for_def)
    also have "\<dots> \<longleftrightarrow> (\<exists>c. fmlookup ?m cid = Some c \<and> matchEntity resource (co_Match c) \<and> st = eval_status (evaluate env a resource c))"
      using fmlookup_map_filter [OF ord] id by fastforce
    finally show ?thesis .
  qed
  ultimately show ?thesis using rs(1) by blast
qed

lemma Audit_results_gen:
  assumes "opa_inv tmpl a" and "string_msgs env" and "range_order (getConstraints ids (oa_constraints a)) order"
    and "un_OwnerReferences resource = []"
    and "\<forall>p. ew_GetParents env (un_Namespace resource) (un_Kind resource) (un_Name resource) = Some (Some p) \<longrightarrow>
      un_Kind resource \<noteq> ''Pod'' \<and> un_Kind resource \<noteq> ''ReplicaSet''"
  shows "\<exists>rs errs. Audit env a resource ids trig order uuids = Some (rs, errs) \<and> audit_results resource rs \<and>
    (\<forall>cid st. (\<exists>r \<in> set rs. ar_ConstraintID r = Some cid \<and> ar_Status r = st) \<longleftrightarrow>
      (\<exists>c. fmlookup (getConstraints ids (oa_constraints a)) cid = Some c \<and> matchEntity resource (co_Match c) \<and>
        st = eval_status (evaluate env a resource c)))"
  using assms(1) string_msgs_policy [OF assms(2)] assms(3-5) by (rule Audit_results_safe)

subsection \<open>Properties\<close>

text \<open>C9: A batch of constraint updates whose policies parse and in which no constraint changes its
  template is applied without an error and without a panic: deletions remove, new and strictly newer
  constraints are stored, older ones are ignored, exactly the stored ones are reported as updated; and
  afterwards there is one template for each template id in use, with the number of its constraints as
  usage count.\<close>

theorem UpdateConstraints_correct:
  assumes "opa_inv tmpl a" and "good_batch env tmpl cs" and "int (GetConstraintsSize a + length cs) < 2 ^ 63"
  shows "\<exists>a'. UpdateConstraints env a cs = Some (a', updated_ids cs (oa_constraints a), fmempty) \<and>
    opa_inv tmpl a' \<and> oa_constraints a' = fold apply_update cs (oa_constraints a)"
  using UpdateConstraints_loop_ok [OF assms, of "[]" fmempty] by (simp add: UpdateConstraints_def)

theorem UpdateConstraints_correct_witness:
  "\<exists>a'. UpdateConstraints demo_core demo_auditor [demo_constraint ''d'' ''t'' ''allow'' 2] =
      Some (a', updated_ids [demo_constraint ''d'' ''t'' ''allow'' 2] (oa_constraints demo_auditor), fmempty) \<and>
    opa_inv (\<lambda>_. ''t'') a' \<and>
    oa_constraints a' = fold apply_update [demo_constraint ''d'' ''t'' ''allow'' 2] (oa_constraints demo_auditor)"
  by (rule UpdateConstraints_correct [OF opa_inv_demo])
    (simp_all add: good_batch_def demo_core_def demo_constraint_def GetConstraintsSize_def fcard.rep_eq)

text \<open>C11: A constraint matches an entity if and only if its kinds are empty or contain the entity's
  kind, its namespaces are empty or contain the entity's namespace, and its labels are empty or one of
  the label maps has one entry that the entity has with that value, or with any value for a star.\<close>

theorem matchEntity_iff:
  "matchEntity resource m \<longleftrightarrow>
    (mt_Kinds m = [] \<or> un_Kind resource \<in> set (mt_Kinds m)) \<and>
    (mt_Namespaces m = [] \<or> un_Namespace resource \<in> set (mt_Namespaces m)) \<and>
    (mt_Labels m = [] \<or> (\<exists>obj \<in> set (mt_Labels m). \<exists>key val v. (key, val) \<in> set obj \<and>
      fmlookup (un_Labels resource) key = Some v \<and> (val = ''*'' \<or> val = v)))"
  by (auto simp: matchEntity_def Let_def match_any_iff match_labels_iff match_label_map_iff)

text \<open>C10: Auditing an entity that has no owner, and no known parent if it is a pod or a replica set,
  returns without a panic; it gives exactly one result for each chosen constraint that matches the
  entity and none for the others, each naming the entity, with status compliant if the policy has no
  objection, violating if it reports a violation, and empty if it could not be evaluated.\<close>

theorem Audit_correct:
  assumes "opa_inv tmpl a" and "string_msgs env" and "range_order (getConstraints ids (oa_constraints a)) order"
    and "un_OwnerReferences resource = []"
    and "\<forall>p. ew_GetParents env (un_Namespace resource) (un_Kind resource) (un_Name resource) = Some (Some p) \<longrightarrow>
      un_Kind resource \<noteq> ''Pod'' \<and> un_Kind resource \<noteq> ''ReplicaSet''"
  shows "\<exists>rs errs. Audit env a resource ids trig order uuids = Some (rs, errs) \<and> audit_results resource rs \<and>
    (\<forall>cid st. (\<exists>r \<in> set rs. ar_ConstraintID r = Some cid \<and> ar_Status r = st) \<longleftrightarrow>
      (\<exists>c. fmlookup (getConstraints ids (oa_constraints a)) cid = Some c \<and> matchEntity resource (co_Match c) \<and>
        st = eval_status (evaluate env a resource c)))"
  using assms by (rule Audit_results_gen)

theorem Audit_correct_witness:
  "\<exists>rs errs. Audit demo_core demo_auditor demo_entity [] ''command'' [''c''] (\<lambda>_. ''id'') = Some (rs, errs) \<and>
    audit_results demo_entity rs \<and>
    (\<forall>cid st. (\<exists>r \<in> set rs. ar_ConstraintID r = Some cid \<and> ar_Status r = st) \<longleftrightarrow>
      (\<exists>c. fmlookup (getConstraints [] (oa_constraints demo_auditor)) cid = Some c \<and> matchEntity demo_entity (co_Match c) \<and>
        st = eval_status (evaluate demo_core demo_auditor demo_entity c)))"
  by (rule Audit_correct [OF opa_inv_demo string_msgs_demo])
    (simp_all add: range_order_def getConstraints_def demo_entity_def demo_core_def)

text \<open>After the results of an audit are put into the cache, the same status of the same constraint
  on that entity is no longer news, any other status is, and the cached statuses of other entities and
  other constraints are untouched.\<close>

theorem UpdateCache_remembers:
  assumes "audit_results resource rs"
  shows "\<exists>a'. UpdateCache a rs = Some a' \<and>
    (\<forall>r \<in> set rs. \<forall>st. CheckResourceStatusWithConstraint a' (the (ar_ConstraintID r)) resource st \<longleftrightarrow> st \<noteq> ar_Status r) \<and>
    (\<forall>cid key. Some cid \<notin> ar_ConstraintID ` set rs \<or> key \<noteq> getResourceKey resource \<longrightarrow>
      cache_Get cid key (oa_cache a') = cache_Get cid key (oa_cache a))"
  using UpdateCache_get [OF assms, of a] by (auto simp: CheckResourceStatusWithConstraint_def)

theorem UpdateCache_remembers_witness:
  "\<exists>a' (r :: unit AuditResult). UpdateCache demo_auditor [r] = Some a' \<and> ar_Status r = ''Violation'' \<and>
    \<not> CheckResourceStatusWithConstraint a' ''c'' demo_entity ''Violation''"
proof -
  define r where "r = (new_result demo_entity ''command'' [] [] (stored_constraint (demo_constraint ''c'' ''t'' ''deny'' 1))
    (stored_template (demo_constraint ''c'' ''t'' ''deny'' 1) ''deny'' 1))\<lparr>ar_Status := ''Violation''\<rparr>"
  have r: "ar_ConstraintID r = Some ''c''" "ar_Status r = ''Violation''"
    by (simp_all add: r_def new_result_def demo_constraint_def)
  have "audit_results demo_entity [r]" by (simp add: audit_results_def r_def new_result_def)
  from UpdateCache_remembers [OF this, of demo_auditor] obtain a' where
    "UpdateCache demo_auditor [r] = Some a'" "\<not> CheckResourceStatusWithConstraint a' ''c'' demo_entity ''Violation''"
    using r by auto
  then show ?thesis using r by blast
qed

text \<open>C12: A new constraint whose policy does not parse is reported as an error but stays in the map of
  constraints without a template. From then on, auditing any ownerless matching entity against it
  panics, deleting the constraint panics, and sending it again with the same timestamp is ignored as
  not newer.\<close>

theorem failed_parse_poisons_auditor:
  assumes "fmlookup (oa_constraints a) (ac_Id c) = None" and "fmlookup (oa_templates a) (ac_TemplateId c) = None"
    and "opa_Parse env (ac_Code c) PolicyQuery = Inl err"
  shows "\<exists>a'. UpdateConstraint env a c = Some (a', Inl err) \<and>
    RemoveConstraint a' (ac_Id c) = None \<and>
    UpdateConstraint env a' c = Some (a', Inr False) \<and>
    (\<forall>resource trig uuids. un_OwnerReferences resource = [] \<and> matchEntity resource (ac_Match c) \<and>
      ew_GetParents env (un_Namespace resource) (un_Kind resource) (un_Name resource) = None \<longrightarrow>
      Audit env a' resource [ac_Id c] trig [ac_Id c] uuids = None)"
proof -
  let ?a = "add_constraint c a"
  have "UpdateConstraint env a c = Some (?a, Inl err)" using assms by (simp add: UpdateConstraint_def Let_def)
  moreover have "RemoveConstraint ?a (ac_Id c) = None" using assms(2) by (simp add: RemoveConstraint_def)
  moreover have "UpdateConstraint env ?a c = Some (?a, Inr False)" by (simp add: UpdateConstraint_def Let_def)
  moreover have "Audit env ?a resource [ac_Id c] trig [ac_Id c] uuids = None"
    if "un_OwnerReferences resource = []" "matchEntity resource (ac_Match c)"
      "ew_GetParents env (un_Namespace resource) (un_Kind resource) (un_Name resource) = None" for resource trig uuids
    using that assms(2) by (simp add: Audit_def Let_def getConstraints_def audit_constraint_def)
  ultimately show ?thesis by blast
qed

theorem failed_parse_poisons_auditor_witness:
  "\<exists>a'. UpdateConstraint demo_core demo_auditor (demo_constraint ''d'' ''u'' ''bad'' 3) = Some (a', Inl ''syntax error'') \<and>
    RemoveConstraint a' ''d'' = None \<and>
    Audit demo_core a' demo_entity [''d''] ''command'' [''d''] (\<lambda>_. []) = None"
proof -
  let ?c = "demo_constraint ''d'' ''u'' ''bad'' 3"
  have "fmlookup (oa_constraints demo_auditor) (ac_Id ?c) = None" "fmlookup (oa_templates demo_auditor) (ac_TemplateId ?c) = None"
    "opa_Parse demo_core (ac_Code ?c) PolicyQuery = Inl ''syntax error''"
    by (simp_all add: demo_constraint_def demo_core_def demo_auditor_def opa_New_def)
  from failed_parse_poisons_auditor [OF this] show ?thesis
    by (force simp: demo_constraint_def demo_entity_def demo_core_def any_match_def matchEntity_def)
qed

text \<open>A newer version of a known constraint that refers to a template id not yet known panics: the
  code reads the usage count of the missing template.\<close>

theorem changed_template_panics:
  assumes "fmlookup (oa_constraints a) (ac_Id c) = Some old" and "ac_UpdatedAt c > co_UpdatedAt old"
    and "fmlookup (oa_templates a) (ac_TemplateId c) = None" and "opa_Parse env (ac_Code c) PolicyQuery = Inr policy"
  shows "UpdateConstraint env a c = None"
  using assms by (simp add: UpdateConstraint_def Let_def)

theorem changed_template_panics_witness:
  "UpdateConstraint demo_core demo_auditor (demo_constraint ''c'' ''new'' ''allow'' 2) = None"
  by (rule changed_template_panics [where old = "stored_constraint (demo_constraint ''c'' ''t'' ''deny'' 1)"])
    (simp_all add: demo_constraint_def demo_core_def demo_auditor_def opa_New_def)

end
