(* ===== verification/Auditor_Loop.thy ===== *)
theory Auditor_Loop
  imports Opa_Auditor_Properties
begin

text \<open>
  \<open>auditor/auditor.go\<close>: the audit events, the handlers that produce them, and the worker loop
  \<open>Start\<close>, which handles one event at a time.

  An \<open>AuditEvent\<close> is a type and untyped data; the constructors pair each type with the data its
  producer attaches, and \<open>Tick\<close> is the periodic ticker. \<open>handle_event\<close> is one round of the loop: it
  returns the new state and the arguments of the calls of \<open>sendAuditResult\<close>, whose error the code
  only logs. The entities listed by the watcher when a round audits everything, the iteration orders
  of the constraint maps and the generated ids are arguments; \<open>ch k\<close> belongs to the \<open>k\<close>-th audit of
  the round.
\<close>

subsection \<open>Events and their handlers\<close>

datatype 'obj AuditEvent =
    Command
  | PolicyChange "string list"
  | EntityChange "'obj Unstructured"
  | EntityDelete "'obj Unstructured"
  | EntitiesSync
  | Initial "string list"
  | Unsupported string
  | Tick

fun event_type :: "'obj AuditEvent \<Rightarrow> string" where
  "event_type Command = ''command''"
| "event_type (PolicyChange ids) = ''policy-change''"
| "event_type (EntityChange r) = ''entity-change''"
| "event_type (EntityDelete r) = ''entity-delete''"
| "event_type EntitiesSync = ''entities-sync''"
| "event_type (Initial ids) = ''initial-audit''"
| "event_type (Unsupported t) = t"
| "event_type Tick = ''periodic-audit''"

definition HandleConstraints :: "('pol, 'par, 'obj, 'v) opa_core \<Rightarrow> ('pol, 'par) OpaAuditor \<Rightarrow> 'par AgentConstraint list \<Rightarrow>
    (('pol, 'par) OpaAuditor \<times> 'obj AuditEvent option \<times> (string, string) fmap) option" where
  "HandleConstraints env a cs = do {
     let initial = (GetConstraintsSize a = 0);
     (a', updatedConstraintIds, errs) \<leftarrow> UpdateConstraints env a cs;
     Some (a',
       (if updatedConstraintIds \<noteq> []
        then Some (if initial then Initial updatedConstraintIds else PolicyChange updatedConstraintIds)
        else None),
       errs) }"

definition triggerAuditCommand :: "'obj AuditEvent" where
  "triggerAuditCommand = Command"

definition OnResourceAdd :: "'obj Unstructured \<Rightarrow> 'obj AuditEvent" where
  "OnResourceAdd obj = EntityChange obj"

definition OnResourceUpdate :: "'obj Unstructured \<Rightarrow> 'obj Unstructured \<Rightarrow> 'obj AuditEvent" where
  "OnResourceUpdate oldObj newObj = EntityChange newObj"

definition OnResourceDelete :: "'obj Unstructured \<Rightarrow> 'obj AuditEvent" where
  "OnResourceDelete obj = EntityDelete obj"

definition OnCacheSync :: "'obj AuditEvent" where
  "OnCacheSync = EntitiesSync"

subsection \<open>The loop\<close>

type_synonym choices = "nat \<Rightarrow> string list \<times> (nat \<Rightarrow> string)"

definition auditResource :: "('pol, 'par, 'obj, 'v) opa_core \<Rightarrow> ('pol, 'par) OpaAuditor \<Rightarrow> 'obj Unstructured \<Rightarrow> string list \<Rightarrow>
    string \<Rightarrow> string list \<times> (nat \<Rightarrow> string) \<Rightarrow> ('obj AuditResult list \<times> string option) option" where
  "auditResource env a resource constraintIds triggerType ch = do {
     (results, errs) \<leftarrow> Audit env a resource constraintIds triggerType (fst ch) (snd ch);
     Some (results, (case errs of [] \<Rightarrow> None | e # _ \<Rightarrow> Some e)) }"

fun audit_resources :: "('pol, 'par, 'obj, 'v) opa_core \<Rightarrow> string list \<Rightarrow> string \<Rightarrow> choices \<Rightarrow> nat \<Rightarrow> 'obj Unstructured list \<Rightarrow>
    ('pol, 'par) OpaAuditor \<Rightarrow> 'obj AuditResult list list \<Rightarrow> (('pol, 'par) OpaAuditor \<times> 'obj AuditResult list list) option" where
  "audit_resources env ids trig ch k [] a sent = Some (a, sent)"
| "audit_resources env ids trig ch k (resource # rest) a sent = do {
     (results, _) \<leftarrow> auditResource env a resource ids trig (ch k);
     a1 \<leftarrow> UpdateCache a results;
     audit_resources env ids trig ch (Suc k) rest a1 (sent @ [results]) }"

text \<open>\<open>listed\<close>: the entities by kind, in the order the loop over the map visits the kinds.\<close>

definition auditAllResourcesAndSendData where
  "auditAllResourcesAndSendData env a listed ids trig ch = audit_resources env ids trig ch 0 (concat listed) a []"

fun news :: "('pol, 'par) OpaAuditor \<Rightarrow> 'obj Unstructured \<Rightarrow> 'obj AuditResult list \<Rightarrow> 'obj AuditResult list option" where
  "news a resource [] = Some []"
| "news a resource (r # rs) = do {
     cid \<leftarrow> ar_ConstraintID r;
     rest \<leftarrow> news a resource rs;
     Some (if CheckResourceStatusWithConstraint a cid resource (ar_Status r) then r # rest else rest) }"

definition handle_event :: "('pol, 'par, 'obj, 'v) opa_core \<Rightarrow> 'obj Unstructured list list \<Rightarrow> choices \<Rightarrow>
    ('pol, 'par) OpaAuditor \<times> bool \<Rightarrow> 'obj AuditEvent \<Rightarrow>
    ((('pol, 'par) OpaAuditor \<times> bool) \<times> 'obj AuditResult list list) option" where
  "handle_event env listed ch st e =
     (case st of (a, entitiesSynced) \<Rightarrow>
      (let auditAll = (\<lambda>ids synced. do {
             (a', sent) \<leftarrow> auditAllResourcesAndSendData env a listed ids (event_type e) ch;
             Some ((a', synced), sent) })
       in case e of
            EntityChange resource \<Rightarrow>
              if entitiesSynced then do {
                (results, _) \<leftarrow> auditResource env a resource [] (event_type e) (ch 0);
                nResult \<leftarrow> news a resource results;
                a' \<leftarrow> UpdateCache a nResult;
                Some ((a', entitiesSynced), [nResult]) }
              else Some ((a, entitiesSynced), [])
          | EntityDelete resource \<Rightarrow> Some ((RemoveResource a resource, entitiesSynced), [])
          | PolicyChange updated \<Rightarrow> auditAll updated entitiesSynced
          | Initial updated \<Rightarrow> auditAll updated entitiesSynced
          | EntitiesSync \<Rightarrow> auditAll [] True
          | Command \<Rightarrow> auditAll [] entitiesSynced
          | Tick \<Rightarrow> auditAll [] entitiesSynced
          | Unsupported t \<Rightarrow> Some ((a, entitiesSynced), [])))"

text \<open>The constraint ids that a round passes to the audits.\<close>

fun event_ids :: "'obj AuditEvent \<Rightarrow> string list" where
  "event_ids (PolicyChange ids) = ids"
| "event_ids (Initial ids) = ids"
| "event_ids _ = []"

text \<open>\<open>ch\<close> gives possible iteration orders for the audits of the round.\<close>

definition choices_ok :: "('pol, 'par) OpaAuditor \<Rightarrow> string list \<Rightarrow> choices \<Rightarrow> bool" where
  "choices_ok a ids ch \<longleftrightarrow> (\<forall>k. range_order (getConstraints ids (oa_constraints a)) (fst (ch k)))"

inductive auditor_reach :: "('pol, 'par, 'obj, 'v) opa_core \<Rightarrow> (string \<Rightarrow> string) \<Rightarrow> ('pol, 'par) OpaAuditor \<times> bool \<Rightarrow> bool"
  for env tmpl where
  start: "auditor_reach env tmpl (opa_New, False)"
| constraints: "auditor_reach env tmpl (a, b) \<Longrightarrow> good_batch env tmpl cs \<Longrightarrow> int (GetConstraintsSize a + length cs) < 2 ^ 63 \<Longrightarrow>
    HandleConstraints env a cs = Some (a', ev, errs) \<Longrightarrow> auditor_reach env tmpl (a', b)"
| event: "auditor_reach env tmpl (a, b) \<Longrightarrow> choices_ok a (event_ids e) ch \<Longrightarrow>
    handle_event env listed ch (a, b) e = Some (st', sent) \<Longrightarrow> auditor_reach env tmpl st'"

subsection \<open>Lemmas\<close>

lemma news_filter:
  "\<forall>r \<in> set rs. ar_ConstraintID r \<noteq> None \<Longrightarrow>
    news a resource rs = Some (filter (\<lambda>r. CheckResourceStatusWithConstraint a (the (ar_ConstraintID r)) resource (ar_Status r)) rs)"
  by (induction rs) auto

text \<open>An audit panics exactly if it evaluates a policy whose message is not a string; entities that are skipped
  give no results.\<close>

definition bad_audit :: "('pol, 'par, 'obj, 'v) opa_core \<Rightarrow> ('pol, 'par) OpaAuditor \<Rightarrow> string list \<Rightarrow> 'obj Unstructured \<Rightarrow> bool" where
  "bad_audit env a ids resource \<longleftrightarrow> audited env resource \<and> bad_policy env a ids resource"

lemma string_msgs_audit [dest]: "string_msgs env \<Longrightarrow> bad_audit env a ids resource \<Longrightarrow> False"
  using string_msgs_policy by (auto simp: bad_audit_def)

lemma Audit_outcome:
  assumes "opa_inv tmpl a" "range_order (getConstraints ids (oa_constraints a)) order"
  shows "bad_audit env a ids resource \<Longrightarrow> Audit env a resource ids trig order uuids = None"
    and "\<not> bad_audit env a ids resource \<Longrightarrow> \<exists>rs errs. Audit env a resource ids trig order uuids = Some (rs, errs) \<and> audit_results resource rs"
proof -
  show "bad_audit env a ids resource \<Longrightarrow> Audit env a resource ids trig order uuids = None"
    by (simp add: bad_audit_def Audit_panics [OF assms])
  assume good: "\<not> bad_audit env a ids resource"
  show "\<exists>rs errs. Audit env a resource ids trig order uuids = Some (rs, errs) \<and> audit_results resource rs"
  proof (cases "audited env resource")
    case True
    then show ?thesis
      using Audit_results_safe [OF assms(1) _ assms(2), of env resource trig uuids] good by (auto simp: bad_audit_def audited_def)
  next
    case False
    then have "Audit env a resource ids trig order uuids = Some ([], [])" by (auto simp: audited_def Audit_def Let_def)
    then show ?thesis by (simp add: audit_results_def)
  qed
qed

lemma Audit_total:
  assumes "opa_inv tmpl a" "string_msgs env" "range_order (getConstraints ids (oa_constraints a)) order"
  shows "\<exists>rs errs. Audit env a resource ids trig order uuids = Some (rs, errs) \<and> audit_results resource rs"
  using Audit_outcome(2) [OF assms(1,3)] assms(2) by blast

lemma audit_results_ids: "audit_results resource rs \<Longrightarrow> \<forall>r \<in> set rs. ar_ConstraintID r \<noteq> None"
  by (force simp: audit_results_def)

lemma audit_results_unique:
  assumes "audit_results resource rs" "r \<in> set rs" "r' \<in> set rs" "ar_ConstraintID r' = ar_ConstraintID r"
  shows "r' = r"
proof -
  have "inj_on ar_ConstraintID (set rs)" using assms(1) by (simp add: audit_results_def distinct_map)
  then show ?thesis using assms(2-4) by (simp add: inj_on_eq_iff)
qed

definition same_policies :: "('pol, 'par) OpaAuditor \<Rightarrow> ('pol, 'par) OpaAuditor \<Rightarrow> bool" where
  "same_policies a a' \<longleftrightarrow> oa_templates a' = oa_templates a \<and> oa_constraints a' = oa_constraints a"

lemma same_policies_refl [simp]: "same_policies a a"
  by (simp add: same_policies_def)

lemma same_policies_trans: "same_policies a b \<Longrightarrow> same_policies b c \<Longrightarrow> same_policies a c"
  by (simp add: same_policies_def)

lemma opa_inv_same: "same_policies a a' \<Longrightarrow> opa_inv tmpl a' = opa_inv tmpl a"
  by (simp add: opa_inv_def users_def same_policies_def)

lemma choices_same: "same_policies a a' \<Longrightarrow> choices_ok a' ids ch = choices_ok a ids ch"
  by (simp add: choices_ok_def same_policies_def)

lemma UpdateCache_total:
  "audit_results resource rs \<Longrightarrow> \<exists>a'. UpdateCache a rs = Some a' \<and> same_policies a a'"
  using UpdateCache_get [of resource rs a] by (auto simp: same_policies_def)

lemma bad_audit_same: "same_policies a a' \<Longrightarrow> bad_audit env a' ids resource = bad_audit env a ids resource"
  by (simp add: bad_audit_def bad_policy_def same_policies_def)

lemma audit_resources_outcome:
  shows "opa_inv tmpl a \<Longrightarrow> choices_ok a ids ch \<Longrightarrow>
    (if \<exists>resource \<in> set resources. bad_audit env a ids resource
     then audit_resources env ids trig ch k resources a sent = None
     else \<exists>a' rss. audit_resources env ids trig ch k resources a sent = Some (a', sent @ rss) \<and> same_policies a a' \<and>
       list_all2 audit_results resources rss)"
proof (induction resources arbitrary: a k sent)
  case Nil
  then show ?case by simp
next
  case (Cons resource rest)
  have ord: "range_order (getConstraints ids (oa_constraints a)) (fst (ch k))" using Cons.prems(2) by (simp add: choices_ok_def)
  show ?case
  proof (cases "bad_audit env a ids resource")
    case True
    then show ?thesis by (simp add: auditResource_def Audit_outcome(1) [OF Cons.prems(1) ord])
  next
    case False
    obtain rs errs where rs: "Audit env a resource ids trig (fst (ch k)) (snd (ch k)) = Some (rs, errs)" "audit_results resource rs"
      using Audit_outcome(2) [OF Cons.prems(1) ord False] by blast
    obtain a1 where a1: "UpdateCache a rs = Some a1" "same_policies a a1" using UpdateCache_total [OF rs(2)] by blast
    have "opa_inv tmpl a1" "choices_ok a1 ids ch"
      using Cons.prems opa_inv_same [OF a1(2)] choices_same [OF a1(2)] by auto
    note IH = Cons.IH [OF this, of "Suc k" "sent @ [rs]", unfolded bad_audit_same [OF a1(2)]]
    have "audit_resources env ids trig ch k (resource # rest) a sent = audit_resources env ids trig ch (Suc k) rest a1 (sent @ [rs])"
      using rs(1) a1(1) by (simp add: auditResource_def)
    then show ?thesis
      using IH False rs(2) same_policies_trans [OF a1(2)] by (fastforce split: if_splits)
  qed
qed

lemma audit_resources_total:
  assumes "string_msgs env" "opa_inv tmpl a" "choices_ok a ids ch"
  shows "\<exists>a' rss. audit_resources env ids trig ch k resources a sent = Some (a', sent @ rss) \<and> same_policies a a' \<and>
      list_all2 audit_results resources rss"
  using audit_resources_outcome [OF assms(2,3), of resources env trig k sent] string_msgs_audit [OF assms(1)] by (auto split: if_splits)

text \<open>One entity change, on the results of its audit.\<close>

definition is_news :: "('pol, 'par) OpaAuditor \<Rightarrow> 'obj Unstructured \<Rightarrow> 'obj AuditResult \<Rightarrow> bool" where
  "is_news a resource r \<longleftrightarrow>
     cache_Get (the (ar_ConstraintID r)) (getResourceKey resource) (oa_cache a) \<noteq> Some (ar_Status r)"

lemma check_is_news: "CheckResourceStatusWithConstraint a (the (ar_ConstraintID r)) resource (ar_Status r) = is_news a resource r"
  by (auto simp: CheckResourceStatusWithConstraint_def is_news_def split: option.splits)

lemma entity_change_run:
  assumes "Audit env a resource [] ''entity-change'' (fst (ch 0)) (snd (ch 0)) = Some (rs, errs)" "audit_results resource rs"
  shows "\<exists>a'. handle_event env listed ch (a, True) (EntityChange resource) = Some ((a', True), [filter (is_news a resource) rs]) \<and>
    same_policies a a' \<and> (\<forall>r \<in> set rs. \<not> is_news a' resource r) \<and>
    (\<forall>cid key. Some cid \<notin> ar_ConstraintID ` set rs \<or> key \<noteq> getResourceKey resource \<longrightarrow>
      cache_Get cid key (oa_cache a') = cache_Get cid key (oa_cache a))"
proof -
  let ?n = "filter (is_news a resource) rs"
  have "audit_results resource ?n" using assms(2) by (rule audit_results_filter)
  from UpdateCache_get [OF this, of a] obtain a' where a': "UpdateCache a ?n = Some a'" "same_policies a a'"
    and got: "\<forall>r \<in> set ?n. cache_Get (the (ar_ConstraintID r)) (getResourceKey resource) (oa_cache a') = Some (ar_Status r)"
    and other: "\<forall>cid key. Some cid \<notin> ar_ConstraintID ` set ?n \<or> key \<noteq> getResourceKey resource \<longrightarrow>
      cache_Get cid key (oa_cache a') = cache_Get cid key (oa_cache a)" by (auto simp: same_policies_def)
  have "\<not> is_news a' resource r" if r: "r \<in> set rs" for r
  proof (cases "is_news a resource r")
    case True
    then show ?thesis using got r by (simp add: is_news_def)
  next
    case False
    obtain cid where cid: "ar_ConstraintID r = Some cid" using audit_results_ids [OF assms(2)] r by fastforce
    have "r' = r" if "r' \<in> set rs" "ar_ConstraintID r' = Some cid" for r'
      using audit_results_unique [OF assms(2) r that(1)] that(2) cid by simp
    then have "Some cid \<notin> ar_ConstraintID ` set ?n" using False by (auto simp: image_iff)
    then show ?thesis using other cid False by (simp add: is_news_def)
  qed
  moreover have "handle_event env listed ch (a, True) (EntityChange resource) = Some ((a', True), [?n])"
    using assms(1) a'(1) news_filter [OF audit_results_ids [OF assms(2)], of a resource]
    by (simp add: handle_event_def auditResource_def check_is_news)
  moreover have "Some cid \<notin> ar_ConstraintID ` set ?n" if "Some cid \<notin> ar_ConstraintID ` set rs" for cid using that by auto
  ultimately show ?thesis using a'(2) other by blast
qed

text \<open>The entities that a round audits.\<close>

fun round_entities :: "'obj Unstructured list list \<Rightarrow> bool \<Rightarrow> 'obj AuditEvent \<Rightarrow> 'obj Unstructured list" where
  "round_entities listed synced (EntityChange resource) = (if synced then [resource] else [])"
| "round_entities listed synced (EntityDelete resource) = []"
| "round_entities listed synced (Unsupported t) = []"
| "round_entities listed synced _ = concat listed"

lemma entity_change_outcome:
  assumes "opa_inv tmpl a" "choices_ok a [] ch"
  shows "if bad_audit env a [] resource then handle_event env listed ch (a, True) (EntityChange resource) = None
    else \<exists>a' sent. handle_event env listed ch (a, True) (EntityChange resource) = Some ((a', True), sent) \<and> same_policies a a'"
proof -
  have ord: "range_order (getConstraints [] (oa_constraints a)) (fst (ch 0))" using assms(2) by (simp add: choices_ok_def)
  show ?thesis
  proof (cases "bad_audit env a [] resource")
    case True
    then show ?thesis by (simp add: handle_event_def auditResource_def Audit_outcome(1) [OF assms(1) ord])
  next
    case False
    obtain rs errs where "Audit env a resource [] ''entity-change'' (fst (ch 0)) (snd (ch 0)) = Some (rs, errs)" "audit_results resource rs"
      using Audit_outcome(2) [OF assms(1) ord False] by blast
    from entity_change_run [where ch = ch, OF this, of listed] show ?thesis using False by auto
  qed
qed

lemma handle_event_outcome:
  assumes "opa_inv tmpl a" "choices_ok a (event_ids e) ch"
  shows "if \<exists>resource \<in> set (round_entities listed b e). bad_audit env a (event_ids e) resource
    then handle_event env listed ch (a, b) e = None
    else \<exists>a' b' sent. handle_event env listed ch (a, b) e = Some ((a', b'), sent) \<and> same_policies a a'"
proof -
  note all = audit_resources_outcome [OF assms, of "concat listed" env "event_type e" 0 "[]"]
  show ?thesis
  proof (cases e)
    case (EntityChange resource)
    show ?thesis
    proof (cases b)
      case True
      then show ?thesis using EntityChange entity_change_outcome [OF assms(1), of ch env resource listed] assms(2)
        by (auto simp: exI [of "\<lambda>x. x" True])
    next
      case False
      then show ?thesis using EntityChange by (auto simp: handle_event_def intro: exI [of _ False])
    qed
  next
    case (EntityDelete resource)
    then show ?thesis by (simp add: handle_event_def RemoveResource_def same_policies_def)
  qed (use all in \<open>auto simp: handle_event_def auditAllResourcesAndSendData_def split: if_splits\<close>)
qed

lemma handle_event_total:
  assumes "opa_inv tmpl a" "string_msgs env" "choices_ok a (event_ids e) ch"
  shows "\<exists>a' b' sent. handle_event env listed ch (a, b) e = Some ((a', b'), sent) \<and> same_policies a a'"
  using handle_event_outcome [OF assms(1,3), of listed b env] string_msgs_audit [OF assms(2)] by (auto split: if_splits)

lemma HandleConstraints_ok:
  assumes "opa_inv tmpl a" "good_batch env tmpl cs" "int (GetConstraintsSize a + length cs) < 2 ^ 63"
  shows "\<exists>a'. HandleConstraints env a cs = Some (a',
      (if updated_ids cs (oa_constraints a) = [] then None
       else Some (if oa_constraints a = fmempty then Initial (updated_ids cs (oa_constraints a))
                  else PolicyChange (updated_ids cs (oa_constraints a)))), fmempty) \<and>
    opa_inv tmpl a' \<and> oa_constraints a' = fold apply_update cs (oa_constraints a)"
proof -
  have "GetConstraintsSize a = 0 \<longleftrightarrow> oa_constraints a = fmempty"
    by (auto simp: GetConstraintsSize_def fcard.rep_eq fmap_ext fmdom_notD)
  then show ?thesis
    using UpdateConstraints_loop_ok [OF assms, of "[]" fmempty] by (auto simp: HandleConstraints_def UpdateConstraints_def)
qed

lemma auditor_reach_inv:
  assumes "auditor_reach env tmpl st"
  shows "opa_inv tmpl (fst st)"
  using assms
proof (induction rule: auditor_reach.induct)
  case start
  then show ?case by (simp add: opa_inv_New)
next
  case (constraints a b cs a' ev errs)
  then show ?case using HandleConstraints_ok [of tmpl a env cs] by auto
next
  case (event a b e ch listed st' sent)
  then show ?case using handle_event_outcome [of tmpl a e ch listed b env] opa_inv_same by (fastforce split: if_splits)
qed

text \<open>Two audits of an entity under the same policies report the same statuses.\<close>

lemma Audit_same_statuses:
  assumes "opa_inv tmpl a" "string_msgs env" "choices_ok a [] ch" "choices_ok a [] ch'" "same_policies a a'"
    and "Audit env a resource [] trig (fst (ch 0)) (snd (ch 0)) = Some (rs, errs)"
    and "Audit env a' resource [] trig (fst (ch' 0)) (snd (ch' 0)) = Some (rs', errs')"
    and "r' \<in> set rs'"
  shows "\<exists>r \<in> set rs. ar_ConstraintID r = ar_ConstraintID r' \<and> ar_Status r = ar_Status r'"
proof -
  have own: "un_OwnerReferences resource = []"
    and par: "\<forall>p. ew_GetParents env (un_Namespace resource) (un_Kind resource) (un_Name resource) = Some (Some p) \<longrightarrow>
      un_Kind resource \<noteq> ''Pod'' \<and> un_Kind resource \<noteq> ''ReplicaSet''"
    using assms(7,8) by (auto simp: Audit_def Let_def split: if_splits)
  have inv': "opa_inv tmpl a'" using assms(1) opa_inv_same [OF assms(5)] by simp
  have ords: "range_order (getConstraints [] (oa_constraints a)) (fst (ch 0))"
    "range_order (getConstraints [] (oa_constraints a')) (fst (ch' 0))"
    using assms(3-5) by (auto simp: choices_ok_def same_policies_def)
  have eq: "oa_constraints a' = oa_constraints a" "oa_templates a' = oa_templates a"
    using assms(5) by (auto simp: same_policies_def)
  note 1 = Audit_results_gen [OF assms(1,2) ords(1) own par, of trig "snd (ch 0)"]
  note 2 = Audit_results_gen [OF inv' assms(2) ords(2) own par, of trig "snd (ch' 0)"]
  let ?Q = "\<lambda>cid st. \<exists>c. fmlookup (getConstraints [] (oa_constraints a)) cid = Some c \<and> matchEntity resource (co_Match c) \<and>
    st = eval_status (evaluate env a resource c)"
  have first: "(\<exists>r \<in> set rs. ar_ConstraintID r = Some cid \<and> ar_Status r = st) \<longleftrightarrow> ?Q cid st" for cid st
    using 1 assms(6) by auto
  have second: "(\<exists>r \<in> set rs'. ar_ConstraintID r = Some cid \<and> ar_Status r = st) \<longleftrightarrow> ?Q cid st" for cid st
    using 2 assms(7) unfolding eq by auto
  obtain cid where cid: "ar_ConstraintID r' = Some cid" using 2 assms(7,8) audit_results_ids by fastforce
  then have "?Q cid (ar_Status r')" using second [of cid "ar_Status r'"] assms(8) by blast
  then show ?thesis using first [of cid "ar_Status r'"] cid by auto
qed

text \<open>What the cache holds after a change: the current status of the matching constraints, the rest as before.\<close>

lemma cache_after_change:
  assumes all: "\<And>cid st. (\<exists>r \<in> set rs. ar_ConstraintID r = Some cid \<and> ar_Status r = st) \<longleftrightarrow>
      (\<exists>c. fmlookup (oa_constraints a) cid = Some c \<and> matchEntity resource (co_Match c) \<and> st = eval_status (evaluate env a resource c))"
    and cached: "\<forall>r \<in> set rs. \<not> is_news a' resource r"
    and other: "\<And>cid key. Some cid \<notin> ar_ConstraintID ` set rs \<or> key \<noteq> getResourceKey resource \<Longrightarrow>
      cache_Get cid key (oa_cache a') = cache_Get cid key (oa_cache a)"
  shows "cache_Get cid key (oa_cache a') = (case fmlookup (oa_constraints a) cid of
         Some c \<Rightarrow> if key = getResourceKey resource \<and> matchEntity resource (co_Match c)
           then Some (eval_status (evaluate env a resource c)) else cache_Get cid key (oa_cache a)
       | None \<Rightarrow> cache_Get cid key (oa_cache a))"
proof (cases "key = getResourceKey resource \<and> Some cid \<in> ar_ConstraintID ` set rs")
  case True
  then obtain r where r: "r \<in> set rs" "ar_ConstraintID r = Some cid" by force
  then obtain c where "fmlookup (oa_constraints a) cid = Some c" "matchEntity resource (co_Match c)"
    "ar_Status r = eval_status (evaluate env a resource c)" using all [of cid "ar_Status r"] by blast
  moreover have "cache_Get (the (ar_ConstraintID r)) (getResourceKey resource) (oa_cache a') = Some (ar_Status r)"
    using cached r(1) by (simp add: is_news_def)
  ultimately show ?thesis using r(2) True by simp
next
  case False
  then have "key \<noteq> getResourceKey resource \<or> \<not> (\<exists>c. fmlookup (oa_constraints a) cid = Some c \<and> matchEntity resource (co_Match c))"
    using all by (force simp: image_iff)
  then show ?thesis using other [of cid key] False by (auto split: option.splits)
qed

text \<open>The results of a change are those whose status is not the cached one; afterwards it is.\<close>

lemma entity_change_exact:
  assumes "opa_inv tmpl a" and "\<not> bad_policy env a [] resource" and "choices_ok a [] ch" and "audited env resource"
  shows "\<exists>a' rs. handle_event env listed ch (a, True) (EntityChange resource) = Some ((a', True), [rs]) \<and>
    same_policies a a' \<and> audit_results resource rs \<and>
    (\<forall>cid st. (\<exists>r \<in> set rs. ar_ConstraintID r = Some cid \<and> ar_Status r = st) \<longleftrightarrow>
      (\<exists>c. fmlookup (oa_constraints a) cid = Some c \<and> matchEntity resource (co_Match c) \<and>
        st = eval_status (evaluate env a resource c) \<and> cache_Get cid (getResourceKey resource) (oa_cache a) \<noteq> Some st)) \<and>
    (\<forall>cid key. cache_Get cid key (oa_cache a') =
      (case fmlookup (oa_constraints a) cid of
         Some c \<Rightarrow> if key = getResourceKey resource \<and> matchEntity resource (co_Match c)
           then Some (eval_status (evaluate env a resource c)) else cache_Get cid key (oa_cache a)
       | None \<Rightarrow> cache_Get cid key (oa_cache a)))"
proof -
  have ord: "range_order (getConstraints [] (oa_constraints a)) (fst (ch 0))" using assms(3) by (simp add: choices_ok_def)
  have own: "un_OwnerReferences resource = []"
    "\<forall>p. ew_GetParents env (un_Namespace resource) (un_Kind resource) (un_Name resource) = Some (Some p) \<longrightarrow>
      un_Kind resource \<noteq> ''Pod'' \<and> un_Kind resource \<noteq> ''ReplicaSet''" using assms(4) by (simp_all add: audited_def)
  obtain rs errs where rs: "Audit env a resource [] ''entity-change'' (fst (ch 0)) (snd (ch 0)) = Some (rs, errs)"
    "audit_results resource rs"
    and all: "\<And>cid st. (\<exists>r \<in> set rs. ar_ConstraintID r = Some cid \<and> ar_Status r = st) \<longleftrightarrow>
      (\<exists>c. fmlookup (oa_constraints a) cid = Some c \<and> matchEntity resource (co_Match c) \<and> st = eval_status (evaluate env a resource c))"
    using Audit_results_safe [OF assms(1,2) ord own, of "''entity-change''" "snd (ch 0)"] by (auto simp: getConstraints_def)
  let ?n = "filter (is_news a resource) rs"
  obtain a' where a': "handle_event env listed ch (a, True) (EntityChange resource) = Some ((a', True), [?n])" "same_policies a a'"
    "\<forall>r \<in> set rs. \<not> is_news a' resource r"
    and other: "\<And>cid key. Some cid \<notin> ar_ConstraintID ` set rs \<or> key \<noteq> getResourceKey resource \<Longrightarrow>
      cache_Get cid key (oa_cache a') = cache_Get cid key (oa_cache a)"
    using entity_change_run [where ch = ch, OF rs] by blast
  have "(\<exists>r \<in> set ?n. ar_ConstraintID r = Some cid \<and> ar_Status r = st) \<longleftrightarrow>
      (\<exists>c. fmlookup (oa_constraints a) cid = Some c \<and> matchEntity resource (co_Match c) \<and>
        st = eval_status (evaluate env a resource c) \<and> cache_Get cid (getResourceKey resource) (oa_cache a) \<noteq> Some st)" for cid st
  proof -
    have "(\<exists>r \<in> set ?n. ar_ConstraintID r = Some cid \<and> ar_Status r = st) \<longleftrightarrow>
        (\<exists>r \<in> set rs. ar_ConstraintID r = Some cid \<and> ar_Status r = st) \<and> cache_Get cid (getResourceKey resource) (oa_cache a) \<noteq> Some st"
      by (force simp: is_news_def)
    then show ?thesis using all [of cid st] by auto
  qed
  then show ?thesis using a'(1,2) audit_results_filter [OF rs(2)] cache_after_change [OF all a'(3) other] by blast
qed

lemma entity_change_effect:
  assumes "opa_inv tmpl a" and "string_msgs env" and "choices_ok a [] ch" and "audited env resource"
  shows "\<exists>a' rs. handle_event env listed ch (a, True) (EntityChange resource) = Some ((a', True), [rs]) \<and>
    (\<forall>cid c. fmlookup (oa_constraints a) cid = Some c \<and> matchEntity resource (co_Match c) \<longrightarrow>
      ((\<exists>r \<in> set rs. ar_ConstraintID r = Some cid) \<longleftrightarrow>
        cache_Get cid (getResourceKey resource) (oa_cache a) \<noteq> Some (eval_status (evaluate env a resource c))) \<and>
      cache_Get cid (getResourceKey resource) (oa_cache a') = Some (eval_status (evaluate env a resource c)))"
proof -
  obtain a' rs where run: "handle_event env listed ch (a, True) (EntityChange resource) = Some ((a', True), [rs])"
    and rs: "\<And>cid st. (\<exists>r \<in> set rs. ar_ConstraintID r = Some cid \<and> ar_Status r = st) \<longleftrightarrow>
      (\<exists>c. fmlookup (oa_constraints a) cid = Some c \<and> matchEntity resource (co_Match c) \<and>
        st = eval_status (evaluate env a resource c) \<and> cache_Get cid (getResourceKey resource) (oa_cache a) \<noteq> Some st)"
    and cache: "\<And>cid key. cache_Get cid key (oa_cache a') = (case fmlookup (oa_constraints a) cid of
         Some c \<Rightarrow> if key = getResourceKey resource \<and> matchEntity resource (co_Match c)
           then Some (eval_status (evaluate env a resource c)) else cache_Get cid key (oa_cache a)
       | None \<Rightarrow> cache_Get cid key (oa_cache a))"
    using entity_change_exact [OF assms(1) string_msgs_policy [OF assms(2)] assms(3,4)] by blast
  have "((\<exists>r \<in> set rs. ar_ConstraintID r = Some cid) \<longleftrightarrow>
        cache_Get cid (getResourceKey resource) (oa_cache a) \<noteq> Some (eval_status (evaluate env a resource c))) \<and>
      cache_Get cid (getResourceKey resource) (oa_cache a') = Some (eval_status (evaluate env a resource c))"
    if "fmlookup (oa_constraints a) cid = Some c \<and> matchEntity resource (co_Match c)" for cid c
    using that rs [of cid] cache [of cid] by auto
  then show ?thesis using run by blast
qed

subsection \<open>Properties\<close>

text \<open>C25: The one way in which the worker panics. Batches of constraints that parse and do not change a template,
  and rounds of the worker, follow one another in any order (for a batch that overlaps a round see
  \<open>Auditor_Race\<close>); then constraints and templates are consistent in every state, and the next event, whatever it is
  and whatever the cluster contains, panics if and only if the round evaluates, for an entity that it does not
  skip, a chosen matching constraint whose policy reports a message that is not a string.\<close>

theorem auditor_panics_iff:
  assumes "auditor_reach env tmpl (a, b)" and "choices_ok a (event_ids e) ch"
  shows "opa_inv tmpl a \<and>
    (handle_event env listed ch (a, b) e = None \<longleftrightarrow>
      (\<exists>resource \<in> set (round_entities listed b e). audited env resource \<and>
        (\<exists>cid c. fmlookup (getConstraints (event_ids e) (oa_constraints a)) cid = Some c \<and>
          matchEntity resource (co_Match c) \<and> bad_message (evaluate env a resource c))))"
proof -
  have inv: "opa_inv tmpl a" using auditor_reach_inv [OF assms(1)] by simp
  show ?thesis using inv handle_event_outcome [OF inv assms(2), of listed b env]
    by (auto simp: bad_audit_def bad_policy_def split: if_splits)
qed

text \<open>The engine of the examples, and one whose violations carry a message that is not a string.\<close>

definition demo_bad_core :: "(string, unit, unit, unit) opa_core" where
  "demo_bad_core = demo_core\<lparr>opa_Eval := (\<lambda>p obj par q. if p = ''deny'' then Some (OPAError (DetailsMap (fmupd ''msg'' (IOther ()) fmempty))) else None)\<rparr>"

lemma demo_auditor_reach:
  assumes "opa_Parse env ''deny'' PolicyQuery = Inr ''deny''"
  shows "auditor_reach env (\<lambda>_. ''t'') (demo_auditor, False)"
proof (rule auditor_reach.constraints [OF auditor_reach.start])
  let ?c = "demo_constraint ''c'' ''t'' ''deny'' 1"
  show "good_batch env (\<lambda>_. ''t'') [?c]" using assms by (simp add: good_batch_def demo_constraint_def)
  show "int (GetConstraintsSize opa_New + length [?c]) < 2 ^ 63" by (simp add: GetConstraintsSize_def opa_New_def fcard.rep_eq)
  show "HandleConstraints env opa_New [?c] = Some (demo_auditor, Some (Initial [''c'']), fmempty)"
    using assms by (simp add: HandleConstraints_def GetConstraintsSize_def UpdateConstraints_def UpdateConstraint_def demo_auditor_def
        opa_New_def demo_constraint_def stored_template_def Let_def add_constraint_def set_template_def fcard.rep_eq cache_RemoveConstraint_def NewAuditResultsCache_def)
qed

theorem auditor_panics_iff_witness:
  "auditor_reach demo_core (\<lambda>_. ''t'') (demo_auditor, False) \<and>
    handle_event demo_core [[demo_entity]] (\<lambda>_. ([''c''], \<lambda>_. [])) (demo_auditor, False) Command \<noteq> None \<and>
    handle_event demo_bad_core [[demo_entity]] (\<lambda>_. ([''c''], \<lambda>_. [])) (demo_auditor, False) Command = None"
proof -
  let ?ch = "\<lambda>_ :: nat. ([''c''], \<lambda>_ :: nat. [] :: char list)" and ?c = "stored_constraint (demo_constraint ''c'' ''t'' ''deny'' 1)"
  have ok: "choices_ok demo_auditor (event_ids Command) ?ch" by (simp add: choices_ok_def range_order_def getConstraints_def)
  have reach: "auditor_reach demo_core (\<lambda>_. ''t'') (demo_auditor, False)" "auditor_reach demo_bad_core (\<lambda>_. ''t'') (demo_auditor, False)"
    by (rule demo_auditor_reach; simp add: demo_core_def demo_bad_core_def)+
  have "\<not> bad_message (evaluate demo_core demo_auditor demo_entity c)" for c using string_msgs_good [OF string_msgs_demo] .
  then have "handle_event demo_core [[demo_entity]] ?ch (demo_auditor, False) Command \<noteq> None"
    using auditor_panics_iff [OF reach(1) ok, of "[[demo_entity]]"] by simp
  moreover have bad: "audited demo_bad_core demo_entity" "matchEntity demo_entity (co_Match ?c)" "bad_message (evaluate demo_bad_core demo_auditor demo_entity ?c)"
    "fmlookup (getConstraints (event_ids (Command :: unit AuditEvent)) (oa_constraints demo_auditor)) ''c'' = Some ?c"
    by (simp_all add: audited_def demo_bad_core_def demo_audit_defs matchEntity_def demo_auditor_def stored_template_def getConstraints_def
        set_template_def add_constraint_def opa_New_def stored_constraint_def)
  then have "handle_event demo_bad_core [[demo_entity]] ?ch (demo_auditor, False) Command = None"
    using auditor_panics_iff [OF reach(2) ok, of "[[demo_entity]]"] bexI [of _ demo_entity "set (round_entities [[demo_entity]] False Command)"]
    by fastforce
  ultimately show ?thesis using reach(1) by simp
qed

text \<open>C26: Once the entities are synchronised, a change of an entity that is audited sends, in one call, exactly one
  result for each matching constraint whose current status differs from the cached one, with that status, and
  nothing for any other constraint; every result names the entity. Afterwards the cache holds the current status
  for the matching constraints and is otherwise unchanged.\<close>

theorem entity_change_sends_changes:
  assumes "opa_inv tmpl a" and "\<not> bad_policy env a [] resource" and "choices_ok a [] ch" and "audited env resource"
  shows "\<exists>a' rs. handle_event env listed ch (a, True) (EntityChange resource) = Some ((a', True), [rs]) \<and>
    same_policies a a' \<and> audit_results resource rs \<and>
    (\<forall>cid st. (\<exists>r \<in> set rs. ar_ConstraintID r = Some cid \<and> ar_Status r = st) \<longleftrightarrow>
      (\<exists>c. fmlookup (oa_constraints a) cid = Some c \<and> matchEntity resource (co_Match c) \<and>
        st = eval_status (evaluate env a resource c) \<and> cache_Get cid (getResourceKey resource) (oa_cache a) \<noteq> Some st)) \<and>
    (\<forall>cid key. cache_Get cid key (oa_cache a') =
      (case fmlookup (oa_constraints a) cid of
         Some c \<Rightarrow> if key = getResourceKey resource \<and> matchEntity resource (co_Match c)
           then Some (eval_status (evaluate env a resource c)) else cache_Get cid key (oa_cache a)
       | None \<Rightarrow> cache_Get cid key (oa_cache a)))"
  using assms by (rule entity_change_exact)

theorem entity_change_sends_changes_witness:
  "\<exists>a' rs. handle_event demo_core [] (\<lambda>_. ([''c''], \<lambda>_. [])) (demo_auditor, True) (EntityChange demo_entity) = Some ((a', True), [rs]) \<and>
    (\<exists>r \<in> set rs. ar_ConstraintID r = Some ''c'' \<and> ar_Status r = ''Violation'') \<and>
    cache_Get ''c'' (getResourceKey demo_entity) (oa_cache a') = Some ''Violation''"
proof -
  let ?c = "stored_constraint (demo_constraint ''c'' ''t'' ''deny'' 1)"
  have ok: "choices_ok demo_auditor [] (\<lambda>_. ([''c''], \<lambda>_. []))" by (simp add: choices_ok_def range_order_def getConstraints_def)
  have ev: "eval_status (evaluate demo_core demo_auditor demo_entity ?c) = ''Violation''"
    by (simp add: demo_constraint_def demo_auditor_def demo_core_def eval_status_def stored_template_def status_defs)
  have m: "matchEntity demo_entity (co_Match ?c)" by (simp add: matchEntity_def demo_constraint_def any_match_def stored_constraint_def)
  have fresh: "cache_Get ''c'' (getResourceKey demo_entity) (oa_cache demo_auditor) = None"
    by (simp add: demo_auditor_def add_constraint_def set_template_def opa_New_def NewAuditResultsCache_def cache_Get_def)
  have "audited demo_core demo_entity" by (simp add: audited_def demo_entity_def)
  from entity_change_sends_changes [OF opa_inv_demo string_msgs_policy [OF string_msgs_demo] ok this, of "[]"]
  obtain a' rs where run: "handle_event demo_core [] (\<lambda>_. ([''c''], \<lambda>_. [])) (demo_auditor, True) (EntityChange demo_entity) = Some ((a', True), [rs])"
    and sent: "\<And>cid st. (\<exists>r \<in> set rs. ar_ConstraintID r = Some cid \<and> ar_Status r = st) \<longleftrightarrow>
      (\<exists>c. fmlookup (oa_constraints demo_auditor) cid = Some c \<and> matchEntity demo_entity (co_Match c) \<and>
        st = eval_status (evaluate demo_core demo_auditor demo_entity c) \<and>
        cache_Get cid (getResourceKey demo_entity) (oa_cache demo_auditor) \<noteq> Some st)"
    and cache: "\<And>cid key. cache_Get cid key (oa_cache a') = (case fmlookup (oa_constraints demo_auditor) cid of
         Some c \<Rightarrow> if key = getResourceKey demo_entity \<and> matchEntity demo_entity (co_Match c)
           then Some (eval_status (evaluate demo_core demo_auditor demo_entity c)) else cache_Get cid key (oa_cache demo_auditor)
       | None \<Rightarrow> cache_Get cid key (oa_cache demo_auditor))" by blast
  have "\<exists>r \<in> set rs. ar_ConstraintID r = Some ''c'' \<and> ar_Status r = ''Violation''"
    unfolding sent using ev m fresh by (intro exI [of _ ?c]) simp
  moreover have "cache_Get ''c'' (getResourceKey demo_entity) (oa_cache a') = Some ''Violation''" using cache [of "''c''"] ev m by simp
  ultimately show ?thesis using run by blast
qed

text \<open>A second change event for an entity whose statuses are the same sends an empty list of
  results: repeated events (such as those of a resync) cause no repeated results.\<close>

theorem repeated_change_sends_nothing:
  assumes "opa_inv tmpl a" and "string_msgs env" and "choices_ok a [] ch" and "choices_ok a [] ch'"
    and "handle_event env listed ch (a, True) (EntityChange resource) = Some ((a', True), sent)"
  shows "\<exists>a''. handle_event env listed ch' (a', True) (EntityChange resource) = Some ((a'', True), [[]])"
proof -
  have ord: "range_order (getConstraints [] (oa_constraints a)) (fst (ch 0))" using assms(3) by (simp add: choices_ok_def)
  obtain rs errs where rs: "Audit env a resource [] ''entity-change'' (fst (ch 0)) (snd (ch 0)) = Some (rs, errs)" "audit_results resource rs"
    using Audit_total [OF assms(1,2) ord] by blast
  have a': "same_policies a a'" "\<forall>r \<in> set rs. \<not> is_news a' resource r"
    using entity_change_run [where ch = ch, OF rs, of listed] assms(5) by auto
  have inv': "opa_inv tmpl a'" "range_order (getConstraints [] (oa_constraints a')) (fst (ch' 0))"
    using assms(1,4) opa_inv_same [OF a'(1)] choices_same [OF a'(1), of "[]" ch'] by (auto simp: choices_ok_def)
  obtain rs' errs' where rs': "Audit env a' resource [] ''entity-change'' (fst (ch' 0)) (snd (ch' 0)) = Some (rs', errs')"
    "audit_results resource rs'" using Audit_total [OF inv'(1) assms(2) inv'(2)] by blast
  have "\<not> is_news a' resource r'" if "r' \<in> set rs'" for r'
    using Audit_same_statuses [OF assms(1-4) a'(1) rs(1) rs'(1) that] a'(2) by (auto simp: is_news_def)
  then have "filter (is_news a' resource) rs' = []" by simp
  then show ?thesis using entity_change_run [where ch = ch', OF rs', of listed] by auto
qed

theorem repeated_change_sends_nothing_witness:
  "\<exists>a' sent a''. handle_event demo_core [] (\<lambda>_. ([''c''], \<lambda>_. [])) (demo_auditor, True) (EntityChange demo_entity) = Some ((a', True), sent) \<and>
    handle_event demo_core [] (\<lambda>_. ([''c''], \<lambda>_. [])) (a', True) (EntityChange demo_entity) = Some ((a'', True), [[]])"
proof -
  have ok: "choices_ok demo_auditor [] (\<lambda>_. ([''c''], \<lambda>_. []))" by (simp add: choices_ok_def range_order_def getConstraints_def)
  have ord: "range_order (getConstraints [] (oa_constraints demo_auditor)) [''c'']" using ok by (simp add: choices_ok_def)
  obtain rs errs where "Audit demo_core demo_auditor demo_entity [] ''entity-change'' [''c''] (\<lambda>_. []) = Some (rs, errs)"
    "audit_results demo_entity rs" using Audit_total [OF opa_inv_demo string_msgs_demo ord] by blast
  then obtain a' sent where run: "handle_event demo_core [] (\<lambda>_. ([''c''], \<lambda>_. [])) (demo_auditor, True) (EntityChange demo_entity) = Some ((a', True), sent)"
    using entity_change_run [of demo_core demo_auditor demo_entity "\<lambda>_. ([''c''], \<lambda>_. [])" rs errs "[]"] by auto
  show ?thesis using repeated_change_sends_nothing [OF opa_inv_demo string_msgs_demo ok ok run] run by blast
qed

end
