(* ===== verification/Client_Logs.thy ===== *)
theory Client_Logs
  imports Pipe_Workers
begin

text \<open>
  \<open>client/logging.go\<close> and \<open>Client.Pipe\<close> of \<open>client/client.go\<close>: the log sink that collects lines into
  packages of five.

  The pipe that takes the packages is a parameter \<open>send\<close> over a state \<open>'s\<close>, so that the same
  definitions run on the pipe of \<open>Pipe_Workers\<close> and on a sender that records its calls. The mutex
  \<open>logM\<close> makes \<open>Write\<close> atomic; \<open>Sync\<close> does not take it.
\<close>

subsection \<open>Packages\<close>

type_synonym ('d, 's) pipe_sender = "'d Package \<Rightarrow> 's \<Rightarrow> ('s \<times> int) option"

definition second :: go_duration where "second = 10 ^ 9"
definition minute :: go_duration where "minute = 60 * second"

definition utils_After :: "go_time \<Rightarrow> go_duration \<Rightarrow> go_time option" where
  "utils_After now d = Some (now + d)"

text \<open>A \<open>Package\<close> literal of another package: the unexported fields are zero.\<close>

definition new_package :: "PacketKind \<Rightarrow> go_time option \<Rightarrow> int \<Rightarrow> int \<Rightarrow> int \<Rightarrow> 'd \<Rightarrow> 'd Package" where
  "new_package kind expiryTime expiryCount priority retries data =
     \<lparr>pk_Kind = kind, pk_ExpiryTime = expiryTime, pk_ExpiryCount = expiryCount, pk_Priority = priority,
      pk_Retries = retries, pk_retries = 0, pk_index = 0, pk_time = 0, pk_Data = data\<rparr>"

text \<open>\<open>Client.Pipe\<close>: the error is the number of dropped packages.\<close>

definition client_Pipe :: "('d, 's) pipe_sender \<Rightarrow> 'd Package \<Rightarrow> 's \<Rightarrow> ('s \<times> int option) option" where
  "client_Pipe send pack st = do {
     (st', i) \<leftarrow> send pack st;
     Some (st', if i > 0 then Some i else None) }"

subsection \<open>The log sink\<close>

record PacketLogItem =
  li_Date :: go_time
  li_Data :: string

type_synonym PacketLogs = "PacketLogItem list"

record 's LogClient =
  lc_shouldSendLogs :: bool
  lc_logBuffer :: PacketLogs
  lc_pipe :: 's

definition logBatchSize :: nat where "logBatchSize = 5"
definition logExpiryPeriod :: go_duration where "logExpiryPeriod = 10 * minute"
definition logExpiryCount :: int where "logExpiryCount = 2"
definition logPriority :: int where "logPriority = 9"
definition logRetryCount :: int where "logRetryCount = 4"

definition PacketKindLogs :: PacketKind where "PacketKindLogs = ''logs''"

definition log_package :: "go_time \<Rightarrow> PacketLogs \<Rightarrow> PacketLogs Package" where
  "log_package now payload =
     new_package PacketKindLogs (utils_After now logExpiryPeriod) logExpiryCount logPriority logRetryCount payload"

definition flushLogs :: "(PacketLogs, 's) pipe_sender \<Rightarrow> go_time \<Rightarrow> 's LogClient \<Rightarrow> ('s LogClient \<times> int option) option" where
  "flushLogs send now c = do {
     let payload = lc_logBuffer c;
     let c1 = c\<lparr>lc_logBuffer := []\<rparr>;
     (st', err) \<leftarrow> client_Pipe send (log_package now payload) (lc_pipe c1);
     Some (c1\<lparr>lc_pipe := st'\<rparr>, err) }"

definition client_Write :: "(PacketLogs, 's) pipe_sender \<Rightarrow> go_time \<Rightarrow> go_time \<Rightarrow> string \<Rightarrow> 's LogClient \<Rightarrow>
    ('s LogClient \<times> int \<times> int option) option" where
  "client_Write send now now' p c =
     (if lc_shouldSendLogs c then
        (let c1 = c\<lparr>lc_logBuffer := lc_logBuffer c @ [\<lparr>li_Date = now, li_Data = p\<rparr>]\<rparr> in
         if length (lc_logBuffer c1) = logBatchSize then do {
           (c2, err) \<leftarrow> flushLogs send now' c1;
           Some (c2, int (length (lc_logBuffer c2)), err) }
         else Some (c1, int (length (lc_logBuffer c1)), None))
      else Some (c, int (length (lc_logBuffer c)), None))"

definition client_Sync :: "(PacketLogs, 's) pipe_sender \<Rightarrow> go_time \<Rightarrow> 's LogClient \<Rightarrow> ('s LogClient \<times> int option) option" where
  "client_Sync send now c = flushLogs send now c"

text \<open>A sequence of writes, each with its two clock readings and its line.\<close>

fun write_all :: "(PacketLogs, 's) pipe_sender \<Rightarrow> (go_time \<times> go_time \<times> string) list \<Rightarrow> 's LogClient \<Rightarrow> 's LogClient option" where
  "write_all send [] c = Some c"
| "write_all send ((now, now', p) # ws) c = do {
     (c', _, _) \<leftarrow> client_Write send now now' p c;
     write_all send ws c' }"

text \<open>A sender that records the packages; \<open>d k\<close> is the number of drops it reports for the \<open>k\<close>-th.\<close>

definition recorder :: "(nat \<Rightarrow> int) \<Rightarrow> ('d, 'd Package list) pipe_sender" where
  "recorder d pack sent = Some (sent @ [pack], d (length sent))"

subsection \<open>Lemmas\<close>

definition log_items :: "(go_time \<times> go_time \<times> string) list \<Rightarrow> PacketLogs" where
  "log_items ws = map (\<lambda>(now, now', p). \<lparr>li_Date = now, li_Data = p\<rparr>) ws"

definition full_log_package :: "PacketLogs Package \<Rightarrow> bool" where
  "full_log_package pkg \<longleftrightarrow> length (pk_Data pkg) = logBatchSize \<and> (\<exists>now. pkg = log_package now (pk_Data pkg))"

lemma pk_Data_log_package [simp]: "pk_Data (log_package now payload) = payload"
  by (simp add: log_package_def new_package_def)

lemma write_all_recorder:
  assumes "lc_shouldSendLogs c" "length (lc_logBuffer c) < logBatchSize"
  shows "\<exists>c'. write_all (recorder d) ws c = Some c' \<and> length (lc_logBuffer c') < logBatchSize \<and>
    (\<exists>new. lc_pipe c' = lc_pipe c @ new \<and> (\<forall>pkg \<in> set new. full_log_package pkg) \<and>
      concat (map pk_Data new) @ lc_logBuffer c' = lc_logBuffer c @ log_items ws)"
  using assms
proof (induction ws arbitrary: c)
  case Nil
  then show ?case by (auto simp: log_items_def)
next
  case (Cons w ws)
  obtain now now' p where w: "w = (now, now', p)" by (metis prod_cases3)
  let ?item = "\<lparr>li_Date = now, li_Data = p\<rparr>"
  let ?c1 = "c\<lparr>lc_logBuffer := lc_logBuffer c @ [?item]\<rparr>"
  show ?case
  proof (cases "Suc (length (lc_logBuffer c)) = logBatchSize")
    case True
    let ?pkg = "log_package now' (lc_logBuffer c @ [?item])"
    let ?c2 = "c\<lparr>lc_logBuffer := [], lc_pipe := lc_pipe c @ [?pkg]\<rparr>"
    have run: "write_all (recorder d) (w # ws) c = write_all (recorder d) ws ?c2"
      using True Cons.prems(1) by (simp add: w client_Write_def flushLogs_def client_Pipe_def recorder_def Let_def)
    have "full_log_package ?pkg" using True by (auto simp: full_log_package_def)
    moreover have "lc_shouldSendLogs ?c2" "length (lc_logBuffer ?c2) < logBatchSize" using Cons.prems by (auto simp: logBatchSize_def)
    from Cons.IH [OF this] obtain c' new where "write_all (recorder d) ws ?c2 = Some c'" "length (lc_logBuffer c') < logBatchSize"
      "lc_pipe c' = (lc_pipe c @ [?pkg]) @ new" "\<forall>pkg \<in> set new. full_log_package pkg"
      "concat (map pk_Data new) @ lc_logBuffer c' = log_items ws" by auto
    ultimately show ?thesis using run by (intro exI [of _ c'] conjI exI [of _ "?pkg # new"]) (auto simp: w log_items_def)
  next
    case False
    have run: "write_all (recorder d) (w # ws) c = write_all (recorder d) ws ?c1"
      using False Cons.prems(1) by (simp add: w client_Write_def Let_def)
    have "lc_shouldSendLogs ?c1" "length (lc_logBuffer ?c1) < logBatchSize" using Cons.prems False by auto
    from Cons.IH [OF this] show ?thesis unfolding run by (auto simp: w log_items_def)
  qed
qed

subsection \<open>Properties\<close>

text \<open>C38: Log lines are neither lost nor duplicated nor reordered on the way to the pipe: after any
  sequence of writes the packages handed to the pipe, in order, followed by the buffer are exactly the
  lines written; each package holds five lines with the log kind, priority and expiry; and the buffer
  holds fewer than five. A \<open>Sync\<close> then hands over one more package, the rest of the lines, and leaves the
  buffer empty; it reports an error exactly when the pipe reports drops.\<close>

theorem logs_complete:
  assumes "lc_shouldSendLogs c" and "lc_logBuffer c = []" and "lc_pipe c = []"
  shows "\<exists>c' c''. write_all (recorder d) ws c = Some c' \<and>
    concat (map pk_Data (lc_pipe c')) @ lc_logBuffer c' = log_items ws \<and>
    (\<forall>pkg \<in> set (lc_pipe c'). full_log_package pkg) \<and> length (lc_logBuffer c') < logBatchSize \<and>
    client_Sync (recorder d) now c' =
      Some (c'', if d (length (lc_pipe c')) > 0 then Some (d (length (lc_pipe c'))) else None) \<and>
    lc_pipe c'' = lc_pipe c' @ [log_package now (lc_logBuffer c')] \<and> lc_logBuffer c'' = [] \<and>
    concat (map pk_Data (lc_pipe c'')) = log_items ws"
proof -
  obtain c' where c': "write_all (recorder d) ws c = Some c'" "concat (map pk_Data (lc_pipe c')) @ lc_logBuffer c' = log_items ws"
    "\<forall>pkg \<in> set (lc_pipe c'). full_log_package pkg" "length (lc_logBuffer c') < logBatchSize"
    using write_all_recorder [of c d ws] assms by (auto simp: logBatchSize_def)
  show ?thesis
    by (intro exI [of _ c'] exI [of _ "c'\<lparr>lc_logBuffer := [], lc_pipe := lc_pipe c' @ [log_package now (lc_logBuffer c')]\<rparr>"])
      (use c' in \<open>simp add: client_Sync_def flushLogs_def client_Pipe_def recorder_def\<close>)
qed

theorem logs_complete_witness:
  "\<exists>c' c'' err. write_all (recorder (\<lambda>_. 0)) (replicate 7 (1, 2, ''line'')) \<lparr>lc_shouldSendLogs = True, lc_logBuffer = [], lc_pipe = []\<rparr> = Some c' \<and>
    client_Sync (recorder (\<lambda>_. 0)) 3 c' = Some (c'', err) \<and> err = None \<and> lc_logBuffer c'' = [] \<and>
    concat (map pk_Data (lc_pipe c'')) = log_items (replicate 7 (1, 2, ''line''))"
  using logs_complete [of "\<lparr>lc_shouldSendLogs = True, lc_logBuffer = [], lc_pipe = []\<rparr>" "\<lambda>_. 0" "replicate 7 (1, 2, ''line'')" 3]
  by fastforce

text \<open>Writing a log line never panics when the packages go to a pipe in a consistent state, and it
  leaves the pipe consistent. What \<open>Write\<close> returns as number of bytes is the number of buffered lines
  instead: 0 for every line that completes a batch, whatever its length.\<close>

theorem Write_to_pipe:
  assumes "pipe_inv n (lc_pipe c)" and "lc_shouldSendLogs c" and "length (lc_logBuffer c) < logBatchSize"
  shows "\<exists>c' err. client_Write (pipe_Send t now) now1 now2 p c = Some (c', int (length (lc_logBuffer c')), err) \<and>
    pipe_inv n (lc_pipe c') \<and>
    length (lc_logBuffer c') = (if Suc (length (lc_logBuffer c)) = logBatchSize then 0 else Suc (length (lc_logBuffer c)))"
proof (cases "Suc (length (lc_logBuffer c)) = logBatchSize")
  case True
  let ?pkg = "log_package now2 (lc_logBuffer c @ [\<lparr>li_Date = now1, li_Data = p\<rparr>])"
  obtain q ret where "pipe_Send t now ?pkg (lc_pipe c) = Some (q, ret)" "pipe_inv n q"
    using pipe_Send_total [OF assms(1)] by blast
  then show ?thesis using assms(2) True by (simp add: client_Write_def flushLogs_def client_Pipe_def Let_def)
next
  case False
  then show ?thesis using assms by (simp add: client_Write_def Let_def)
qed

theorem Write_to_pipe_witness:
  "\<exists>c' err. client_Write (pipe_Send 1 1) 1 1 ''a long line''
      \<lparr>lc_shouldSendLogs = True, lc_logBuffer = replicate 4 \<lparr>li_Date = 1, li_Data = ''x''\<rparr>,
       lc_pipe = sleepers (\<lambda>_. log_package 0 []) 10 0\<rparr> = Some (c', 0, err)"
proof -
  let ?c = "\<lparr>lc_shouldSendLogs = True, lc_logBuffer = replicate 4 \<lparr>li_Date = 1, li_Data = ''x''\<rparr>,
    lc_pipe = sleepers (\<lambda>_. log_package 0 []) 10 0\<rparr>"
  have "pipe_inv 10 (lc_pipe ?c)" using pipe_reach_inv [OF sleepers_start] by simp
  from Write_to_pipe [OF this, of 1 1 1 1 "''a long line''"] show ?thesis by (auto simp: logBatchSize_def)
qed

end
