(* ===== verification/Gateway.thy ===== *)
theory Gateway
  imports Client_Logs Governance_Data
begin

text \<open>
  \<open>gateway/governance.go\<close>, \<open>gateway/restart.go\<close> and \<open>gateway/log-level.go\<close>: the worker that batches audit
  results and the listeners for packets from the server.

  The worker's \<open>select\<close> is a step function on the event that fires: a result received from the
  channel, or the timer. The buffer's backing array has the capacity of a batch and is reused, but the
  results are converted to packets before the reset, so a list stands for it. The listeners get the
  decoder and the handlers as parameters.
\<close>

subsection \<open>Sending audit results\<close>

definition auditResultsBatchSize :: nat where "auditResultsBatchSize = 1000"
definition auditResultPacketExpireAfter :: go_duration where "auditResultPacketExpireAfter = 30 * minute"
definition auditResultPacketExpireCount :: int where "auditResultPacketExpireCount = 0"
definition auditResultPacketPriority :: int where "auditResultPacketPriority = 1"
definition auditResultPacketRetries :: int where "auditResultPacketRetries = 5"
definition PacketKindAuditResultRequest :: PacketKind where "PacketKindAuditResultRequest = ''audit/result''"

definition audit_package :: "go_time \<Rightarrow> go_time \<Rightarrow> 'obj AuditResult list \<Rightarrow> 'obj PacketAuditResultRequest Package" where
  "audit_package now now' auditResult =
     new_package PacketKindAuditResultRequest (utils_After now' auditResultPacketExpireAfter)
       auditResultPacketExpireCount auditResultPacketPriority auditResultPacketRetries
       \<lparr>pr_Items = map ToPacket auditResult, pr_Timestamp = now\<rparr>"

text \<open>An error of \<open>Pipe\<close> is only logged.\<close>

definition SendAuditResultsBatch :: "('obj PacketAuditResultRequest, 's) pipe_sender \<Rightarrow> go_time \<Rightarrow> go_time \<Rightarrow>
    'obj AuditResult list \<Rightarrow> 's \<Rightarrow> 's option" where
  "SendAuditResultsBatch send now now' auditResult st =
     map_option fst (client_Pipe send (audit_package now now' auditResult) st)"

datatype 'obj worker_event = ResultReceived "'obj AuditResult" | TimerFired

text \<open>One round of the loop of \<open>SendAuditResultsWorker\<close>, with the clock readings it may take.\<close>

fun SendAuditResultsWorker_step :: "('obj PacketAuditResultRequest, 's) pipe_sender \<Rightarrow> go_time \<Rightarrow> go_time \<Rightarrow>
    'obj worker_event \<Rightarrow> 'obj AuditResult list \<times> 's \<Rightarrow> ('obj AuditResult list \<times> 's) option" where
  "SendAuditResultsWorker_step send now now' (ResultReceived r) (buffer, st) =
     (let buffer1 = buffer @ [r] in
      if length buffer1 = auditResultsBatchSize then do {
        st' \<leftarrow> SendAuditResultsBatch send now now' buffer1 st;
        Some ([], st') }
      else Some (buffer1, st))"
| "SendAuditResultsWorker_step send now now' TimerFired (buffer, st) =
     (if length buffer > 0 then do {
        st' \<leftarrow> SendAuditResultsBatch send now now' buffer st;
        Some ([], st') }
      else Some (buffer, st))"

fun SendAuditResultsWorker :: "('obj PacketAuditResultRequest, 's) pipe_sender \<Rightarrow>
    (go_time \<times> go_time \<times> 'obj worker_event) list \<Rightarrow> 'obj AuditResult list \<times> 's \<Rightarrow> ('obj AuditResult list \<times> 's) option" where
  "SendAuditResultsWorker send [] g = Some g"
| "SendAuditResultsWorker send ((now, now', e) # es) g = do {
     g' \<leftarrow> SendAuditResultsWorker_step send now now' e g;
     SendAuditResultsWorker send es g' }"

subsection \<open>Listeners\<close>

text \<open>A listener answers with bytes or an error; \<open>decode\<close> is \<open>proto.DecodeSnappy\<close> at the packet's type and
  \<open>response\<close> the outcome of encoding an empty response. Errors of the constraints handler are only
  logged.\<close>

definition constraints_listener :: "('bytes \<Rightarrow> string + 'par PacketConstraintItem list) \<Rightarrow> (string + 'bytes) \<Rightarrow>
    ('par AgentConstraint list \<Rightarrow> 's \<Rightarrow> ('s \<times> (string, string) fmap) option) \<Rightarrow> 'bytes \<Rightarrow> 's \<Rightarrow> ('s \<times> (string + 'bytes)) option" where
  "constraints_listener decode response addConstraints input st =
     (case decode input of
        Inl err \<Rightarrow> Some (st, Inl err)
      | Inr items \<Rightarrow> do {
          (st', errMap) \<leftarrow> addConstraints (map constraint_of_packet items) st;
          Some (st', response) })"

definition audit_command_listener :: "('s \<Rightarrow> ('s \<times> string option) option) \<Rightarrow> 'bytes \<Rightarrow> 's \<Rightarrow> ('s \<times> string option) option" where
  "audit_command_listener handleAuditCommand input st = handleAuditCommand st"

definition restart_listener :: "('bytes \<Rightarrow> string option) \<Rightarrow> ('s \<Rightarrow> ('s \<times> string option) option) \<Rightarrow> 'bytes \<Rightarrow> 's \<Rightarrow>
    ('s \<times> string option) option" where
  "restart_listener decode triggerRestart input st =
     (case decode input of Some err \<Rightarrow> Some (st, Some err) | None \<Rightarrow> triggerRestart st)"

definition log_level_listener :: "('bytes \<Rightarrow> string + string) \<Rightarrow> (string \<Rightarrow> 's \<Rightarrow> ('s \<times> string option) option) \<Rightarrow> 'bytes \<Rightarrow> 's \<Rightarrow>
    ('s \<times> string option) option" where
  "log_level_listener decode changeLogLevel input st =
     (case decode input of Inl err \<Rightarrow> Some (st, Some err) | Inr level \<Rightarrow> changeLogLevel level st)"

subsection \<open>Lemmas\<close>

fun received :: "(go_time \<times> go_time \<times> 'obj worker_event) list \<Rightarrow> 'obj AuditResult list" where
  "received [] = []"
| "received ((_, _, ResultReceived r) # es) = r # received es"
| "received ((_, _, TimerFired) # es) = received es"

definition batch_items :: "'obj PacketAuditResultRequest Package \<Rightarrow> 'obj PacketAuditResultItem list" where
  "batch_items pkg = pr_Items (pk_Data pkg)"

definition good_audit_package :: "'obj PacketAuditResultRequest Package \<Rightarrow> bool" where
  "good_audit_package pkg \<longleftrightarrow> (\<exists>now now' rs. pkg = audit_package now now' rs) \<and>
     0 < length (batch_items pkg) \<and> length (batch_items pkg) \<le> auditResultsBatchSize"

lemma batch_items_audit_package [simp]: "batch_items (audit_package now now' rs) = map ToPacket rs"
  by (simp add: batch_items_def audit_package_def new_package_def)

lemma good_audit_packageI:
  "rs \<noteq> [] \<Longrightarrow> length rs \<le> auditResultsBatchSize \<Longrightarrow> good_audit_package (audit_package now now' rs)"
  by (auto simp: good_audit_package_def)

lemma SendAuditResultsBatch_recorder [simp]:
  "SendAuditResultsBatch (recorder d) now now' rs st = Some (st @ [audit_package now now' rs])"
  by (simp add: SendAuditResultsBatch_def client_Pipe_def recorder_def)

lemma worker_step_recorder:
  assumes "length buffer < auditResultsBatchSize"
  shows "\<exists>buffer' new. SendAuditResultsWorker_step (recorder d) now now' e (buffer, sent) = Some (buffer', sent @ new) \<and>
    length buffer' < auditResultsBatchSize \<and> (\<forall>pkg \<in> set new. good_audit_package pkg) \<and>
    concat (map batch_items new) @ map ToPacket buffer' = map ToPacket (buffer @ received [(now, now', e)]) \<and>
    (e = TimerFired \<longrightarrow> buffer' = [])"
proof (cases e)
  case (ResultReceived r)
  then show ?thesis
  proof (cases "Suc (length buffer) = auditResultsBatchSize")
    case True
    then have "good_audit_package (audit_package now now' (buffer @ [r]))" by (intro good_audit_packageI) auto
    then show ?thesis using ResultReceived True assms
      by (intro exI [of _ "[]"] exI [of _ "[audit_package now now' (buffer @ [r])]"]) (auto simp: Let_def)
  next
    case False
    then show ?thesis using ResultReceived assms by (intro exI [of _ "buffer @ [r]"] exI [of _ "[]"]) (auto simp: Let_def)
  qed
next
  case TimerFired
  show ?thesis
  proof (cases "buffer = []")
    case True
    then show ?thesis using TimerFired assms by (intro exI [of _ "[]"]) auto
  next
    case False
    then have "good_audit_package (audit_package now now' buffer)" using assms by (intro good_audit_packageI) auto
    then show ?thesis using TimerFired False assms
      by (intro exI [of _ "[]"] exI [of _ "[audit_package now now' buffer]"]) auto
  qed
qed

lemma received_Cons: "received (x # es) = received [x] @ received es"
  by (cases x; cases "snd (snd x)") auto

lemma received_append: "received (es @ es') = received es @ received es'"
  by (induction es rule: received.induct) auto

lemma worker_recorder:
  "length buffer < auditResultsBatchSize \<Longrightarrow>
    \<exists>buffer' new. SendAuditResultsWorker (recorder d) es (buffer, sent) = Some (buffer', sent @ new) \<and>
      length buffer' < auditResultsBatchSize \<and> (\<forall>pkg \<in> set new. good_audit_package pkg) \<and>
      concat (map batch_items new) @ map ToPacket buffer' = map ToPacket (buffer @ received es)"
proof (induction es arbitrary: buffer sent)
  case Nil
  then show ?case by simp
next
  case (Cons x es)
  obtain now now' e where x: "x = (now, now', e)" by (metis prod_cases3)
  obtain b1 new1 where 1: "SendAuditResultsWorker_step (recorder d) now now' e (buffer, sent) = Some (b1, sent @ new1)"
    "length b1 < auditResultsBatchSize" "\<forall>pkg \<in> set new1. good_audit_package pkg"
    "concat (map batch_items new1) @ map ToPacket b1 = map ToPacket (buffer @ received [x])"
    using worker_step_recorder [OF Cons.prems, of d now now' e sent] x by blast
  obtain b2 new2 where 2: "SendAuditResultsWorker (recorder d) es (b1, sent @ new1) = Some (b2, (sent @ new1) @ new2)"
    "length b2 < auditResultsBatchSize" "\<forall>pkg \<in> set new2. good_audit_package pkg"
    "concat (map batch_items new2) @ map ToPacket b2 = map ToPacket (b1 @ received es)"
    using Cons.IH [OF 1(2), of "sent @ new1"] by blast
  have "concat (map batch_items (new1 @ new2)) @ map ToPacket b2 =
      (concat (map batch_items new1) @ map ToPacket b1) @ map ToPacket (received es)" using 2(4) by simp
  also have "\<dots> = map ToPacket (buffer @ received (x # es))" unfolding 1(4) using received_Cons [of x es] by simp
  finally show ?case using 1(1,3) 2(1-3) by (intro exI [of _ b2] exI [of _ "new1 @ new2"]) (auto simp: x)
qed

lemma worker_append:
  "SendAuditResultsWorker send (es @ es') g = do { g' \<leftarrow> SendAuditResultsWorker send es g; SendAuditResultsWorker send es' g' }"
  by (induction es arbitrary: g) (auto split: Option.bind_splits)

text \<open>On the pipe of the client the worker never panics.\<close>

lemma worker_on_pipe:
  "pipe_inv n p \<Longrightarrow> \<exists>buffer' p'. SendAuditResultsWorker (pipe_Send t now) es (buffer, p) = Some (buffer', p') \<and> pipe_inv n p'"
proof (induction es arbitrary: buffer p)
  case Nil
  then show ?case by simp
next
  case (Cons x es)
  obtain now1 now2 e where x: "x = (now1, now2, e)" by (metis prod_cases3)
  have send: "\<exists>p'. SendAuditResultsBatch (pipe_Send t now) now1 now2 rs p = Some p' \<and> pipe_inv n p'" for rs
    using pipe_Send_total [OF Cons.prems, of t now "audit_package now1 now2 rs"]
    by (auto simp: SendAuditResultsBatch_def client_Pipe_def)
  have "\<exists>b1 p1. SendAuditResultsWorker_step (pipe_Send t now) now1 now2 e (buffer, p) = Some (b1, p1) \<and> pipe_inv n p1"
  proof (cases e)
    case (ResultReceived r)
    then show ?thesis using send [of "buffer @ [r]"] Cons.prems by (auto simp: Let_def)
  next
    case TimerFired
    then show ?thesis using send [of buffer] Cons.prems by auto
  qed
  then show ?case using Cons.IH by (auto simp: x)
qed

definition demo_result :: "unit AuditResult" where
  "demo_result = \<lparr>ar_Id = [], ar_TemplateID = None, ar_ConstraintID = None, ar_CategoryID = None,
     ar_Severity = None, ar_Controls = [], ar_Standards = [], ar_Description = [], ar_HowToSolve = [], ar_Status = ''Violation'',
     ar_Msg = None, ar_EntityName = None, ar_EntityKind = None, ar_NamespaceName = None, ar_ParentName = None,
     ar_ParentKind = None, ar_EntitySpec = (), ar_Trigger = []\<rparr>"

subsection \<open>Properties\<close>

text \<open>Audit results are neither lost nor duplicated nor reordered on the way to the pipe: whatever
  results arrive and whenever the timer fires, the items of the packages handed to the pipe, in order,
  followed by the buffer, are exactly the results received. Packages hold between 1 and 1000 results,
  the buffer fewer than 1000, and when the timer fires next the buffer is emptied.\<close>

theorem audit_results_batched:
  "\<exists>buffer sent. SendAuditResultsWorker (recorder d) es ([], []) = Some (buffer, sent) \<and>
    concat (map batch_items sent) @ map ToPacket buffer = map ToPacket (received es) \<and>
    (\<forall>pkg \<in> set sent. good_audit_package pkg) \<and> length buffer < auditResultsBatchSize \<and>
    (\<exists>sent'. SendAuditResultsWorker (recorder d) (es @ [(now, now', TimerFired)]) ([], []) = Some ([], sent') \<and>
      concat (map batch_items sent') = map ToPacket (received es))"
proof -
  obtain buffer sent where run: "SendAuditResultsWorker (recorder d) es ([], []) = Some (buffer, sent)"
    "length buffer < auditResultsBatchSize" "\<forall>pkg \<in> set sent. good_audit_package pkg"
    "concat (map batch_items sent) @ map ToPacket buffer = map ToPacket (received es)"
    using worker_recorder [of "[]" d es "[]"] by (auto simp: auditResultsBatchSize_def)
  obtain new where "SendAuditResultsWorker_step (recorder d) now now' TimerFired (buffer, sent) = Some ([], sent @ new)"
    "concat (map batch_items new) = map ToPacket buffer"
    using worker_step_recorder [OF run(2), of d now now' TimerFired sent] by auto
  then have "SendAuditResultsWorker (recorder d) (es @ [(now, now', TimerFired)]) ([], []) = Some ([], sent @ new)"
    "concat (map batch_items (sent @ new)) = map ToPacket (received es)"
    using run(1,4) by (simp_all add: worker_append)
  then show ?thesis using run by blast
qed

theorem audit_results_batched_witness:
  "\<exists>sent. SendAuditResultsWorker (recorder (\<lambda>_. 0)) ([(0, 0, ResultReceived demo_result), (1, 1, ResultReceived demo_result)] @ [(2, 2, TimerFired)]) ([], []) =
      Some ([], sent) \<and> concat (map batch_items sent) = [ToPacket demo_result, ToPacket demo_result]"
  using audit_results_batched [of "\<lambda>_. 0" "[(0, 0, ResultReceived demo_result), (1, 1, ResultReceived demo_result)]" 2 2] by fastforce

text \<open>The wire form of an audit result keeps the status of every result the auditor produces, and
  two results with the same wire form are the same result: no field is dropped.\<close>

theorem ToPacket_faithful:
  assumes "ar_Status r \<in> {AuditResultStatusViolating, AuditResultStatusCompliant, AuditResultStatusIgnored, []}"
    and "ar_Status r' \<in> {AuditResultStatusViolating, AuditResultStatusCompliant, AuditResultStatusIgnored, []}"
  shows "pa_Status (ToPacket r) = ar_Status r \<and> (ToPacket r = ToPacket r' \<longleftrightarrow> r = r')"
  using packet_status_id [OF assms(1)] packet_status_id [OF assms(2)] ToPacket_inj [of r r']
  by (auto simp: ToPacket_def)

theorem ToPacket_faithful_witness:
  "\<exists>r :: unit AuditResult. ar_Status r = ''Violation'' \<and> pa_Status (ToPacket r) = ''Violation'' \<and>
    ToPacket r \<noteq> ToPacket (r\<lparr>ar_Status := ''Compliance''\<rparr>)"
proof -
  let ?r = demo_result
  have st: "ar_Status ?r = ''Violation''" by (simp add: demo_result_def)
  have "?r \<noteq> ?r\<lparr>ar_Status := ''Compliance''\<rparr>" by (simp add: demo_result_def)
  then show ?thesis using ToPacket_faithful [of ?r "?r\<lparr>ar_Status := ''Compliance''\<rparr>"] st by (auto simp: status_defs)
qed

end
