(* ===== verification/Client_Session.thy ===== *)
theory Client_Session
  imports Prelude "HOL-Library.Word" "HOL-Library.Sublist"
begin

text \<open>
  The session of the client with the agent gateway: \<open>WithBackoffLimit\<close>, \<open>send\<close> and \<open>Send\<close> of
  \<open>client/client.go\<close>, \<open>hello\<close>, \<open>authorize\<close> and \<open>ping\<close> of \<open>client/sender.go\<close>, \<open>client/auth.go\<close>, and
  \<open>onConnect\<close> and \<open>onDisconnect\<close> of \<open>client/connect.go\<close>.

  What the code calls outside the repository is a record of parameters, \<open>remote\<close>: the packet encoding,
  the channel to the server as a transformer of a world \<open>'w\<close>, the clock, \<open>errors.Wrapf\<close> and SHA-512. A
  Go \<open>error\<close> is an option, \<open>None\<close> for \<open>nil\<close>.
\<close>

subsection \<open>Backoff\<close>

text \<open>
  The body may halt the goroutine for good, \<open>Inl\<close>, or return an error or \<open>nil\<close>. The pauses are
  collected. Each round increases \<open>try\<close>, so the loop ends if the body returns.
\<close>

function backoff_loop :: "('s \<Rightarrow> 'h + 's \<times> 'e option) \<Rightarrow> go_duration \<Rightarrow> int \<Rightarrow> int \<Rightarrow> 's \<Rightarrow> go_duration list \<Rightarrow> 'e option \<Rightarrow>
    'h + 's \<times> go_duration list \<times> 'e option" where
  "backoff_loop fn backoff limit try st sleeps err =
     (if try < limit then
        (case fn st of
           Inl h \<Rightarrow> Inl h
         | Inr (st', None) \<Rightarrow> Inr (st', sleeps, None)
         | Inr (st', Some e) \<Rightarrow>
             (let timeout = wrap64 (backoff * (try mod 10 + 1)) in
              backoff_loop fn backoff limit (try + 1) st' (if try + 1 < limit then sleeps @ [timeout] else sleeps) (Some e)))
      else Inr (st, sleeps, err))"
  by pat_completeness auto
termination by (relation "measure (\<lambda>(_, _, limit, try, _). nat (limit - try))") auto

declare backoff_loop.simps [simp del]

definition WithBackoffLimit :: "('s \<Rightarrow> 'h + 's \<times> 'e option) \<Rightarrow> go_duration \<Rightarrow> int \<Rightarrow> 's \<Rightarrow> 'h + 's \<times> go_duration list \<times> 'e option" where
  "WithBackoffLimit fn backoff limit st = backoff_loop fn backoff limit 0 st [] None"

definition WithBackoff where
  "WithBackoff fn backoff st = WithBackoffLimit fn backoff (2 ^ 63 - 1) st"

subsection \<open>Packets and the channel\<close>

type_synonym bytes = "8 word list"

datatype client_error = ProtocolError int string | PlainError string

datatype packet =
    PacketHello (hello_Major: nat) (hello_Minor: nat) (hello_Build: string) (hello_StartID: string)
      (hello_AccountID: string) (hello_ClusterID: string) (hello_PacketV2Enabled: bool) (hello_ServerVersion: string)
      (hello_AgentPermissions: string) (hello_ClusterProvider: string)
  | PacketAuthorizationRequest (req_AccountID: string) (req_ClusterID: string)
  | PacketAuthorizationAnswer (answer_Token: bytes)
  | PacketPing (ping_Started: go_time)

definition PacketKindHello :: string where [simp]: "PacketKindHello = ''hello''"
definition PacketKindAuthorizationRequest :: string where [simp]: "PacketKindAuthorizationRequest = ''authorization/request''"
definition PacketKindAuthorizationAnswer :: string where [simp]: "PacketKindAuthorizationAnswer = ''authorization/answer''"
definition PacketKindPing :: string where [simp]: "PacketKindPing = ''ping''"

record 'w remote =
  rm_Encode :: "packet \<Rightarrow> client_error + bytes"
  rm_Send :: "string \<Rightarrow> bytes \<Rightarrow> 'w \<Rightarrow> 'w \<times> (client_error + bytes)"
  rm_DecodeHello :: "bytes \<Rightarrow> client_error + nat \<times> nat"
  rm_DecodeQuestion :: "bytes \<Rightarrow> client_error + bytes"
  rm_DecodeSuccess :: "bytes \<Rightarrow> client_error + unit"
  rm_DecodePong :: "bytes \<Rightarrow> client_error + go_time"
  rm_Wrapf :: "client_error option \<Rightarrow> string \<Rightarrow> client_error option"
  rm_Error :: "client_error \<Rightarrow> string"
  rm_sha512 :: "bytes \<Rightarrow> bytes"
  rm_Now :: "'w \<Rightarrow> go_time"

record Client =
  cl_version :: string
  cl_startID :: string
  cl_AccountID :: string
  cl_ClusterID :: string
  cl_secret :: bytes
  cl_ServerVersion :: string
  cl_AgentPermissions :: string
  cl_ClusterProvider :: string
  cl_connected :: bool
  cl_authorized :: bool
  cl_lastSent :: go_time
  cl_blocked :: "nat list"
  cl_protoBackoff :: go_duration

definition ProtocolMajorVersion :: nat where "ProtocolMajorVersion = 2"
definition ProtocolMinorVersion :: nat where "ProtocolMinorVersion = 4"

text \<open>\<open>Client.send\<close> up to the decoding of the answer, which the caller chooses.\<close>

definition client_send :: "'w remote \<Rightarrow> string \<Rightarrow> packet \<Rightarrow> Client \<times> 'w \<Rightarrow> (Client \<times> 'w) \<times> (client_error + bytes)" where
  "client_send net kind pkt st =
     (case st of (c, w) \<Rightarrow>
      (case rm_Encode net pkt of
         Inl err \<Rightarrow> ((c, w), Inl err)
       | Inr req \<Rightarrow>
           (case rm_Send net kind req w of
              (w', Inl err) \<Rightarrow> ((c, w'), Inl err)
            | (w', Inr res) \<Rightarrow> ((c\<lparr>cl_lastSent := rm_Now net w'\<rparr>, w'), Inr res))))"

definition send_decode :: "'w remote \<Rightarrow> string \<Rightarrow> packet \<Rightarrow> (bytes \<Rightarrow> client_error + 'a) \<Rightarrow> Client \<times> 'w \<Rightarrow>
    (Client \<times> 'w) \<times> (client_error + 'a)" where
  "send_decode net kind pkt decode st =
     (case client_send net kind pkt st of
        (st', Inl err) \<Rightarrow> (st', Inl err)
      | (st', Inr res) \<Rightarrow> (st', decode res))"

definition hello :: "'w remote \<Rightarrow> Client \<times> 'w \<Rightarrow> (Client \<times> 'w) \<times> client_error option" where
  "hello net st =
     (let c = fst st in
      case send_decode net PacketKindHello
        (PacketHello ProtocolMajorVersion ProtocolMinorVersion (cl_version c) (cl_startID c) (cl_AccountID c)
          (cl_ClusterID c) True (cl_ServerVersion c) (cl_AgentPermissions c) (cl_ClusterProvider c)) (rm_DecodeHello net) st of
        (st', Inl err) \<Rightarrow> (st', Some err)
      | (st', Inr _) \<Rightarrow> (st', None))"

definition getAuthorizationToken :: "'w remote \<Rightarrow> Client \<Rightarrow> bytes \<Rightarrow> bytes" where
  "getAuthorizationToken net c question =
     (let payload = []; payload = payload @ question; payload = payload @ cl_secret c; payload = payload @ question
      in rm_sha512 net payload)"

definition authorize :: "'w remote \<Rightarrow> Client \<times> 'w \<Rightarrow> (Client \<times> 'w) \<times> client_error option" where
  "authorize net st =
     (let c = fst st in
      case send_decode net PacketKindAuthorizationRequest (PacketAuthorizationRequest (cl_AccountID c) (cl_ClusterID c)) (rm_DecodeQuestion net) st of
        (st', Inl err) \<Rightarrow> (st', Some err)
      | (st', Inr token) \<Rightarrow>
          if length token < 1024 then
            (st', rm_Wrapf net None ''server asks authorization/answer with unsecured token'')
          else
            (case send_decode net PacketKindAuthorizationAnswer (PacketAuthorizationAnswer (getAuthorizationToken net c token)) (rm_DecodeSuccess net) st' of
               (st'', Inl err) \<Rightarrow> (st'', Some err)
             | (st'', Inr _) \<Rightarrow> (st'', None)))"

text \<open>\<open>Send\<close> waits for a connection and then sends whether or not there is one: \<open>connection\<close> is the result of
  \<open>WaitForConnection\<close>, which the code drops.\<close>

definition client_Send :: "'w remote \<Rightarrow> bool \<Rightarrow> string \<Rightarrow> packet \<Rightarrow> (bytes \<Rightarrow> client_error + 'a) \<Rightarrow> Client \<times> 'w \<Rightarrow>
    (Client \<times> 'w) \<times> (client_error + 'a)" where
  "client_Send net connection kind pkt decode st =
     (case send_decode net kind pkt decode st of
        (st', Inl err) \<Rightarrow> (st', Inl err)
      | (st', Inr res) \<Rightarrow> (st', Inr res))"

definition ping :: "'w remote \<Rightarrow> bool \<Rightarrow> Client \<times> 'w \<Rightarrow> (Client \<times> 'w) \<times> client_error option" where
  "ping net connection st =
     (case client_Send net connection PacketKindPing (PacketPing (rm_Now net (snd st))) (rm_DecodePong net) st of
        (st', Inl err) \<Rightarrow> (st', Some err)
      | (st', Inr _) \<Rightarrow> (st', None))"

text \<open>\<open>StartWatchdog\<close>: a ping at every tick, until the context is done; errors are only logged. The events the
  \<open>select\<close> receives are given, with the outcome of the wait in each ping.\<close>

datatype watchdog_event = WatchdogTick bool | WatchdogDone

fun StartWatchdog :: "'w remote \<Rightarrow> watchdog_event list \<Rightarrow> Client \<times> 'w \<Rightarrow> (Client \<times> 'w) \<times> bool" where
  "StartWatchdog net [] st = (st, False)"
| "StartWatchdog net (WatchdogDone # es) st = (st, True)"
| "StartWatchdog net (WatchdogTick connection # es) st = StartWatchdog net es (fst (ping net connection st))"

subsection \<open>Connecting\<close>

text \<open>
  Where \<open>onConnect\<close> stops for good: it sleeps for ever when the cluster is unknown, and it blocks on the
  unbuffered channel \<open>connected\<close> when nobody receives from it. The blocked state is kept.
\<close>

datatype 'w halt = Suspended | BlockedOnConnected Client 'w

datatype 'w connect_outcome = Returned Client 'w "nat list" | Exited int | Halted "'w halt"

definition contains :: "string \<Rightarrow> string \<Rightarrow> bool" where
  "contains s sub = sublist sub s"

text \<open>One attempt. The last component of the state lists the waiters that were released; \<open>receiver\<close> says
  whether some goroutine receives from \<open>connected\<close>. The two-hour pauses after a refusal by the server
  take time but change nothing. The waiters are taken to be still waiting when they are released.\<close>

definition connect_attempt :: "'w remote \<Rightarrow> bool \<Rightarrow> go_time \<Rightarrow> Client \<times> 'w \<times> nat list \<Rightarrow>
    'w halt + (Client \<times> 'w \<times> nat list) \<times> client_error option" where
  "connect_attempt net receiver expire st =
     (case st of (c, w, released) \<Rightarrow>
      if \<not> cl_connected c then Inr ((c, w, released), None)
      else
        (case hello net (c, w) of
           ((c1, w1), Some err) \<Rightarrow>
             if rm_Now net w1 > expire \<or> contains (rm_Error net err) ''unsupported version''
             then Inr ((c1, w1, released), None)
             else Inr ((c1, w1, released), Some err)
         | ((c1, w1), None) \<Rightarrow>
             (case authorize net (c1, w1) of
                ((c2, w2), Some (ProtocolError code m)) \<Rightarrow>
                  if code = 404 then Inl Suspended
                  else Inr ((c2, w2, released), Some (ProtocolError code m))
              | ((c2, w2), Some (PlainError m)) \<Rightarrow> Inr ((c2, w2, released), Some (PlainError m))
              | ((c2, w2), None) \<Rightarrow>
                  (let c3 = c2\<lparr>cl_authorized := True\<rparr> in
                   if receiver then Inr ((c3\<lparr>cl_blocked := []\<rparr>, w2, released @ cl_blocked c3), None)
                   else Inl (BlockedOnConnected c3 w2)))))"

definition onConnect :: "'w remote \<Rightarrow> bool \<Rightarrow> Client \<times> 'w \<Rightarrow> 'w connect_outcome" where
  "onConnect net receiver st =
     (case st of (c, w) \<Rightarrow>
      (let c1 = c\<lparr>cl_connected := True\<rparr>; expire = rm_Now net w + 600 * 10 ^ 9 in
       case WithBackoffLimit (connect_attempt net receiver expire) (cl_protoBackoff c) 100 (c1, w, []) of
         Inl h \<Rightarrow> Halted h
       | Inr ((c2, w2, released), _, _) \<Rightarrow> if cl_authorized c2 then Returned c2 w2 released else Exited 122))"

definition onDisconnect :: "Client \<Rightarrow> Client" where
  "onDisconnect c = c\<lparr>cl_connected := False, cl_authorized := False\<rparr>"

definition IsReady :: "Client \<Rightarrow> bool" where
  "IsReady c = cl_authorized c"

text \<open>The handler of SIGHUP in \<open>Connect\<close>: a client that is ready pings with backoff.\<close>

definition on_SIGHUP :: "'w remote \<Rightarrow> bool \<Rightarrow> Client \<times> 'w \<Rightarrow> unit + (Client \<times> 'w) \<times> go_duration list \<times> client_error option" where
  "on_SIGHUP net connection st =
     (if \<not> IsReady (fst st) then Inr (st, [], None)
      else WithBackoff (\<lambda>s. Inr (ping net connection s)) (cl_protoBackoff (fst st)) st)"

subsection \<open>Lemmas\<close>

definition pause :: "go_duration \<Rightarrow> nat \<Rightarrow> go_duration" where
  "pause backoff i = wrap64 (backoff * (int i mod 10 + 1))"

text \<open>A body whose \<open>k\<close>-th call returns \<open>r k\<close>; its state counts the calls.\<close>

abbreviation outcomes :: "(nat \<Rightarrow> 'e option) \<Rightarrow> nat \<Rightarrow> unit + nat \<times> 'e option" where
  "outcomes r k \<equiv> Inr (Suc k, r k)"

lemma backoff_all_fail:
  assumes "\<forall>i < n. r i \<noteq> None"
  shows "k \<le> n \<Longrightarrow> backoff_loop (outcomes r) b (int n) (int k) k sleeps err =
    Inr (n, sleeps @ map (pause b) [k..<n - 1], if k = n then err else r (n - 1))"
proof (induction "n - k" arbitrary: k sleeps err)
  case 0
  then show ?case by (subst backoff_loop.simps) simp
next
  case (Suc d)
  then have k: "k < n" by simp
  obtain e where e: "r k = Some e" using assms k by blast
  have "backoff_loop (outcomes r) b (int n) (int k) k sleeps err =
      backoff_loop (outcomes r) b (int n) (int (Suc k)) (Suc k) (if Suc k < n then sleeps @ [pause b k] else sleeps) (Some e)"
    using k e by (subst backoff_loop.simps) (auto simp: Let_def pause_def add.commute)
  also have "\<dots> = Inr (n, (if Suc k < n then sleeps @ [pause b k] else sleeps) @ map (pause b) [Suc k..<n - 1],
      if Suc k = n then Some e else r (n - 1))"
    by (rule Suc.hyps(1)) (use Suc in auto)
  also have "\<dots> = Inr (n, sleeps @ map (pause b) [k..<n - 1], r (n - 1))"
    using k e by (auto simp: upt_conv_Cons)
  finally show ?case using k by simp
qed

lemma backoff_success:
  assumes "\<forall>i < j. r i \<noteq> None" "r j = None" "j < n"
  shows "k \<le> j \<Longrightarrow> backoff_loop (outcomes r) b (int n) (int k) k sleeps err =
    Inr (Suc j, sleeps @ map (pause b) [k..<j], None)"
proof (induction "j - k" arbitrary: k sleeps err)
  case 0
  then have "k = j" by simp
  then show ?case using assms by (subst backoff_loop.simps) simp
next
  case (Suc d)
  then have k: "k < j" by simp
  obtain e where e: "r k = Some e" using assms(1) k by blast
  have "backoff_loop (outcomes r) b (int n) (int k) k sleeps err =
      backoff_loop (outcomes r) b (int n) (int (Suc k)) (Suc k) (sleeps @ [pause b k]) (Some e)"
    using k e assms(3) by (subst backoff_loop.simps) (auto simp: Let_def pause_def add.commute)
  also have "\<dots> = Inr (Suc j, (sleeps @ [pause b k]) @ map (pause b) [Suc k..<j], None)"
    by (rule Suc.hyps(1)) (use Suc in auto)
  finally show ?case using k by (simp add: upt_conv_Cons)
qed

lemma backoff_invariant:
  assumes step: "\<And>st st' e. P st \<Longrightarrow> fn st = Inr (st', e) \<Longrightarrow> P st'"
  shows "P st \<Longrightarrow> (case backoff_loop fn b limit k st sleeps err of
      Inl h \<Rightarrow> (\<exists>st1. P st1 \<and> fn st1 = Inl h) | Inr (st', _, _) \<Rightarrow> P st')"
proof (induction "nat (limit - k)" arbitrary: k st sleeps err)
  case 0
  then show ?case using backoff_loop.simps [of fn b limit k st sleeps err] by simp
next
  case (Suc d)
  note unfold = backoff_loop.simps [of fn b limit k st sleeps err]
  have k: "k < limit" "d = nat (limit - (k + 1))" using Suc.hyps(2) by auto
  show ?case
  proof (cases "fn st")
    case (Inl h)
    then show ?thesis using Suc.prems k(1) unfold by auto
  next
    case (Inr x)
    obtain st1 r where x: "x = (st1, r)" by (cases x)
    have P1: "P st1" using step [OF Suc.prems] Inr x by blast
    then show ?thesis
      using k(1) Inr x unfold Suc.hyps(1) [OF k(2) P1] by (cases r) (simp_all add: Let_def)
  qed
qed

lemma WithBackoffLimit_first:
  "fn st = Inr (st', None) \<Longrightarrow> 0 < limit \<Longrightarrow> WithBackoffLimit fn b limit st = Inr (st', [], None)"
  "fn st = Inl h \<Longrightarrow> 0 < limit \<Longrightarrow> WithBackoffLimit fn b limit st = Inl h"
  by (simp_all add: WithBackoffLimit_def backoff_loop.simps [of fn b limit 0])

text \<open>Sending changes no flag and no waiter of the client.\<close>

definition same_flags :: "Client \<Rightarrow> Client \<Rightarrow> bool" where
  "same_flags c c' \<longleftrightarrow> cl_authorized c' = cl_authorized c \<and> cl_connected c' = cl_connected c \<and>
     cl_blocked c' = cl_blocked c \<and> cl_secret c' = cl_secret c"

lemma send_decode_flags: "send_decode net kind pkt dec (c, w) = ((c', w'), r) \<Longrightarrow> same_flags c c'"
  by (auto simp: send_decode_def client_send_def same_flags_def split: sum.splits prod.splits)

lemma hello_flags: "hello net (c, w) = ((c', w'), r) \<Longrightarrow> same_flags c c'"
  by (auto simp: hello_def Let_def split: sum.splits prod.splits dest: send_decode_flags)

lemma authorize_flags: "authorize net (c, w) = ((c', w'), r) \<Longrightarrow> same_flags c c'"
  by (auto simp: authorize_def Let_def same_flags_def split: sum.splits prod.splits if_splits dest!: send_decode_flags)

text \<open>The watchdog touches neither flag: a failed ping does not mark the client as disconnected.\<close>

lemma ping_flags: "ping net connection (c, w) = ((c', w'), r) \<Longrightarrow> same_flags c c'"
  by (auto simp: ping_def client_Send_def split: sum.splits prod.splits dest: send_decode_flags)

lemma StartWatchdog_flags: "StartWatchdog net es (c, w) = ((c', w'), stopped) \<Longrightarrow> same_flags c c'"
proof (induction es arbitrary: c w)
  case Nil
  then show ?case by (simp add: same_flags_def)
next
  case (Cons e es)
  show ?case
  proof (cases e)
    case (WatchdogTick connection)
    obtain c1 w1 r where p: "ping net connection (c, w) = ((c1, w1), r)" by (metis surj_pair)
    then show ?thesis using Cons.IH [of c1 w1] Cons.prems WatchdogTick ping_flags [OF p] by (simp add: same_flags_def)
  qed (use Cons in \<open>simp add: same_flags_def\<close>)
qed

lemma connect_attempt_authorized:
  assumes "\<And>st. snd (authorize net st) \<noteq> None" "\<not> cl_authorized (fst st)"
    "connect_attempt net receiver expire st = Inr (st', e)"
  shows "\<not> cl_authorized (fst st')"
proof -
  obtain c w rel where st: "st = (c, w, rel)" by (metis prod_cases3)
  obtain c1 w1 r1 where h: "hello net (c, w) = ((c1, w1), r1)" by (metis surj_pair)
  obtain c2 w2 r2 where a: "authorize net (c1, w1) = ((c2, w2), r2)" by (metis surj_pair)
  have "r2 \<noteq> None" using assms(1) [of "(c1, w1)"] a by simp
  moreover have "\<not> cl_authorized c1" "\<not> cl_authorized c2"
    using assms(2) hello_flags [OF h] authorize_flags [OF a] by (auto simp: st same_flags_def)
  ultimately show ?thesis using assms(2,3) h a
    by (auto simp: st connect_attempt_def split: if_splits option.splits client_error.splits)
qed

lemma connect_attempt_halts:
  assumes "\<And>st. snd (authorize net st) \<noteq> None" "connect_attempt net receiver expire st = Inl h"
  shows "h = Suspended"
proof -
  obtain c w rel where st: "st = (c, w, rel)" by (metis prod_cases3)
  obtain c1 w1 r1 where h: "hello net (c, w) = ((c1, w1), r1)" by (metis surj_pair)
  obtain c2 w2 r2 where a: "authorize net (c1, w1) = ((c2, w2), r2)" by (metis surj_pair)
  have "r2 \<noteq> None" using assms(1) [of "(c1, w1)"] a by simp
  then show ?thesis using assms(2) h a
    by (auto simp: st connect_attempt_def split: if_splits option.splits client_error.splits)
qed

subsection \<open>A server to evaluate the properties on\<close>

text \<open>The world records the kinds of the packets sent; the challenge is \<open>n\<close> zero bytes; the hash is the
  identity; an answer is encoded as itself and accepted if it was made with the secret \<open>[1]\<close>.\<close>

definition demo_encode :: "packet \<Rightarrow> bytes" where
  "demo_encode p = (case p of PacketAuthorizationAnswer tok \<Rightarrow> tok | _ \<Rightarrow> [])"

definition demo_remote :: "nat \<Rightarrow> string list remote" where
  "demo_remote n = \<lparr>rm_Encode = (\<lambda>p. Inr (demo_encode p)),
     rm_Send = (\<lambda>kind b w. (w @ [kind], if kind \<noteq> ''authorization/answer'' \<or> b = replicate n 0 @ [1] @ replicate n 0
       then Inr [] else Inl (ProtocolError 401 []))),
     rm_DecodeHello = (\<lambda>b. Inr (2, 4)), rm_DecodeQuestion = (\<lambda>b. Inr (replicate n 0)), rm_DecodeSuccess = (\<lambda>b. Inr ()),
     rm_DecodePong = (\<lambda>b. Inr 0), rm_Wrapf = (\<lambda>e m. map_option (\<lambda>_. PlainError m) e), rm_Error = (\<lambda>e. []),
     rm_sha512 = (\<lambda>b. b), rm_Now = (\<lambda>w. 0)\<rparr>"

definition demo_client :: Client where
  "demo_client = \<lparr>cl_version = [], cl_startID = [], cl_AccountID = [], cl_ClusterID = [], cl_secret = [1],
     cl_ServerVersion = [], cl_AgentPermissions = [], cl_ClusterProvider = [], cl_connected = True, cl_authorized = False,
     cl_lastSent = 0, cl_blocked = [7], cl_protoBackoff = 300\<rparr>"

lemmas demo_session_defs = demo_remote_def demo_client_def send_decode_def client_send_def

subsection \<open>Properties\<close>

text \<open>C32: The retry loop calls its body until the first success, but at most \<open>limit\<close> times; it pauses
  between calls, and only between calls, for 1, 2, ..., 10, 1, 2, ... times the base duration; and it
  returns \<open>nil\<close> after a success and the error of the last call otherwise.\<close>

theorem WithBackoffLimit_correct:
  "((\<forall>i < n. r i \<noteq> None) \<longrightarrow> WithBackoffLimit (outcomes r) b (int n) 0 =
      Inr (n, map (pause b) [0..<n - 1], if n = 0 then None else r (n - 1))) \<and>
   ((\<forall>i < j. r i \<noteq> None) \<and> r j = None \<and> j < n \<longrightarrow> WithBackoffLimit (outcomes r) b (int n) 0 =
      Inr (Suc j, map (pause b) [0..<j], None))"
  using backoff_all_fail [of n r 0 b "[]" None] backoff_success [of j r n 0 b "[]" None]
  by (auto simp: WithBackoffLimit_def)

theorem WithBackoffLimit_correct_witness:
  "WithBackoffLimit (outcomes (\<lambda>i. if i < 2 then Some ''down'' else None)) 300 (int 100) 0 = Inr (3, [300, 600], None)"
proof -
  have "WithBackoffLimit (outcomes (\<lambda>i. if i < 2 then Some ''down'' else None)) 300 (int 100) 0
      = Inr (Suc 2, map (pause 300) [0..<2], None)"
    using WithBackoffLimit_correct [of 100 "\<lambda>i. if i < 2 then Some ''down'' else None" 300 2] by simp
  then show ?thesis by (simp add: pause_def upt_rec is_int64_def)
qed

text \<open>C28: Against a server that challenges with a token of at least 1024 bytes and accepts exactly the
  hash of challenge, its secret, challenge, the client is authorized if and only if its own secret gives
  the same hash.\<close>

theorem authorize_iff_secret:
  assumes "\<And>p. rm_Encode net p = Inr (enc p)"
    and "rm_Send net ''authorization/request'' (enc (PacketAuthorizationRequest (cl_AccountID c) (cl_ClusterID c))) w = (w1, Inr res)"
    and "rm_DecodeQuestion net res = Inr q" and "1024 \<le> length q"
    and "\<And>tok. rm_Send net ''authorization/answer'' (enc (PacketAuthorizationAnswer tok)) w1 =
      (w2, if tok = rm_sha512 net (q @ secret @ q) then Inr ok else Inl (ProtocolError 401 m))"
    and "rm_DecodeSuccess net ok = Inr ()"
  shows "snd (authorize net (c, w)) = None \<longleftrightarrow> rm_sha512 net (q @ cl_secret c @ q) = rm_sha512 net (q @ secret @ q)"
  using assms by (simp add: authorize_def Let_def send_decode_def client_send_def getAuthorizationToken_def)

theorem authorize_iff_secret_witness:
  "snd (authorize (demo_remote 1024) (demo_client, [])) = None \<longleftrightarrow>
    rm_sha512 (demo_remote 1024) (replicate 1024 0 @ cl_secret demo_client @ replicate 1024 0) =
    rm_sha512 (demo_remote 1024) (replicate 1024 0 @ [1] @ replicate 1024 0)"
  by (rule authorize_iff_secret [where enc = demo_encode and w = "[]" and m = "[]" and ok = "[]" and res = "[]"])
    (simp_all add: demo_remote_def demo_encode_def)

text \<open>C29: A challenge shorter than 1024 bytes is not rejected: the error that the code returns wraps a
  \<open>nil\<close> error, and wrapping \<open>nil\<close> gives \<open>nil\<close>. The client regards itself as authorized although it sent no
  answer: after the greeting and the request, \<open>onConnect\<close> returns and the waiters are released.\<close>

theorem short_token_authorizes:
  assumes "\<And>m. rm_Wrapf net None m = None"
    and "hello net (c\<lparr>cl_connected := True\<rparr>, w) = ((c1, w1), None)"
    and "send_decode net ''authorization/request'' (PacketAuthorizationRequest (cl_AccountID c1) (cl_ClusterID c1))
      (rm_DecodeQuestion net) (c1, w1) = ((c2, w2), Inr token)"
    and "length token < 1024"
  shows "\<exists>c'. onConnect net True (c, w) = Returned c' w2 (cl_blocked c) \<and> cl_authorized c' \<and> cl_blocked c' = []"
proof -
  have auth: "authorize net (c1, w1) = ((c2, w2), None)" using assms(1,3,4) by (simp add: authorize_def Let_def)
  have "cl_blocked c2 = cl_blocked c" using hello_flags [OF assms(2)] authorize_flags [OF auth] by (simp add: same_flags_def)
  then have "connect_attempt net True e (c\<lparr>cl_connected := True\<rparr>, w, []) =
      Inr ((c2\<lparr>cl_authorized := True, cl_blocked := []\<rparr>, w2, cl_blocked c), None)" for e
    using assms(2) auth by (simp add: connect_attempt_def Let_def)
  then show ?thesis by (simp add: onConnect_def Let_def WithBackoffLimit_first)
qed

theorem short_token_authorizes_witness:
  "\<exists>c'. onConnect (demo_remote 3) True (demo_client, []) = Returned c' [''hello'', ''authorization/request''] (cl_blocked demo_client) \<and>
    cl_authorized c' \<and> cl_blocked c' = []"
  by (rule short_token_authorizes [where ?w1.0 = "[''hello'']" and token = "replicate 3 0" and ?c1.0 = "demo_client\<lparr>cl_lastSent := 0\<rparr>"
        and ?c2.0 = "demo_client\<lparr>cl_lastSent := 0\<rparr>"])
    (simp_all add: demo_session_defs hello_def)

text \<open>If greeting and authorization succeed at the first attempt, \<open>onConnect\<close> returns, with every
  waiter released, only if some goroutine receives from the channel \<open>connected\<close>. The gateway receives
  from it once, for the first connection; at a reconnection nobody does, and \<open>onConnect\<close> blocks for ever
  with the client marked as authorized and the waiters still blocked.\<close>

theorem onConnect_needs_receiver:
  assumes "hello net (c\<lparr>cl_connected := True\<rparr>, w) = ((c1, w1), None)" and "authorize net (c1, w1) = ((c2, w2), None)"
  shows "onConnect net receiver (c, w) =
    (if receiver then Returned (c2\<lparr>cl_authorized := True, cl_blocked := []\<rparr>) w2 (cl_blocked c)
     else Halted (BlockedOnConnected (c2\<lparr>cl_authorized := True\<rparr>) w2)) \<and> cl_blocked c2 = cl_blocked c"
proof -
  have b: "cl_blocked c2 = cl_blocked c" using hello_flags [OF assms(1)] authorize_flags [OF assms(2)] by (simp add: same_flags_def)
  have "connect_attempt net receiver e (c\<lparr>cl_connected := True\<rparr>, w, []) =
      (if receiver then Inr ((c2\<lparr>cl_authorized := True, cl_blocked := []\<rparr>, w2, cl_blocked c), None)
       else Inl (BlockedOnConnected (c2\<lparr>cl_authorized := True\<rparr>) w2))" for e
    using assms b by (simp add: connect_attempt_def Let_def)
  then show ?thesis using b by (cases receiver) (simp_all add: onConnect_def Let_def WithBackoffLimit_first)
qed

theorem onConnect_needs_receiver_witness:
  "\<exists>c' w'. onConnect (demo_remote 1024) False (demo_client, []) = Halted (BlockedOnConnected c' w') \<and>
    cl_authorized c' \<and> cl_blocked c' = [7]"
proof -
  have h: "hello (demo_remote 1024) (demo_client\<lparr>cl_connected := True\<rparr>, []) = ((demo_client, [''hello'']), None)"
    by (simp add: demo_session_defs hello_def)
  have a: "authorize (demo_remote 1024) (demo_client, [''hello'']) =
      ((demo_client, [''hello'', ''authorization/request'', ''authorization/answer'']), None)"
    by (simp add: demo_session_defs authorize_def getAuthorizationToken_def demo_encode_def)
  show ?thesis using onConnect_needs_receiver [OF h a, of False] by (simp add: demo_client_def)
qed

text \<open>C30: Without a successful authorization the agent never takes itself to be connected: if the client
  is not authorized and every authorization fails, \<open>onConnect\<close> does not return; the process exits with
  code 122 after at most 100 attempts, or sleeps for ever when the server does not know the cluster.\<close>

theorem onConnect_needs_authorization:
  assumes "\<And>st. snd (authorize net st) \<noteq> None" and "\<not> cl_authorized c"
  shows "onConnect net receiver (c, w) \<in> {Exited 122, Halted Suspended}"
proof -
  let ?c1 = "c\<lparr>cl_connected := True\<rparr>" and ?fn = "connect_attempt net receiver (rm_Now net w + 600 * 10 ^ 9)"
  let ?r = "WithBackoffLimit ?fn (cl_protoBackoff c) 100 (?c1, w, [])"
  have inv: "case ?r of Inl h \<Rightarrow> (\<exists>st1. \<not> cl_authorized (fst st1) \<and> ?fn st1 = Inl h) | Inr (st', _, _) \<Rightarrow> \<not> cl_authorized (fst st')"
    unfolding WithBackoffLimit_def
    by (rule backoff_invariant [where P = "\<lambda>st. \<not> cl_authorized (fst st)"])
      (use connect_attempt_authorized [OF assms(1)] assms(2) in \<open>blast | simp\<close>)+
  have "h = Suspended" if "?fn st1 = Inl h" for st1 h
    using connect_attempt_halts [OF assms(1) that] .
  then show ?thesis using inv by (cases ?r) (auto simp: onConnect_def Let_def)
qed

theorem onConnect_needs_authorization_witness:
  "onConnect ((demo_remote 1024)\<lparr>rm_DecodeQuestion := (\<lambda>_. Inl (ProtocolError 404 []))\<rparr>) True (demo_client, []) \<in>
    {Exited 122, Halted Suspended}"
  by (rule onConnect_needs_authorization)
    (auto simp: authorize_def send_decode_def client_send_def demo_remote_def demo_encode_def demo_client_def)

end
