(* ===== verification/Client_Wait.thy ===== *)
theory Client_Wait
  imports Prelude
begin

text \<open>
  \<open>WaitForConnection\<close> of \<open>client/client.go\<close> against the end of \<open>onConnect\<close> in \<open>client/connect.go\<close>: goroutines
  that wait until the client is authorized, and the goroutine that authorizes it and wakes them. Between the two
  \<open>onConnect\<close> sends on the unbuffered channel \<open>connected\<close>, from which only \<open>WaitAuthorization\<close> of
  \<open>gateway/magalix-gateway.go\<close> receives, once, and only if it found the client not authorized when it tested.

  A state holds the program counter of every waiter, of \<open>onConnect\<close> and of the receiver, the flag \<open>authorized\<close>, the
  map \<open>blocked\<close> (its keys; waiter \<open>i\<close> owns channel \<open>i\<close>), and whether \<open>onConnect\<close> holds \<open>blockedM\<close>. A waiter
  takes the mutex only around one \<open>Store\<close>, which is one event. \<open>sync.Map.Range\<close> visits keys that are
  stored at the moment of the visit, none twice, in any order (\<open>VisitKey\<close>). The channels are
  unbuffered: a send and the receive are one event (\<open>Deliver\<close>), a send on a closed channel panics.
  \<open>wait_exec\<close> gives the successor state for an event and \<open>None\<close> when the event cannot happen there.
  \<open>onDisconnect\<close> may clear the flag whenever the mutex is free (\<open>Disconnect\<close>). One run of \<open>onConnect\<close> is modelled, to the return
  of the function that it retries (\<open>ConnectReturned\<close>); what \<open>onConnect\<close> does then is in \<open>Client_Session\<close>.
\<close>

subsection \<open>State and events\<close>

datatype waiter_pc =
    AtCheck          \<comment> \<open>before \<open>if client.authorized\<close>\<close>
  | AtStore          \<comment> \<open>saw \<open>authorized\<close> unset, before \<open>blocked.Store\<close>\<close>
  | AtSelect         \<comment> \<open>in the \<open>select\<close>\<close>
  | AtDelete bool    \<comment> \<open>the result is fixed; the deferred \<open>blocked.Delete\<close> is next\<close>
  | AtClose bool     \<comment> \<open>the deferred \<open>close(c)\<close> is next\<close>
  | WaitReturned bool

datatype connect_pc =
    AtAuthorize      \<comment> \<open>before \<open>client.authorized = true\<close>\<close>
  | AtConnected      \<comment> \<open>in \<open>connected <- true\<close>\<close>
  | AtLock           \<comment> \<open>before \<open>blockedM.Lock\<close>\<close>
  | AtRange          \<comment> \<open>in \<open>Range\<close>, between two keys\<close>
  | AtSend nat       \<comment> \<open>in \<open>k.(chan struct{}) <- struct{}{}\<close>\<close>
  | ConnectReturned
  | ConnectPanicked

datatype receiver_pc =
    RcvTest          \<comment> \<open>before \<open>IsReady\<close>\<close>
  | RcvSelect        \<comment> \<open>in the \<open>select\<close> of \<open>WaitAuthorization\<close>\<close>
  | RcvReturned

record Waiting =
  wa_authorized :: bool
  wa_blocked :: "nat list"
  wa_visited :: "nat list"
  wa_waiters :: "waiter_pc list"
  wa_connect :: connect_pc
  wa_receiver :: receiver_pc

datatype wait_event =
    Check nat | Store nat | TimeoutFires nat | Delete nat | CloseChan nat
  | Authorize | HandConnected | LockMap | VisitKey nat | Deliver nat | SendOnClosed nat | EndRange
  | ReceiverTest | ReceiverTimeout | Disconnect

definition wait_init :: "nat \<Rightarrow> Waiting" where
  "wait_init n = \<lparr>wa_authorized = False, wa_blocked = [], wa_visited = [], wa_waiters = replicate n AtCheck,
     wa_connect = AtAuthorize, wa_receiver = RcvTest\<rparr>"

definition waiter_at :: "Waiting \<Rightarrow> nat \<Rightarrow> waiter_pc \<Rightarrow> bool" where
  "waiter_at s i pc \<longleftrightarrow> i < length (wa_waiters s) \<and> wa_waiters s ! i = pc"

definition goto :: "nat \<Rightarrow> waiter_pc \<Rightarrow> Waiting \<Rightarrow> Waiting" where
  "goto i pc s = s\<lparr>wa_waiters := (wa_waiters s)[i := pc]\<rparr>"

text \<open>\<open>onConnect\<close> holds the mutex from \<open>LockMap\<close> to the end; a panic runs the deferred unlock too, but ends
  the process.\<close>

definition map_locked :: "Waiting \<Rightarrow> bool" where
  "map_locked s \<longleftrightarrow> (case wa_connect s of AtRange \<Rightarrow> True | AtSend _ \<Rightarrow> True | ConnectPanicked \<Rightarrow> True | _ \<Rightarrow> False)"

definition chan_closed :: "Waiting \<Rightarrow> nat \<Rightarrow> bool" where
  "chan_closed s i \<longleftrightarrow> waiter_at s i (WaitReturned True) \<or> waiter_at s i (WaitReturned False)"

subsection \<open>Steps\<close>

text \<open>The steps of \<open>WaitForConnection\<close>. A waiter that finds the client authorized returns at once.\<close>

definition WaitForConnection_step :: "wait_event \<Rightarrow> Waiting \<Rightarrow> Waiting option" where
  "WaitForConnection_step e s = (case e of
     Check i \<Rightarrow> if waiter_at s i AtCheck
       then Some (goto i (if wa_authorized s then WaitReturned True else AtStore) s) else None
   | Store i \<Rightarrow> if waiter_at s i AtStore \<and> \<not> map_locked s
       then Some (goto i AtSelect (s\<lparr>wa_blocked := i # wa_blocked s\<rparr>)) else None
   | TimeoutFires i \<Rightarrow> if waiter_at s i AtSelect then Some (goto i (AtDelete False) s) else None
   | Delete i \<Rightarrow> (case if i < length (wa_waiters s) then wa_waiters s ! i else AtCheck of
       AtDelete r \<Rightarrow> Some (goto i (AtClose r) (s\<lparr>wa_blocked := removeAll i (wa_blocked s)\<rparr>)) | _ \<Rightarrow> None)
   | CloseChan i \<Rightarrow> (case if i < length (wa_waiters s) then wa_waiters s ! i else AtCheck of
       AtClose r \<Rightarrow> Some (goto i (WaitReturned r) s) | _ \<Rightarrow> None)
   | _ \<Rightarrow> None)"

text \<open>The steps of the last part of the function that \<open>onConnect\<close> retries.\<close>

definition onConnect_step :: "wait_event \<Rightarrow> Waiting \<Rightarrow> Waiting option" where
  "onConnect_step e s = (case e of
     Authorize \<Rightarrow> if wa_connect s = AtAuthorize then Some (s\<lparr>wa_authorized := True, wa_connect := AtConnected\<rparr>) else None
   | HandConnected \<Rightarrow> if wa_connect s = AtConnected \<and> wa_receiver s = RcvSelect
       then Some (s\<lparr>wa_connect := AtLock, wa_receiver := RcvReturned\<rparr>) else None
   | LockMap \<Rightarrow> if wa_connect s = AtLock then Some (s\<lparr>wa_connect := AtRange\<rparr>) else None
   | VisitKey i \<Rightarrow> if wa_connect s = AtRange \<and> i \<in> set (wa_blocked s) \<and> i \<notin> set (wa_visited s)
       then Some (s\<lparr>wa_connect := AtSend i, wa_visited := i # wa_visited s\<rparr>) else None
   | Deliver i \<Rightarrow> if wa_connect s = AtSend i \<and> waiter_at s i AtSelect
       then Some (goto i (AtDelete True) (s\<lparr>wa_connect := AtRange\<rparr>)) else None
   | SendOnClosed i \<Rightarrow> if wa_connect s = AtSend i \<and> chan_closed s i
       then Some (s\<lparr>wa_connect := ConnectPanicked\<rparr>) else None
   | EndRange \<Rightarrow> if wa_connect s = AtRange \<and> set (wa_blocked s) \<subseteq> set (wa_visited s)
       then Some (s\<lparr>wa_connect := ConnectReturned, wa_blocked := []\<rparr>) else None
   | _ \<Rightarrow> None)"

text \<open>The other steps of the receiver: the test, and the end of its \<open>select\<close> without the signal.\<close>

definition receiver_step :: "wait_event \<Rightarrow> Waiting \<Rightarrow> Waiting option" where
  "receiver_step e s = (case e of
     ReceiverTest \<Rightarrow> if wa_receiver s = RcvTest
       then Some (s\<lparr>wa_receiver := if wa_authorized s then RcvReturned else RcvSelect\<rparr>) else None
   | ReceiverTimeout \<Rightarrow> if wa_receiver s = RcvSelect then Some (s\<lparr>wa_receiver := RcvReturned\<rparr>) else None
   | _ \<Rightarrow> None)"

definition onDisconnect_step :: "wait_event \<Rightarrow> Waiting \<Rightarrow> Waiting option" where
  "onDisconnect_step e s = (if e = Disconnect \<and> \<not> map_locked s then Some (s\<lparr>wa_authorized := False\<rparr>) else None)"

definition wait_exec :: "wait_event \<Rightarrow> Waiting \<Rightarrow> Waiting option" where
  "wait_exec e s = (if wa_connect s = ConnectPanicked then None
     else case WaitForConnection_step e s of
       Some s' \<Rightarrow> Some s'
     | None \<Rightarrow> (case onConnect_step e s of
         Some s' \<Rightarrow> Some s'
       | None \<Rightarrow> (case receiver_step e s of Some s' \<Rightarrow> Some s' | None \<Rightarrow> onDisconnect_step e s)))"

fun wait_run :: "wait_event list \<Rightarrow> Waiting \<Rightarrow> Waiting option" where
  "wait_run [] s = Some s"
| "wait_run (e # es) s = do { s' \<leftarrow> wait_exec e s; wait_run es s' }"

fun is_timeout :: "wait_event \<Rightarrow> bool" where
  "is_timeout (TimeoutFires i) = True"
| "is_timeout ReceiverTimeout = True"
| "is_timeout _ = False"

text \<open>States reached by events among those allowed.\<close>

inductive wait_reach :: "(wait_event \<Rightarrow> bool) \<Rightarrow> nat \<Rightarrow> Waiting \<Rightarrow> bool" for allowed n where
  start: "wait_reach allowed n (wait_init n)"
| step: "wait_reach allowed n s \<Longrightarrow> allowed e \<Longrightarrow> wait_exec e s = Some s' \<Longrightarrow> wait_reach allowed n s'"

lemma wait_run_reach:
  "wait_reach allowed n s \<Longrightarrow> list_all allowed es \<Longrightarrow> wait_run es s = Some s' \<Longrightarrow> wait_reach allowed n s'"
  by (induction es arbitrary: s) (auto split: Option.bind_splits intro: wait_reach.step)

subsection \<open>Invariant while no timeout fires\<close>

definition waiter_ok :: "Waiting \<Rightarrow> nat \<Rightarrow> bool" where
  "waiter_ok s i \<longleftrightarrow> (case wa_waiters s ! i of
     AtSelect \<Rightarrow> i \<in> set (wa_blocked s) \<and> (i \<in> set (wa_visited s) \<longrightarrow> wa_connect s = AtSend i)
   | AtDelete r \<Rightarrow> r \<and> i \<in> set (wa_visited s)
   | AtClose r \<Rightarrow> r \<and> i \<in> set (wa_visited s) \<and> i \<notin> set (wa_blocked s)
   | WaitReturned r \<Rightarrow> r \<and> i \<notin> set (wa_blocked s)
   | _ \<Rightarrow> i \<notin> set (wa_blocked s) \<and> i \<notin> set (wa_visited s))"

definition wait_inv :: "Waiting \<Rightarrow> bool" where
  "wait_inv s \<longleftrightarrow> (\<forall>i < length (wa_waiters s). waiter_ok s i) \<and>
     (\<forall>i \<in> set (wa_blocked s). i < length (wa_waiters s)) \<and>
     (\<forall>i. wa_connect s = AtSend i \<longrightarrow> waiter_at s i AtSelect \<and> i \<in> set (wa_visited s)) \<and>
     (wa_connect s \<in> {AtAuthorize, AtConnected, AtLock} \<longrightarrow> wa_visited s = []) \<and>
     wa_connect s \<noteq> ConnectPanicked"

lemmas wait_defs = wait_exec_def WaitForConnection_step_def onConnect_step_def receiver_step_def onDisconnect_step_def waiter_at_def goto_def map_locked_def
  chan_closed_def

lemma wait_inv_init: "wait_inv (wait_init n)"
  by (auto simp: wait_inv_def wait_init_def waiter_ok_def waiter_at_def)

text \<open>A step of one waiter leaves the others as they are.\<close>

lemma wait_inv_goto:
  assumes inv: "wait_inv s" and i: "i < length (wa_waiters s)" and B: "set B - {i} = set (wa_blocked s) - {i}"
    and ok: "waiter_ok (goto i pc (s\<lparr>wa_blocked := B\<rparr>)) i" and notsend: "wa_connect s \<noteq> AtSend i"
  shows "wait_inv (goto i pc (s\<lparr>wa_blocked := B\<rparr>))"
proof -
  let ?s' = "goto i pc (s\<lparr>wa_blocked := B\<rparr>)"
  have other: "j \<in> set B \<longleftrightarrow> j \<in> set (wa_blocked s)" if "j \<noteq> i" for j using B that by blast
  have "waiter_ok ?s' j" if "j < length (wa_waiters s)" for j
  proof (cases "j = i")
    case False
    moreover have "waiter_ok s j" using inv that by (simp add: wait_inv_def)
    ultimately show ?thesis by (auto simp: waiter_ok_def goto_def other split: waiter_pc.splits)
  qed (simp add: ok)
  moreover have "j < length (wa_waiters s)" if "j \<in> set B" for j
    using inv i other [of j] that by (cases "j = i") (auto simp: wait_inv_def)
  moreover have "waiter_at ?s' j AtSelect \<and> j \<in> set (wa_visited s)" if "wa_connect s = AtSend j" for j
    using inv notsend that by (auto simp: wait_inv_def waiter_at_def goto_def)
  ultimately show ?thesis using inv by (simp add: wait_inv_def goto_def)
qed

lemma wait_inv_waiter:
  assumes "wait_inv s" "i < length (wa_waiters s)"
  shows "waiter_ok s i" "wa_connect s = AtSend i \<Longrightarrow> wa_waiters s ! i = AtSelect"
  using assms by (auto simp: wait_inv_def waiter_at_def)

lemma wait_inv_waiter_step:
  assumes inv: "wait_inv s" and step: "WaitForConnection_step e s = Some s'" and "\<not> is_timeout e"
  shows "wait_inv s'"
proof (cases e)
  case (Check i)
  then have s': "s' = goto i (if wa_authorized s then WaitReturned True else AtStore) (s\<lparr>wa_blocked := wa_blocked s\<rparr>)"
    and i: "i < length (wa_waiters s)" "wa_waiters s ! i = AtCheck"
    using step by (auto simp: WaitForConnection_step_def waiter_at_def split: if_splits)
  show ?thesis unfolding s'
    using wait_inv_waiter [OF inv i(1)] i by (intro wait_inv_goto [OF inv]) (auto simp: waiter_ok_def goto_def split: if_splits)
next
  case (Store i)
  then have s': "s' = goto i AtSelect (s\<lparr>wa_blocked := i # wa_blocked s\<rparr>)"
    and i: "i < length (wa_waiters s)" "wa_waiters s ! i = AtStore"
    using step by (auto simp: WaitForConnection_step_def waiter_at_def split: if_splits)
  show ?thesis unfolding s'
    using wait_inv_waiter [OF inv i(1)] i by (intro wait_inv_goto [OF inv]) (auto simp: waiter_ok_def goto_def)
next
  case (Delete i)
  then obtain r where s': "s' = goto i (AtClose r) (s\<lparr>wa_blocked := removeAll i (wa_blocked s)\<rparr>)"
    and i: "i < length (wa_waiters s)" "wa_waiters s ! i = AtDelete r"
    using step by (auto simp: WaitForConnection_step_def split: if_splits waiter_pc.splits)
  show ?thesis unfolding s'
    using wait_inv_waiter [OF inv i(1)] i by (intro wait_inv_goto [OF inv]) (auto simp: waiter_ok_def goto_def)
next
  case (CloseChan i)
  then obtain r where s': "s' = goto i (WaitReturned r) (s\<lparr>wa_blocked := wa_blocked s\<rparr>)"
    and i: "i < length (wa_waiters s)" "wa_waiters s ! i = AtClose r"
    using step by (auto simp: WaitForConnection_step_def split: if_splits waiter_pc.splits)
  show ?thesis unfolding s'
    using wait_inv_waiter [OF inv i(1)] i by (intro wait_inv_goto [OF inv]) (auto simp: waiter_ok_def goto_def)
qed (use assms in \<open>auto simp: WaitForConnection_step_def\<close>)

text \<open>The steps of \<open>onConnect\<close> change at most the waiter that receives.\<close>

lemma blocked_unvisited_selects:
  assumes "wait_inv s" "i \<in> set (wa_blocked s)" "i \<notin> set (wa_visited s)"
  shows "i < length (wa_waiters s)" "wa_waiters s ! i = AtSelect"
proof -
  show i: "i < length (wa_waiters s)" using assms by (simp add: wait_inv_def)
  show "wa_waiters s ! i = AtSelect"
    using wait_inv_waiter(1) [OF assms(1) i] assms(2,3) by (auto simp: waiter_ok_def split: waiter_pc.splits)
qed

lemma visited_selects:
  assumes "wait_inv s" "waiter_at s i AtSelect"
  shows "i \<in> set (wa_blocked s)" "i \<in> set (wa_visited s) \<Longrightarrow> wa_connect s = AtSend i"
  using assms by (auto simp: wait_inv_def waiter_ok_def waiter_at_def)

lemma waiter_ok_keep:
  assumes "waiter_ok s j" "wa_waiters s' ! j = wa_waiters s ! j"
    and "j \<in> set (wa_blocked s') \<longleftrightarrow> j \<in> set (wa_blocked s)" "j \<in> set (wa_visited s') \<longleftrightarrow> j \<in> set (wa_visited s)"
    and "wa_waiters s ! j = AtSelect \<Longrightarrow> j \<notin> set (wa_visited s)"
  shows "waiter_ok s' j"
  using assms by (auto simp: waiter_ok_def split: waiter_pc.splits)

lemma wait_inv_connect_step:
  assumes inv: "wait_inv s" and step: "onConnect_step e s = Some s'"
  shows "wait_inv s'"
proof (cases e)
  case Authorize
  then have s': "s' = s\<lparr>wa_authorized := True, wa_connect := AtConnected\<rparr>" "wa_connect s = AtAuthorize"
    using step by (auto simp: onConnect_step_def split: if_splits)
  then have "wa_visited s = []" using inv by (simp add: wait_inv_def)
  moreover from this have "waiter_ok s' j" if "j < length (wa_waiters s)" for j
    by (intro waiter_ok_keep [OF wait_inv_waiter(1) [OF inv that]]) (simp_all add: s')
  ultimately show ?thesis using inv by (simp add: wait_inv_def s')
next
  case HandConnected
  then have s': "s' = s\<lparr>wa_connect := AtLock, wa_receiver := RcvReturned\<rparr>" "wa_connect s = AtConnected"
    using step by (auto simp: onConnect_step_def split: if_splits)
  then have "wa_visited s = []" using inv by (simp add: wait_inv_def)
  moreover from this have "waiter_ok s' j" if "j < length (wa_waiters s)" for j
    by (intro waiter_ok_keep [OF wait_inv_waiter(1) [OF inv that]]) (simp_all add: s')
  ultimately show ?thesis using inv s'(2) by (simp add: wait_inv_def s'(1) waiter_at_def)
next
  case LockMap
  then have s': "s' = s\<lparr>wa_connect := AtRange\<rparr>" "wa_connect s = AtLock"
    using step by (auto simp: onConnect_step_def split: if_splits)
  then have "wa_visited s = []" using inv by (simp add: wait_inv_def)
  moreover from this have "waiter_ok s' j" if "j < length (wa_waiters s)" for j
    by (intro waiter_ok_keep [OF wait_inv_waiter(1) [OF inv that]]) (simp_all add: s')
  ultimately show ?thesis using inv s'(2) by (simp add: wait_inv_def s'(1) waiter_at_def)
next
  case (VisitKey i)
  then have s': "s' = s\<lparr>wa_connect := AtSend i, wa_visited := i # wa_visited s\<rparr>" "wa_connect s = AtRange"
    and i: "i \<in> set (wa_blocked s)" "i \<notin> set (wa_visited s)"
    using step by (auto simp: onConnect_step_def split: if_splits)
  note sel = blocked_unvisited_selects [OF inv i]
  have "waiter_ok s' j" if "j < length (wa_waiters s)" for j
  proof (cases "j = i")
    case False
    then show ?thesis using visited_selects [OF inv, of j] that s'(2)
      by (intro waiter_ok_keep [OF wait_inv_waiter(1) [OF inv that]]) (auto simp: s'(1) waiter_at_def)
  qed (use sel i in \<open>simp add: waiter_ok_def s'(1)\<close>)
  then show ?thesis using inv sel s'(2) by (simp add: wait_inv_def s'(1) waiter_at_def)
next
  case (Deliver i)
  then have s': "s' = goto i (AtDelete True) (s\<lparr>wa_connect := AtRange\<rparr>)" "wa_connect s = AtSend i" "waiter_at s i AtSelect"
    using step by (auto simp: onConnect_step_def split: if_splits)
  then have vis: "i \<in> set (wa_visited s)" using inv by (simp add: wait_inv_def)
  have "waiter_ok s' j" if "j < length (wa_waiters s)" for j
  proof (cases "j = i")
    case False
    then show ?thesis using visited_selects [OF inv, of j] that s'(2)
      by (intro waiter_ok_keep [OF wait_inv_waiter(1) [OF inv that]]) (auto simp: s'(1) waiter_at_def goto_def)
  qed (use that vis in \<open>simp add: waiter_ok_def s'(1) goto_def\<close>)
  then show ?thesis using inv s'(2) by (simp add: wait_inv_def s'(1) goto_def)
next
  case (SendOnClosed i)
  then show ?thesis using step inv by (auto simp: onConnect_step_def wait_inv_def waiter_at_def chan_closed_def split: if_splits)
next
  case EndRange
  then have s': "s' = s\<lparr>wa_connect := ConnectReturned, wa_blocked := []\<rparr>" "wa_connect s = AtRange"
    and sub: "set (wa_blocked s) \<subseteq> set (wa_visited s)"
    using step by (auto simp: onConnect_step_def split: if_splits)
  have "waiter_ok s' j" if "j < length (wa_waiters s)" for j
    using wait_inv_waiter(1) [OF inv that] visited_selects [OF inv, of j] that s'(2) sub
    by (auto simp: waiter_ok_def s'(1) waiter_at_def split: waiter_pc.splits)
  then show ?thesis using inv s'(2) by (simp add: wait_inv_def s'(1) waiter_at_def)
qed (use step in \<open>auto simp: onConnect_step_def\<close>)

text \<open>The receiver and \<open>onDisconnect\<close> change only their own field and the flag.\<close>

lemma other_step_cases:
  assumes "receiver_step e s = Some s' \<or> onDisconnect_step e s = Some s'"
  obtains r b where "s' = s\<lparr>wa_receiver := r, wa_authorized := b\<rparr>"
proof (rule that)
  show "s' = s\<lparr>wa_receiver := wa_receiver s', wa_authorized := wa_authorized s'\<rparr>"
    using assms by (auto simp: receiver_step_def onDisconnect_step_def split: wait_event.splits if_splits)
qed

lemma wait_inv_other [simp]:
  "wait_inv (s\<lparr>wa_receiver := r, wa_authorized := b\<rparr>) = wait_inv s"
  "waiter_at (s\<lparr>wa_receiver := r, wa_authorized := b\<rparr>) i pc = waiter_at s i pc"
  by (simp_all add: wait_inv_def waiter_ok_def waiter_at_def cong: waiter_pc.case_cong)

lemma wait_exec_cases:
  assumes "wait_exec e s = Some s'"
  obtains "WaitForConnection_step e s = Some s'" | "onConnect_step e s = Some s'" 
    | r b where "s' = s\<lparr>wa_receiver := r, wa_authorized := b\<rparr>"
  using assms other_step_cases [of e s s'] by (auto simp: wait_exec_def split: if_splits option.splits)

lemma wait_exec_inv:
  assumes "wait_inv s" "wait_exec e s = Some s'" "\<not> is_timeout e"
  shows "wait_inv s'"
  using assms(2)
proof (cases rule: wait_exec_cases)
  case 3
  then show ?thesis using assms(1) by auto
qed (use wait_inv_waiter_step [OF assms(1) _ assms(3)] wait_inv_connect_step [OF assms(1)] in blast)+

lemma wait_reach_inv: "wait_reach (\<lambda>e. \<not> is_timeout e) n s \<Longrightarrow> wait_inv s"
  by (induction rule: wait_reach.induct) (auto intro: wait_inv_init wait_exec_inv)

subsection \<open>Waking\<close>

text \<open>In its \<open>select\<close> before \<open>onConnect\<close> ends, or woken.\<close>

definition woken :: "Waiting \<Rightarrow> nat \<Rightarrow> bool" where
  "woken s i \<longleftrightarrow> waiter_at s i (AtDelete True) \<or> waiter_at s i (AtClose True) \<or> waiter_at s i (WaitReturned True)"

lemma woken_kept:
  assumes "wait_exec e s = Some s'" "woken s i"
  shows "woken s' i"
  using assms(1)
proof (cases rule: wait_exec_cases)
  case 1
  then show ?thesis using assms(2)
    by (cases e; cases "wa_waiters s ! i")
      (auto simp: WaitForConnection_step_def woken_def waiter_at_def goto_def nth_list_update split: if_splits waiter_pc.splits)
next
  case 2
  then show ?thesis using assms(2)
    by (cases e) (auto simp: onConnect_step_def woken_def waiter_at_def goto_def nth_list_update split: if_splits)
next
  case 3
  then show ?thesis using assms(2) by (auto simp: woken_def)
qed

lemma select_or_woken:
  assumes "wait_inv s" "wait_exec e s = Some s'" "\<not> is_timeout e" "waiter_at s i AtSelect" "wa_connect s \<noteq> ConnectReturned"
  shows "woken s' i \<or> waiter_at s' i AtSelect \<and> wa_connect s' \<noteq> ConnectReturned"
  using assms(2)
proof (cases rule: wait_exec_cases)
  case 1
  then show ?thesis using assms(3-5)
    by (cases e) (auto simp: WaitForConnection_step_def waiter_at_def goto_def nth_list_update split: if_splits waiter_pc.splits)
next
  case 2
  then show ?thesis using assms(4,5) visited_selects [OF assms(1,4)]
    by (cases e) (auto simp: onConnect_step_def woken_def waiter_at_def goto_def nth_list_update split: if_splits)
next
  case 3
  then show ?thesis using assms(4,5) by auto
qed

text \<open>\<open>WaitAuthorization\<close> waits for the signal until \<open>onConnect\<close> has sent it.\<close>

definition served :: "Waiting \<Rightarrow> bool" where
  "served s \<longleftrightarrow> (wa_connect s \<in> {AtAuthorize, AtConnected} \<longrightarrow> wa_receiver s = RcvSelect)"

lemma served_kept:
  assumes "served s" "wait_exec e s = Some s'" "\<not> is_timeout e"
  shows "served s'"
  using assms by (cases e) (auto simp: served_def wait_defs split: if_splits waiter_pc.splits)

lemma run_select_or_woken:
  "wait_inv s \<Longrightarrow> served s \<Longrightarrow> list_all (\<lambda>e. \<not> is_timeout e) es \<Longrightarrow> wait_run es s = Some s' \<Longrightarrow>
    woken s i \<or> waiter_at s i AtSelect \<and> wa_connect s \<noteq> ConnectReturned \<Longrightarrow>
    wait_inv s' \<and> served s' \<and> (woken s' i \<or> waiter_at s' i AtSelect \<and> wa_connect s' \<noteq> ConnectReturned)"
proof (induction es arbitrary: s)
  case (Cons e es)
  then obtain s1 where s1: "wait_exec e s = Some s1" "wait_run es s1 = Some s'" by (auto split: Option.bind_splits)
  have "woken s1 i \<or> waiter_at s1 i AtSelect \<and> wa_connect s1 \<noteq> ConnectReturned"
    using woken_kept [OF s1(1)] select_or_woken [OF Cons.prems(1) s1(1)] Cons.prems(3,5) by auto
  then show ?case
    using Cons.IH [OF wait_exec_inv [OF Cons.prems(1) s1(1)] served_kept [OF Cons.prems(2) s1(1)] _ s1(2)] Cons.prems(3) by simp
qed simp

lemma onConnect_not_stuck:
  assumes "wait_inv s" "served s" "wa_connect s \<noteq> ConnectReturned"
  shows "\<exists>e s'. onConnect_step e s = Some s'"
proof (cases "wa_connect s")
  case AtAuthorize
  then show ?thesis by (intro exI [of _ Authorize]) (simp add: onConnect_step_def)
next
  case AtConnected
  then show ?thesis using assms(2) by (intro exI [of _ HandConnected]) (simp add: onConnect_step_def served_def)
next
  case AtLock
  then show ?thesis by (intro exI [of _ LockMap]) (simp add: onConnect_step_def)
next
  case AtRange
  show ?thesis
  proof (cases "set (wa_blocked s) \<subseteq> set (wa_visited s)")
    case True
    then show ?thesis using AtRange by (intro exI [of _ EndRange]) (simp add: onConnect_step_def)
  next
    case False
    then obtain i where "i \<in> set (wa_blocked s)" "i \<notin> set (wa_visited s)" by auto
    then show ?thesis using AtRange by (intro exI [of _ "VisitKey i"]) (simp add: onConnect_step_def)
  qed
next
  case (AtSend i)
  then have "waiter_at s i AtSelect" using assms by (simp add: wait_inv_def)
  then show ?thesis using AtSend by (intro exI [of _ "Deliver i"]) (simp add: onConnect_step_def)
qed (use assms in \<open>simp_all add: wait_inv_def\<close>)

text \<open>Once the receiver is gone \<open>onConnect\<close> stays at its send, and no waiter is woken any more.\<close>

lemma unserved_blocks:
  "wait_run es s = Some s' \<Longrightarrow> wa_connect s = AtConnected \<Longrightarrow> wa_receiver s = RcvReturned \<Longrightarrow>
    wa_connect s' = AtConnected \<and> (\<forall>e. onConnect_step e s' = None)"
proof (induction es arbitrary: s)
  case Nil
  then show ?case by (auto simp: onConnect_step_def split: wait_event.splits)
next
  case (Cons e es)
  then obtain s1 where s1: "wait_exec e s = Some s1" "wait_run es s1 = Some s'" by (auto split: Option.bind_splits)
  then have "wa_connect s1 = AtConnected" "wa_receiver s1 = RcvReturned"
    using Cons.prems(2,3) by (cases e; auto simp: wait_defs split: if_splits waiter_pc.splits)+
  then show ?case using Cons.IH [OF s1(2)] by simp
qed

text \<open>A waiter that read \<open>authorized\<close> before \<open>onConnect\<close> set it and stores its channel after \<open>onConnect\<close>
  replaced the map is woken by nobody: unless the connection is lost, the only event left is its timeout, and it
  returns false although the client is authorized.\<close>

lemma wait_lost_wakeup:
  "\<exists>s. wait_run [Check 0, ReceiverTest, Authorize, HandConnected, LockMap, EndRange, Store 0] (wait_init 1) = Some s \<and> wa_authorized s \<and>
    waiter_at s 0 AtSelect \<and> (\<forall>e s'. wait_exec e s = Some s' \<longrightarrow> e = TimeoutFires 0 \<or> e = Disconnect) \<and>
    (\<exists>s'. wait_run [TimeoutFires 0, Delete 0, CloseChan 0] s = Some s' \<and> waiter_at s' 0 (WaitReturned False))"
proof -
  let ?s = "\<lparr>wa_authorized = True, wa_blocked = [0], wa_visited = [], wa_waiters = [AtSelect], wa_connect = ConnectReturned,
    wa_receiver = RcvReturned\<rparr>"
  have "wait_run [Check 0, ReceiverTest, Authorize, HandConnected, LockMap, EndRange, Store 0] (wait_init 1) = Some ?s"
    by (simp add: wait_defs wait_init_def)
  moreover have "e = TimeoutFires 0 \<or> e = Disconnect" if "wait_exec e ?s = Some s'" for e s'
    using that by (cases e) (auto simp: wait_defs split: if_splits)
  moreover have "\<exists>s'. wait_run [TimeoutFires 0, Delete 0, CloseChan 0] ?s = Some s' \<and> waiter_at s' 0 (WaitReturned False)"
    by (simp add: wait_defs)
  ultimately show ?thesis by (intro exI [of _ ?s]) (simp add: waiter_at_def)
qed

subsection \<open>Properties\<close>

text \<open>C33: As long as no timeout fires, neither that of a waiter nor that of \<open>WaitAuthorization\<close>, and provided that
  \<open>WaitAuthorization\<close> is in its \<open>select\<close> or the signal has been handed over (\<open>served\<close>; without a receiver
  \<open>onConnect\<close> blocks, \<open>unserved_blocks\<close>), the function that \<open>onConnect\<close> retries wakes everybody, even if the
  connection is lost meanwhile: it never panics and is never stuck before its end, and when it ends, every waiter
  that was in its \<open>select\<close> at some moment before that has been handed the wake-up, so that its
  \<open>WaitForConnection\<close> is to return true.\<close>

theorem onConnect_wakes_waiters:
  assumes "wait_reach (\<lambda>e. \<not> is_timeout e) n s" and "waiter_at s i AtSelect" and "wa_connect s \<noteq> ConnectReturned" and "served s"
    and "list_all (\<lambda>e. \<not> is_timeout e) es" and "wait_run es s = Some s'"
  shows "wa_connect s' \<noteq> ConnectPanicked \<and>
    (wa_connect s' \<noteq> ConnectReturned \<longrightarrow> (\<exists>e s''. onConnect_step e s' = Some s'')) \<and>
    (wa_connect s' = ConnectReturned \<longrightarrow> woken s' i)"
proof -
  have "wait_inv s' \<and> served s' \<and> (woken s' i \<or> waiter_at s' i AtSelect \<and> wa_connect s' \<noteq> ConnectReturned)"
    using run_select_or_woken [OF wait_reach_inv [OF assms(1)] assms(4-6), of i] assms(2,3) by simp
  then show ?thesis using onConnect_not_stuck [of s'] by (auto simp: wait_inv_def)
qed

theorem onConnect_wakes_waiters_witness:
  "\<exists>s s'. wait_run [Check 0, Check 1, Store 0, Store 1, ReceiverTest] (wait_init 2) = Some s \<and>
    wait_run [Authorize, HandConnected, LockMap, VisitKey 1, Deliver 1, VisitKey 0, Deliver 0, EndRange] s = Some s' \<and>
    wa_connect s' = ConnectReturned \<and> woken s' 0"
proof -
  obtain s where s: "wait_run [Check 0, Check 1, Store 0, Store 1, ReceiverTest] (wait_init 2) = Some s" "waiter_at s 0 AtSelect"
    "wa_connect s = AtAuthorize" "served s"
    by (simp add: wait_defs wait_init_def served_def numeral_2_eq_2)
  obtain s' where s': "wait_run [Authorize, HandConnected, LockMap, VisitKey 1, Deliver 1, VisitKey 0, Deliver 0, EndRange] s = Some s'"
    "wa_connect s' = ConnectReturned"
    using s(1) by (auto simp: wait_defs wait_init_def numeral_2_eq_2)
  have "wait_reach (\<lambda>e. \<not> is_timeout e) 2 s" by (rule wait_run_reach [OF wait_reach.start _ s(1)]) simp
  then have "woken s' 0" using onConnect_wakes_waiters [OF _ s(2) _ s(4) _ s'(1)] s(3) s'(2) by simp
  then show ?thesis using s s' by blast
qed

text \<open>C34: A timeout in the wrong moment crashes the agent: when \<open>onConnect\<close> is about to send on the
  channel of a waiter and the waiter's timeout fires first, the waiter deletes its key, closes the
  channel and returns false, and the send panics.\<close>

theorem wait_timeout_panics:
  assumes "wait_reach (\<lambda>_. True) n s" and "wa_connect s = AtSend i" and "waiter_at s i AtSelect"
  shows "\<exists>s'. wait_run [TimeoutFires i, Delete i, CloseChan i, SendOnClosed i] s = Some s' \<and>
    wait_reach (\<lambda>_. True) n s' \<and> wa_connect s' = ConnectPanicked \<and> waiter_at s' i (WaitReturned False)"
proof -
  obtain s' where s': "wait_run [TimeoutFires i, Delete i, CloseChan i, SendOnClosed i] s = Some s'"
    "wa_connect s' = ConnectPanicked" "waiter_at s' i (WaitReturned False)"
    using assms(2,3) by (simp add: wait_defs)
  moreover have "wait_reach (\<lambda>_. True) n s'" by (rule wait_run_reach [OF assms(1) _ s'(1)]) simp
  ultimately show ?thesis by blast
qed

theorem wait_timeout_panics_witness:
  "\<exists>s s'. wait_run [Check 0, Store 0, ReceiverTest, Authorize, HandConnected, LockMap, VisitKey 0] (wait_init 1) = Some s \<and>
    wait_run [TimeoutFires 0, Delete 0, CloseChan 0, SendOnClosed 0] s = Some s' \<and> wa_connect s' = ConnectPanicked"
proof -
  obtain s where s: "wait_run [Check 0, Store 0, ReceiverTest, Authorize, HandConnected, LockMap, VisitKey 0] (wait_init 1) = Some s"
    "wa_connect s = AtSend 0" "waiter_at s 0 AtSelect"
    by (simp add: wait_defs wait_init_def)
  have "wait_reach (\<lambda>_. True) 1 s" by (rule wait_run_reach [OF wait_reach.start _ s(1)]) simp
  then show ?thesis using wait_timeout_panics [OF _ s(2,3)] s(1) by blast
qed

end
