(* ===== verification/Kuber_Observer.thy ===== *)
theory Kuber_Observer
  imports Prelude
begin

text \<open>
  \<open>kuber/mask.go\<close> and \<open>wrapHandler\<close> of \<open>kuber/observer.go\<close>: the masking of environment variables and
  arguments in pod specs, and the event handler that masks every object before it passes it on.

  The JSON tree of an object and the functions of the Kubernetes libraries on it are parameters: \<open>'j\<close>
  and the record \<open>json_api\<close>. The fields of containers and pod specs that the code does not touch are
  kept in the \<open>_rest\<close> fields. An object that is not an \<open>*unstructured.Unstructured\<close> is \<open>None\<close>, which is
  the \<open>nil\<close> pointer that the failed type assertion leaves.
\<close>

subsection \<open>Masking\<close>

definition maskedValue :: string where
  "maskedValue = ''**MASKED**''"

record 'x EnvVar =
  ev_Name :: string
  ev_Value :: string
  ev_rest :: 'x

record 'x Container =
  ct_Env :: "'x EnvVar list"
  ct_Args :: "string list"
  ct_rest :: 'x

record 'x PodSpec =
  ps_Containers :: "'x Container list"
  ps_InitContainers :: "'x Container list"
  ps_rest :: 'x

definition podSpecMap :: "string \<Rightarrow> string list option" where
  "podSpecMap kind =
     (if kind = ''Pod'' then Some [''spec'']
      else if kind \<in> {''ReplicationController'', ''Deployment'', ''StatefulSet'', ''DaemonSet'', ''ReplicaSet'', ''Job''}
      then Some [''spec'', ''template'', ''spec'']
      else if kind = ''CronJob'' then Some [''spec'', ''jobTemplate'', ''spec'', ''template'', ''spec'']
      else None)"

fun maskEnvVars :: "'x EnvVar list \<Rightarrow> 'x EnvVar list" where
  "maskEnvVars [] = []"
| "maskEnvVars (envVar # env) =
     (if ev_Value envVar \<noteq> [] then envVar\<lparr>ev_Value := maskedValue\<rparr> else envVar) # maskEnvVars env"

fun maskArgs :: "string list \<Rightarrow> string list" where
  "maskArgs [] = []"
| "maskArgs (_ # args) = maskedValue # maskArgs args"

fun maskContainers :: "'x Container list \<Rightarrow> 'x Container list" where
  "maskContainers [] = []"
| "maskContainers (container # containers) =
     container\<lparr>ct_Env := maskEnvVars (ct_Env container), ct_Args := maskArgs (ct_Args container)\<rparr> # maskContainers containers"

record ('j, 'x) json_api =
  js_Kind :: "'j \<Rightarrow> string"
  js_ResourceVersion :: "'j \<Rightarrow> string"
  js_MarshalJSON :: "'j \<Rightarrow> string + string"
  js_NestedField :: "'j \<Rightarrow> string list \<Rightarrow> string + 'j option"
  js_SetNestedField :: "'j \<Rightarrow> 'j \<Rightarrow> string list \<Rightarrow> string + 'j"
  js_ToPodSpec :: "'j \<Rightarrow> string + 'x PodSpec"
  js_FromPodSpec :: "'x PodSpec \<Rightarrow> string + 'j"

datatype mask_error = PodSpecError string | PodSpecMissing | TranscodeError string | SetError string

definition mask_spec :: "'x PodSpec \<Rightarrow> 'x PodSpec" where
  "mask_spec podSpec = podSpec\<lparr>ps_Containers := maskContainers (ps_Containers podSpec),
     ps_InitContainers := maskContainers (ps_InitContainers podSpec)\<rparr>"

definition maskUnstructured :: "('j, 'x) json_api \<Rightarrow> 'j \<Rightarrow> mask_error + 'j" where
  "maskUnstructured api obj =
     (case podSpecMap (js_Kind api obj) of
        None \<Rightarrow> Inr obj
      | Some podSpecPath \<Rightarrow>
          (case js_NestedField api obj podSpecPath of
             Inl err \<Rightarrow> Inl (PodSpecError err)
           | Inr None \<Rightarrow> Inl PodSpecMissing
           | Inr (Some podSpecU) \<Rightarrow>
               (case js_ToPodSpec api podSpecU of
                  Inl err \<Rightarrow> Inl (TranscodeError err)
                | Inr podSpec \<Rightarrow>
                    (case js_FromPodSpec api (mask_spec podSpec) of
                       Inl err \<Rightarrow> Inl (TranscodeError err)
                     | Inr podSpecJson \<Rightarrow>
                         (case js_SetNestedField api obj podSpecJson podSpecPath of
                            Inl err \<Rightarrow> Inl (SetError err)
                          | Inr obj' \<Rightarrow> Inr obj')))))"

subsection \<open>The event handler\<close>

datatype 'j handler_call = OnAdd 'j | OnUpdate 'j 'j | OnDelete 'j

definition AddFunc :: "('j, 'x) json_api \<Rightarrow> 'j option \<Rightarrow> 'j handler_call list option" where
  "AddFunc api obj =
     (case obj of
        None \<Rightarrow> Some []
      | Some objUn \<Rightarrow> (case maskUnstructured api objUn of Inl err \<Rightarrow> Some [] | Inr objUn' \<Rightarrow> Some [OnAdd objUn']))"

text \<open>The deep comparison: an error of marshalling the old object is overwritten by the outcome for the
  new one.\<close>

definition unchanged :: "('j, 'x) json_api \<Rightarrow> 'j option \<Rightarrow> 'j option \<Rightarrow> bool" where
  "unchanged api oldObj newObj =
     (case (oldObj, newObj) of
        (Some oldUn, Some newUn) \<Rightarrow>
          js_ResourceVersion api oldUn = js_ResourceVersion api newUn \<and>
          (let oldJson = (case js_MarshalJSON api oldUn of Inl err \<Rightarrow> [] | Inr json \<Rightarrow> json) in
           case js_MarshalJSON api newUn of Inl err \<Rightarrow> False | Inr newJson \<Rightarrow> oldJson = newJson)
      | _ \<Rightarrow> False)"

definition UpdateFunc :: "('j, 'x) json_api \<Rightarrow> 'j option \<Rightarrow> 'j option \<Rightarrow> 'j handler_call list option" where
  "UpdateFunc api oldObj newObj =
     (if unchanged api oldObj newObj then Some []
      else
        (case (oldObj, newObj) of
           (Some oldUn, Some newUn) \<Rightarrow>
             (let oldUn' = (case maskUnstructured api oldUn of Inl err \<Rightarrow> None | Inr u \<Rightarrow> Some u) in
              case maskUnstructured api newUn of
                Inl err \<Rightarrow> Some []
              | Inr newUn' \<Rightarrow> (case oldUn' of None \<Rightarrow> None | Some u \<Rightarrow> Some [OnUpdate u newUn']))
         | _ \<Rightarrow> Some []))"

definition DeleteFunc :: "('j, 'x) json_api \<Rightarrow> 'j option \<Rightarrow> 'j handler_call list option" where
  "DeleteFunc api obj =
     (case obj of
        None \<Rightarrow> Some []
      | Some objUn \<Rightarrow> (case maskUnstructured api objUn of Inl err \<Rightarrow> Some [] | Inr objUn' \<Rightarrow> Some [OnDelete objUn']))"

subsection \<open>What masked means\<close>

definition masked_container :: "'x Container \<Rightarrow> bool" where
  "masked_container c \<longleftrightarrow> (\<forall>v \<in> set (ct_Env c). ev_Value v \<in> {[], maskedValue}) \<and> set (ct_Args c) \<subseteq> {maskedValue}"

definition masked_spec :: "'x PodSpec \<Rightarrow> bool" where
  "masked_spec s \<longleftrightarrow> (\<forall>c \<in> set (ps_Containers s @ ps_InitContainers s). masked_container c)"

definition masked_object :: "('j, 'x) json_api \<Rightarrow> 'j \<Rightarrow> bool" where
  "masked_object api obj \<longleftrightarrow> (\<forall>path. podSpecMap (js_Kind api obj) = Some path \<longrightarrow>
     (\<exists>j spec. js_NestedField api obj path = Inr (Some j) \<and> js_ToPodSpec api j = Inr spec \<and> masked_spec spec))"

text \<open>The documented behaviour of the JSON functions: a field that was set is read back, setting a field
  below \<open>spec\<close> keeps the kind, and encoding then decoding a pod spec is the identity.\<close>

definition json_laws :: "('j, 'x) json_api \<Rightarrow> bool" where
  "json_laws api \<longleftrightarrow>
     (\<forall>obj v rest obj'. js_SetNestedField api obj v (''spec'' # rest) = Inr obj' \<longrightarrow>
        js_NestedField api obj' (''spec'' # rest) = Inr (Some v) \<and> js_Kind api obj' = js_Kind api obj) \<and>
     (\<forall>spec j. js_FromPodSpec api spec = Inr j \<longrightarrow> js_ToPodSpec api j = Inr spec)"

lemma maskEnvVars_masked: "v \<in> set (maskEnvVars env) \<Longrightarrow> ev_Value v \<in> {[], maskedValue}"
  by (induction env) (auto split: if_splits)

lemma maskArgs_masked: "maskArgs args = replicate (length args) maskedValue"
  by (induction args) auto

lemma maskContainers_masked: "c \<in> set (maskContainers cs) \<Longrightarrow> masked_container c"
  by (induction cs) (auto simp: masked_container_def maskArgs_masked dest!: maskEnvVars_masked)

lemma mask_spec_masked: "masked_spec (mask_spec spec)"
  by (auto simp: masked_spec_def mask_spec_def dest: maskContainers_masked)

text \<open>Masking changes values only: names, order, argument counts and all other fields stay.\<close>

lemma maskEnvVars_keeps: "map ev_Name (maskEnvVars env) = map ev_Name env" "map ev_rest (maskEnvVars env) = map ev_rest env"
  by (induction env) auto

lemma maskContainers_keeps:
  "map ct_rest (maskContainers cs) = map ct_rest cs"
  "map (\<lambda>c. map ev_Name (ct_Env c)) (maskContainers cs) = map (\<lambda>c. map ev_Name (ct_Env c)) cs"
  "map (\<lambda>c. length (ct_Args c)) (maskContainers cs) = map (\<lambda>c. length (ct_Args c)) cs"
  by (induction cs) (auto simp: maskEnvVars_keeps maskArgs_masked)

lemma maskUnstructured_masked:
  assumes "json_laws api" "maskUnstructured api obj = Inr obj'"
  shows "masked_object api obj'"
proof (cases "podSpecMap (js_Kind api obj)")
  case None
  then show ?thesis using assms(2) by (simp add: maskUnstructured_def masked_object_def)
next
  case (Some path)
  then obtain spec j where "js_FromPodSpec api (mask_spec spec) = Inr j" "js_SetNestedField api obj j path = Inr obj'"
    using assms(2) by (auto simp: maskUnstructured_def split: sum.splits option.splits)
  moreover obtain rest where "path = ''spec'' # rest" using Some by (auto simp: podSpecMap_def split: if_splits)
  ultimately show ?thesis
    using assms(1) Some mask_spec_masked unfolding json_laws_def masked_object_def by (metis option.inject)
qed

fun call_objects :: "'j handler_call \<Rightarrow> 'j list" where
  "call_objects (OnAdd obj) = [obj]"
| "call_objects (OnUpdate oldObj newObj) = [oldObj, newObj]"
| "call_objects (OnDelete obj) = [obj]"

text \<open>Everything that reaches the wrapped handler went through \<open>maskUnstructured\<close>.\<close>

lemma calls_are_masked:
  assumes "AddFunc api obj = Some calls \<or> UpdateFunc api obj obj2 = Some calls \<or> DeleteFunc api obj = Some calls"
    "call \<in> set calls" "x \<in> set (call_objects call)"
  shows "\<exists>y. maskUnstructured api y = Inr x"
  using assms
  by (auto simp: AddFunc_def UpdateFunc_def DeleteFunc_def Let_def split: option.splits sum.splits if_splits prod.splits)

subsection \<open>A small JSON model\<close>

datatype demo_json = DemoObject string demo_json | DemoSpec "unit PodSpec" | DemoOther

fun demo_kind :: "demo_json \<Rightarrow> string" where
  "demo_kind (DemoObject kind _) = kind"
| "demo_kind _ = []"

fun demo_nested :: "demo_json \<Rightarrow> string + demo_json option" where
  "demo_nested (DemoObject _ spec) = Inr (Some spec)"
| "demo_nested _ = Inr None"

fun demo_set :: "demo_json \<Rightarrow> demo_json \<Rightarrow> string + demo_json" where
  "demo_set (DemoObject kind _) v = Inr (DemoObject kind v)"
| "demo_set _ v = Inl ''not an object''"

fun demo_to_spec :: "demo_json \<Rightarrow> string + unit PodSpec" where
  "demo_to_spec (DemoSpec s) = Inr s"
| "demo_to_spec _ = Inl ''not a pod spec''"

definition demo_api :: "(demo_json, unit) json_api" where
  "demo_api = \<lparr>js_Kind = demo_kind, js_ResourceVersion = (\<lambda>_. ''1''), js_MarshalJSON = (\<lambda>_. Inl ''no json''),
     js_NestedField = (\<lambda>j _. demo_nested j), js_SetNestedField = (\<lambda>j v _. demo_set j v),
     js_ToPodSpec = demo_to_spec, js_FromPodSpec = (\<lambda>s. Inr (DemoSpec s))\<rparr>"

definition demo_secret_pod :: demo_json where
  "demo_secret_pod = DemoObject ''Pod'' (DemoSpec \<lparr>ps_Containers = [\<lparr>ct_Env = [\<lparr>ev_Name = ''PASSWORD'', ev_Value = ''hunter2'', ev_rest = ()\<rparr>],
     ct_Args = [''--token=abc''], ct_rest = ()\<rparr>], ps_InitContainers = [], ps_rest = ()\<rparr>)"

lemma json_laws_demo: "json_laws demo_api"
proof -
  have "demo_set obj v = Inr obj' \<Longrightarrow> demo_nested obj' = Inr (Some v) \<and> demo_kind obj' = demo_kind obj" for obj v obj'
    by (cases obj) auto
  then show ?thesis by (auto simp: json_laws_def demo_api_def)
qed

subsection \<open>Properties\<close>

text \<open>An update whose old object cannot be masked while the new one can makes the observer panic: the
  failure is logged, but the \<open>nil\<close> pointer it leaves is dereferenced.\<close>

theorem UpdateFunc_panics:
  assumes "\<not> unchanged api (Some oldUn) (Some newUn)" and "maskUnstructured api oldUn = Inl err"
    and "maskUnstructured api newUn = Inr newUn'"
  shows "UpdateFunc api (Some oldUn) (Some newUn) = None"
  using assms by (simp add: UpdateFunc_def)

theorem UpdateFunc_panics_witness:
  "UpdateFunc demo_api (Some (DemoObject ''Pod'' DemoOther)) (Some demo_secret_pod) = None"
  by (rule UpdateFunc_panics)
    (simp_all add: unchanged_def maskUnstructured_def demo_api_def demo_secret_pod_def podSpecMap_def)

end
