(* ===== verification/Kuber_Resources.thy ===== *)
theory Kuber_Resources
  imports Prelude
begin

text \<open>
  \<open>kuber/resources.go\<close>: the kinds of resources the agent knows, each with its group, version and resource
  name. The groups and versions come from the \<open>SchemeGroupVersion\<close> variables of the Kubernetes API packages,
  which are a parameter: \<open>scheme_versions\<close>.
\<close>

type_synonym GroupVersion = "string \<times> string"

record scheme_versions =
  sv_core :: GroupVersion
  sv_apps :: GroupVersion
  sv_batch :: GroupVersion
  sv_batch_beta :: GroupVersion
  sv_networking :: GroupVersion
  sv_rbac :: GroupVersion
  sv_storage :: GroupVersion

record GroupVersionResourceKind =
  gv_Group :: string
  gv_Version :: string
  gv_Resource :: string
  gv_Kind :: string

definition gvrk_String :: "GroupVersionResourceKind \<Rightarrow> string" where
  "gvrk_String gvrk = concat [gv_Group gvrk, ''/'', gv_Version gvrk, '', Resource='', gv_Resource gvrk, '', Kind='', gv_Kind gvrk]"

definition WithResource :: "GroupVersion \<Rightarrow> string \<Rightarrow> string \<Rightarrow> GroupVersionResourceKind" where
  "WithResource gv resource kind = \<lparr>gv_Group = fst gv, gv_Version = snd gv, gv_Resource = resource, gv_Kind = kind\<rparr>"

definition Nodes :: "scheme_versions \<Rightarrow> GroupVersionResourceKind" where
  "Nodes v = WithResource (sv_core v) ''nodes'' ''Node''"

definition Namespaces :: "scheme_versions \<Rightarrow> GroupVersionResourceKind" where
  "Namespaces v = WithResource (sv_core v) ''namespaces'' ''Namespace''"

definition LimitRanges :: "scheme_versions \<Rightarrow> GroupVersionResourceKind" where
  "LimitRanges v = WithResource (sv_core v) ''limitranges'' ''LimitRange''"

definition Pods :: "scheme_versions \<Rightarrow> GroupVersionResourceKind" where
  "Pods v = WithResource (sv_core v) ''pods'' ''Pod''"

definition ReplicationControllers :: "scheme_versions \<Rightarrow> GroupVersionResourceKind" where
  "ReplicationControllers v = WithResource (sv_core v) ''replicationcontrollers'' ''ReplicationController''"

definition Deployments :: "scheme_versions \<Rightarrow> GroupVersionResourceKind" where
  "Deployments v = WithResource (sv_apps v) ''deployments'' ''Deployment''"

definition StatefulSets :: "scheme_versions \<Rightarrow> GroupVersionResourceKind" where
  "StatefulSets v = WithResource (sv_apps v) ''statefulsets'' ''StatefulSet''"

definition DaemonSets :: "scheme_versions \<Rightarrow> GroupVersionResourceKind" where
  "DaemonSets v = WithResource (sv_apps v) ''daemonsets'' ''DaemonSet''"

definition ReplicaSets :: "scheme_versions \<Rightarrow> GroupVersionResourceKind" where
  "ReplicaSets v = WithResource (sv_apps v) ''replicasets'' ''ReplicaSet''"

definition Jobs :: "scheme_versions \<Rightarrow> GroupVersionResourceKind" where
  "Jobs v = WithResource (sv_batch v) ''jobs'' ''Job''"

definition CronJobs :: "scheme_versions \<Rightarrow> GroupVersionResourceKind" where
  "CronJobs v = WithResource (sv_batch_beta v) ''cronjobs'' ''CronJob''"

definition Ingresses :: "scheme_versions \<Rightarrow> GroupVersionResourceKind" where
  "Ingresses v = WithResource (sv_networking v) ''ingresses'' ''Ingress''"

definition IngressClasses :: "scheme_versions \<Rightarrow> GroupVersionResourceKind" where
  "IngressClasses v = WithResource (sv_networking v) ''ingressclasses'' ''IngressClass''"

definition NetworkPolicies :: "scheme_versions \<Rightarrow> GroupVersionResourceKind" where
  "NetworkPolicies v = WithResource (sv_networking v) ''networkpolicies'' ''NetworkPolicy''"

definition Services :: "scheme_versions \<Rightarrow> GroupVersionResourceKind" where
  "Services v = WithResource (sv_core v) ''services'' ''Service''"

definition PersistentVolumes :: "scheme_versions \<Rightarrow> GroupVersionResourceKind" where
  "PersistentVolumes v = WithResource (sv_core v) ''persistentvolumes'' ''PersistentVolume''"

definition PersistentVolumeClaims :: "scheme_versions \<Rightarrow> GroupVersionResourceKind" where
  "PersistentVolumeClaims v = WithResource (sv_core v) ''persistentvolumeclaims'' ''PersistentVolumeClaim''"

definition StorageClasses :: "scheme_versions \<Rightarrow> GroupVersionResourceKind" where
  "StorageClasses v = WithResource (sv_storage v) ''storageclasses'' ''StorageClass''"

definition Roles :: "scheme_versions \<Rightarrow> GroupVersionResourceKind" where
  "Roles v = WithResource (sv_rbac v) ''roles'' ''Role''"

definition RoleBindings :: "scheme_versions \<Rightarrow> GroupVersionResourceKind" where
  "RoleBindings v = WithResource (sv_rbac v) ''rolebindings'' ''RoleBinding''"

definition ClusterRoles :: "scheme_versions \<Rightarrow> GroupVersionResourceKind" where
  "ClusterRoles v = WithResource (sv_rbac v) ''clusterroles'' ''ClusterRole''"

definition ClusterRoleBindings :: "scheme_versions \<Rightarrow> GroupVersionResourceKind" where
  "ClusterRoleBindings v = WithResource (sv_rbac v) ''clusterrolebindings'' ''ClusterRoleBinding''"

definition ServiceAccounts :: "scheme_versions \<Rightarrow> GroupVersionResourceKind" where
  "ServiceAccounts v = WithResource (sv_core v) ''serviceaccounts'' ''ServiceAccount''"

lemmas resource_defs = Nodes_def Namespaces_def LimitRanges_def Pods_def ReplicationControllers_def Deployments_def
  StatefulSets_def DaemonSets_def ReplicaSets_def Jobs_def CronJobs_def Ingresses_def
  IngressClasses_def NetworkPolicies_def Services_def PersistentVolumes_def PersistentVolumeClaims_def StorageClasses_def
  Roles_def RoleBindings_def ClusterRoles_def ClusterRoleBindings_def ServiceAccounts_def

lemma WithResource_sel [simp]: "gv_Kind (WithResource gv resource kind) = kind" "gv_Resource (WithResource gv resource kind) = resource"
  by (simp_all add: WithResource_def)

end
