(* ===== verification/Entities.thy ===== *)
theory Entities
  imports Auditor_Loop Kuber_Resources
begin

text \<open>
  \<open>entities/entities.go\<close>: the watcher that turns cluster events into deltas and calls of the registered
  handlers, and the worker that collects the deltas.

  The queue of deltas is a list; sending to it blocks when it is full, which the model leaves to the
  scheduler. The registered handlers are a list in the order a \<open>range\<close> loop visits them; a call is the
  audit event that the handler, the auditor, makes of it. \<open>deltasWorker\<close> reads a sequence of channel
  events and clock readings and returns the maps of deltas it flushes: the code builds the list of
  deltas from such a map and then drops it.
\<close>

subsection \<open>Watched resources\<close>

definition watchedResources :: "scheme_versions \<Rightarrow> GroupVersionResourceKind list" where
  "watchedResources v = [Nodes v, Namespaces v, LimitRanges v, Pods v, ReplicationControllers v, Deployments v, StatefulSets v,
     DaemonSets v, ReplicaSets v, Jobs v, CronJobs v, Ingresses v, NetworkPolicies v, Services v, PersistentVolumes v,
     PersistentVolumeClaims v, StorageClasses v, Roles v, RoleBindings v, ClusterRoles v, ClusterRoleBindings v, ServiceAccounts v]"

text \<open>\<open>NewEntitiesWatcher\<close> extends the package variable.\<close>

definition resources_for_version :: "scheme_versions \<Rightarrow> int \<Rightarrow> GroupVersionResourceKind list" where
  "resources_for_version v version =
     (if version \<ge> 18 then watchedResources v @ [IngressClasses v] else watchedResources v)"

text \<open>The watchers that the first loop of \<open>Start\<close> creates; \<open>watch\<close> is \<open>Observer.Watch\<close>.\<close>

fun start_watchers :: "(GroupVersionResourceKind \<Rightarrow> 'w) \<Rightarrow> GroupVersionResourceKind list \<Rightarrow>
    (GroupVersionResourceKind, 'w) fmap \<times> (string, 'w) fmap \<Rightarrow> (GroupVersionResourceKind, 'w) fmap \<times> (string, 'w) fmap" where
  "start_watchers watch [] ws = ws"
| "start_watchers watch (gvrk # rest) (watchers, watchersByKind) =
     (let w = watch gvrk in start_watchers watch rest (fmupd gvrk w watchers, fmupd (gv_Kind gvrk) w watchersByKind))"

definition WatcherFor :: "(GroupVersionResourceKind, 'w) fmap \<Rightarrow> GroupVersionResourceKind \<Rightarrow> string + 'w" where
  "WatcherFor watchers gvrk =
     (case fmlookup watchers gvrk of None \<Rightarrow> Inl ''non watched resource'' | Some w \<Rightarrow> Inr w)"

text \<open>\<open>GetAllEntitiesByGvrk\<close>: each watcher with the answer of its lister, in visiting order.\<close>

fun GetAllEntitiesByGvrk :: "('g \<times> (string + 'u list)) list \<Rightarrow> ('g \<times> 'u list) list \<times> string list" where
  "GetAllEntitiesByGvrk [] = ([], [])"
| "GetAllEntitiesByGvrk ((gvrk, ret) # ws) =
     (case GetAllEntitiesByGvrk ws of (entities, errs) \<Rightarrow>
       (case ret of
          Inl err \<Rightarrow> ((gvrk, []) # entities, err # errs)
        | Inr us \<Rightarrow> ((gvrk, us) # entities, errs)))"

subsection \<open>Parents for packets\<close>

datatype PacketParentController = PacketParentController
  (pp_Kind: string) (pp_Name: string) (pp_APIVersion: string) (pp_IsWatched: bool)
  (pp_Parent: "PacketParentController option")

fun packetParent :: "ParentController option \<Rightarrow> PacketParentController option" where
  "packetParent None = None"
| "packetParent (Some (ParentController k n a w p)) = Some (PacketParentController k n a w (packetParent p))"

definition ew_getParents :: "GetWatcherFromKindFunc \<Rightarrow> Identifiable \<Rightarrow> ParentsStore \<Rightarrow>
    (ParentsStore \<times> (parents_error + PacketParentController option)) option" where
  "ew_getParents watchersByKind u store = do {
     (store', r) \<leftarrow> GetParents watchersByKind u store;
     Some (store', (case r of Inl err \<Rightarrow> Inl err | Inr parent \<Rightarrow> Inr (packetParent parent))) }"

subsection \<open>Events\<close>

datatype delta_kind = EntityDeltaKindUpsert | EntityDeltaKindDelete

record 'obj Delta =
  dl_Kind :: delta_kind
  dl_Data :: "'obj Unstructured"
  dl_Timestamp :: go_time

record ('h, 'obj) EntitiesWatcher =
  ew_parents :: ParentsStore
  ew_deltasQueue :: "'obj Delta list"
  ew_handlers :: "'h list"

definition ew_OnAdd :: "go_time \<Rightarrow> 'obj Unstructured \<Rightarrow> ('h, 'obj) EntitiesWatcher \<Rightarrow>
    ('h, 'obj) EntitiesWatcher \<times> ('h \<times> 'obj AuditEvent) list" where
  "ew_OnAdd now obj ew =
     (let delta = \<lparr>dl_Kind = EntityDeltaKindUpsert, dl_Data = obj, dl_Timestamp = now\<rparr>
      in (ew\<lparr>ew_deltasQueue := ew_deltasQueue ew @ [delta]\<rparr>, map (\<lambda>h. (h, OnResourceAdd obj)) (ew_handlers ew)))"

definition ew_OnUpdate :: "go_time \<Rightarrow> 'obj Unstructured \<Rightarrow> 'obj Unstructured \<Rightarrow> ('h, 'obj) EntitiesWatcher \<Rightarrow>
    ('h, 'obj) EntitiesWatcher \<times> ('h \<times> 'obj AuditEvent) list" where
  "ew_OnUpdate now oldObj newObj ew =
     (let delta = \<lparr>dl_Kind = EntityDeltaKindUpsert, dl_Data = newObj, dl_Timestamp = now\<rparr>
      in (ew\<lparr>ew_deltasQueue := ew_deltasQueue ew @ [delta]\<rparr>, map (\<lambda>h. (h, OnResourceUpdate oldObj newObj)) (ew_handlers ew)))"

definition ew_OnDelete :: "go_time \<Rightarrow> 'obj Unstructured \<Rightarrow> ('h, 'obj) EntitiesWatcher \<Rightarrow>
    ('h, 'obj) EntitiesWatcher \<times> ('h \<times> 'obj AuditEvent) list" where
  "ew_OnDelete now obj ew =
     (let ew1 = ew\<lparr>ew_parents := parents_Delete (un_Namespace obj) (un_Kind obj) (un_Name obj) (ew_parents ew)\<rparr>;
          delta = \<lparr>dl_Kind = EntityDeltaKindDelete, dl_Data = obj, dl_Timestamp = now\<rparr>
      in (ew1\<lparr>ew_deltasQueue := ew_deltasQueue ew1 @ [delta]\<rparr>, map (\<lambda>h. (h, OnResourceDelete obj)) (ew_handlers ew1)))"

definition ew_GetParents_entities :: "string \<Rightarrow> string \<Rightarrow> string \<Rightarrow> ('h, 'obj) EntitiesWatcher \<Rightarrow> ParentController option option" where
  "ew_GetParents_entities namespace kind name ew = store_GetParents namespace kind name (ew_parents ew)"

text \<open>\<open>WaitForCacheSync\<close> tells every handler, whether the wait succeeded or timed out.\<close>

definition ew_WaitForCacheSync :: "string option \<Rightarrow> ('h, 'obj) EntitiesWatcher \<Rightarrow> ('h \<times> 'obj AuditEvent) list" where
  "ew_WaitForCacheSync err ew = map (\<lambda>h. (h, OnCacheSync)) (ew_handlers ew)"

definition AddResourceEventsHandler :: "'h \<Rightarrow> ('h, 'obj) EntitiesWatcher \<Rightarrow> ('h, 'obj) EntitiesWatcher" where
  "AddResourceEventsHandler handler ew = ew\<lparr>ew_handlers := List.insert handler (ew_handlers ew)\<rparr>"

definition NewEntitiesWatcher :: "ParentsStore \<Rightarrow> ('h, 'obj) EntitiesWatcher" where
  "NewEntitiesWatcher parentsStore = \<lparr>ew_parents = parentsStore, ew_deltasQueue = [], ew_handlers = []\<rparr>"

subsection \<open>The deltas worker\<close>

definition deltasPacketFlushAfterSize :: nat where "deltasPacketFlushAfterSize = 100"
definition deltasPacketFlushAfterTime :: go_duration where "deltasPacketFlushAfterTime = 10 * 10 ^ 9"

datatype 'obj delta_event = GotItem "'obj Delta" go_time | FlushTimeout | CtxDone

type_synonym 'obj delta_items = "(string, 'obj Delta) fmap"

definition delta_identifier :: "'obj Delta \<Rightarrow> string" where
  "delta_identifier item =
     un_Namespace (dl_Data item) @ '':'' @ un_Kind (dl_Data item) @ '':'' @ un_Name (dl_Data item)"

definition add_delta :: "'obj Delta \<Rightarrow> 'obj delta_items \<Rightarrow> 'obj delta_items" where
  "add_delta item items =
     (let identifier = delta_identifier item in
      case fmlookup items identifier of
        None \<Rightarrow> fmupd identifier item items
      | Some oldItem \<Rightarrow> if dl_Timestamp item > dl_Timestamp oldItem then fmupd identifier item items else items)"

text \<open>The inner loop, started at time \<open>t\<close>: the flushed map, the unread events and \<open>shouldStop\<close>; \<open>None\<close> if
  the events end before it flushes.\<close>

fun deltas_round :: "go_time \<Rightarrow> 'obj delta_event list \<Rightarrow> 'obj delta_items \<Rightarrow> ('obj delta_items \<times> 'obj delta_event list \<times> bool) option" where
  "deltas_round t [] items = None"
| "deltas_round t (GotItem item now # es) items =
     (let items' = add_delta item items in
      if fcard (fmdom items') \<ge> deltasPacketFlushAfterSize \<or> now - t \<ge> deltasPacketFlushAfterTime
      then Some (items', es, False)
      else deltas_round t es items')"
| "deltas_round t (FlushTimeout # es) items = Some (items, es, False)"
| "deltas_round t (CtxDone # es) items = Some (items, es, True)"

lemma deltas_round_shorter: "deltas_round t es items = Some (items', es', stop) \<Longrightarrow> length es' < length es"
  by (induction t es items rule: deltas_round.induct) (auto simp: Let_def less_SucI split: if_splits)

function deltasWorker :: "(nat \<Rightarrow> go_time) \<Rightarrow> nat \<Rightarrow> 'obj delta_event list \<Rightarrow> 'obj delta_items list \<times> bool" where
  "deltasWorker clock k es =
     (case deltas_round (clock k) es fmempty of
        None \<Rightarrow> ([], False)
      | Some (items, es', stop) \<Rightarrow>
          if stop then ([items], True)
          else (case deltasWorker clock (Suc k) es' of (flushed, stopped) \<Rightarrow> (items # flushed, stopped)))"
  by pat_completeness auto
termination by (relation "measure (\<lambda>(_, _, es). length es)") (auto dest: deltas_round_shorter)

subsection \<open>Lemmas\<close>

fun deltas_of :: "'obj delta_event list \<Rightarrow> 'obj Delta list" where
  "deltas_of [] = []"
| "deltas_of (GotItem d now # es) = d # deltas_of es"
| "deltas_of (_ # es) = deltas_of es"

text \<open>\<open>items\<close> holds, for each entity among the deltas \<open>ds\<close>, a newest one.\<close>

definition newest :: "'obj Delta list \<Rightarrow> 'obj delta_items \<Rightarrow> bool" where
  "newest ds items \<longleftrightarrow>
     (\<forall>d \<in> set ds. \<exists>d'. fmlookup items (delta_identifier d) = Some d' \<and> dl_Timestamp d \<le> dl_Timestamp d') \<and>
     (\<forall>k d'. fmlookup items k = Some d' \<longrightarrow> d' \<in> set ds \<and> delta_identifier d' = k)"

lemma newest_add: "newest ds items \<Longrightarrow> newest (ds @ [d]) (add_delta d items)"
  by (fastforce simp: newest_def add_delta_def Let_def split: option.splits)

lemma fcard_add_delta: "fcard (fmdom (add_delta d items)) \<le> Suc (fcard (fmdom items))"
proof -
  have "fcard (finsert x F) \<le> Suc (fcard F)" for x and F :: "string fset"
    by (simp add: fcard.rep_eq card_insert_if)
  then show ?thesis by (auto simp: add_delta_def Let_def split: option.splits)
qed

lemma deltas_round_newest:
  "deltas_round t es items = Some (items', es', stop) \<Longrightarrow> newest ds items \<Longrightarrow> fcard (fmdom items) < deltasPacketFlushAfterSize \<Longrightarrow>
    \<exists>pre. es = pre @ es' \<and> newest (ds @ deltas_of pre) items' \<and> fcard (fmdom items') \<le> deltasPacketFlushAfterSize"
proof (induction t es items arbitrary: ds rule: deltas_round.induct)
  case (2 t item now es items)
  let ?items = "add_delta item items"
  have new: "newest (ds @ [item]) ?items" "fcard (fmdom ?items) \<le> deltasPacketFlushAfterSize"
    using newest_add [OF 2(3)] fcard_add_delta [of item items] 2(4) by auto
  show ?case
  proof (cases "fcard (fmdom ?items) \<ge> deltasPacketFlushAfterSize \<or> now - t \<ge> deltasPacketFlushAfterTime")
    case True
    then show ?thesis using 2(2) new by (intro exI [of _ "[GotItem item now]"]) (auto simp: Let_def)
  next
    case False
    then have "deltas_round t es ?items = Some (items', es', stop)" "fcard (fmdom ?items) < deltasPacketFlushAfterSize"
      using 2(2) by (auto simp: Let_def)
    from 2(1) [OF refl False this(1) new(1) this(2)] obtain pre where
      "es = pre @ es'" "newest ((ds @ [item]) @ deltas_of pre) items'" "fcard (fmdom items') \<le> deltasPacketFlushAfterSize" by blast
    then show ?thesis by (intro exI [of _ "GotItem item now # pre"]) simp
  qed
next
  case (3 t es items)
  then show ?case by (intro exI [of _ "[FlushTimeout]"]) auto
next
  case (4 t es items)
  then show ?case by (intro exI [of _ "[CtxDone]"]) auto
qed simp

lemma packetParent_inj: "packetParent p = packetParent q \<Longrightarrow> p = q"
proof (induction p arbitrary: q rule: packetParent.induct)
  case 1
  then show ?case by (cases q rule: packetParent.cases) auto
next
  case (2 k n a w p)
  then show ?case by (cases q rule: packetParent.cases) auto
qed

text \<open>The watched resources have distinct kinds, so no watcher hides another one.\<close>

lemma IngressClasses_watched: "IngressClasses v \<in> set (resources_for_version v version) \<longleftrightarrow> version \<ge> 18"
  by (auto simp: resources_for_version_def watchedResources_def resource_defs WithResource_def)

lemma resource_kinds_distinct: "distinct (map gv_Kind (resources_for_version v version))"
  by (simp add: resources_for_version_def watchedResources_def resource_defs)

lemma start_watchers_lookup:
  "distinct (map gv_Kind gs) \<Longrightarrow> start_watchers watch gs (m, k) = (m', k') \<Longrightarrow>
    (\<forall>g. fmlookup m' g = (if g \<in> set gs then Some (watch g) else fmlookup m g)) \<and>
    (\<forall>g \<in> set gs. fmlookup k' (gv_Kind g) = Some (watch g)) \<and>
    (\<forall>x. x \<notin> gv_Kind ` set gs \<longrightarrow> fmlookup k' x = fmlookup k x)"
proof (induction gs arbitrary: m k)
  case (Cons g gs)
  then show ?case using Cons.IH [of "fmupd g (watch g) m" "fmupd (gv_Kind g) (watch g) k"] by (auto simp: Let_def)
qed simp

subsection \<open>Properties\<close>

text \<open>After \<open>Start\<close> every watched resource, and no other, has a watcher, it is the watcher created for that
  resource, and the index by kind, which the search for parents uses, leads to the same watcher: no two
  resources share a kind. Ingress classes are watched exactly from minor version 18 on.\<close>

theorem watchers_complete:
  assumes "start_watchers watch (resources_for_version v version) (fmempty, fmempty) = (watchers, watchersByKind)"
  shows "(\<forall>gvrk. WatcherFor watchers gvrk = (if gvrk \<in> set (resources_for_version v version) then Inr (watch gvrk)
      else Inl ''non watched resource'')) \<and>
    (\<forall>gvrk \<in> set (resources_for_version v version). fmlookup watchersByKind (gv_Kind gvrk) = Some (watch gvrk)) \<and>
    (IngressClasses v \<in> set (resources_for_version v version) \<longleftrightarrow> version \<ge> 18) \<and>
    length (resources_for_version v version) = (if version \<ge> 18 then 23 else 22)"
proof -
  have "length (resources_for_version v version) = (if version \<ge> 18 then 23 else 22)"
    by (simp add: resources_for_version_def watchedResources_def)
  then show ?thesis
    using start_watchers_lookup [OF resource_kinds_distinct assms] IngressClasses_watched [of v version] by (simp add: WatcherFor_def)
qed

definition demo_versions :: scheme_versions where
  "demo_versions = \<lparr>sv_core = ([], ''v1''), sv_apps = (''apps'', ''v1''), sv_batch = (''batch'', ''v1''), sv_batch_beta = (''batch'', ''v1beta1''),
     sv_networking = (''networking.k8s.io'', ''v1''), sv_rbac = (''rbac.authorization.k8s.io'', ''v1''), sv_storage = (''storage.k8s.io'', ''v1'')\<rparr>"

theorem watchers_complete_witness:
  "\<exists>watchers watchersByKind. start_watchers gvrk_String (resources_for_version demo_versions 17) (fmempty, fmempty) = (watchers, watchersByKind) \<and>
    IngressClasses demo_versions \<notin> set (resources_for_version demo_versions 17) \<and> length (resources_for_version demo_versions 17) = 22 \<and>
    WatcherFor watchers (IngressClasses demo_versions) = Inl ''non watched resource''"
proof -
  obtain watchers watchersByKind where
    w: "start_watchers gvrk_String (resources_for_version demo_versions 17) (fmempty, fmempty) = (watchers, watchersByKind)" by fastforce
  show ?thesis using watchers_complete [OF w] w by auto
qed


text \<open>Each flush of the deltas worker holds, for every entity with a delta since the previous flush, a
  newest one of its deltas, and nothing else, and at most 100 entities.\<close>

theorem deltas_round_correct:
  assumes "deltas_round t es fmempty = Some (items, es', stop)"
  shows "\<exists>pre. es = pre @ es' \<and> newest (deltas_of pre) items \<and> fcard (fmdom items) \<le> 100"
  using deltas_round_newest [OF assms, of "[]"] by (simp add: newest_def deltasPacketFlushAfterSize_def fcard.rep_eq)

theorem deltas_round_correct_witness:
  "\<exists>pre. [GotItem \<lparr>dl_Kind = EntityDeltaKindUpsert, dl_Data = demo_entity, dl_Timestamp = 1\<rparr> 1, FlushTimeout, CtxDone] = pre @ [CtxDone] \<and>
    newest (deltas_of pre) (fmupd ''ns:Deployment:web'' \<lparr>dl_Kind = EntityDeltaKindUpsert, dl_Data = demo_entity, dl_Timestamp = 1\<rparr> fmempty) \<and>
    fcard (fmdom (fmupd ''ns:Deployment:web'' \<lparr>dl_Kind = EntityDeltaKindUpsert, dl_Data = demo_entity, dl_Timestamp = 1\<rparr> fmempty)) \<le> 100"
  by (rule deltas_round_correct [where t = 0 and stop = False])
    (simp add: add_delta_def delta_identifier_def demo_entity_def deltasPacketFlushAfterSize_def deltasPacketFlushAfterTime_def fcard.rep_eq)

end
