(* ===== verification/Utils.thy ===== *)
theory Utils
  imports Prelude "HOL-Library.Sublist"
begin

text \<open>
  \<open>utils/utils.go\<close>: command line flags, the sanitised arguments that are logged, and string truncation.

  A docopt value is a string, a boolean or absent (\<open>arg\<close>). \<open>logger.Fatal\<close> and \<open>os.Exit\<close> end the process:
  \<open>Exit\<close>. A run-time panic, such as a failed type assertion, is \<open>Panic\<close>. Environment lookup, UUID and
  duration parsing are parameters. Strings are byte strings.
\<close>

subsection \<open>Flags\<close>

datatype arg = StringArg string | BoolArg bool

type_synonym args = "string \<Rightarrow> arg option"

datatype 'a process = Value 'a | Exit int | Panic

definition string_value :: "args \<Rightarrow> string \<Rightarrow> string option" where
  "string_value args flag = (case args flag of Some (StringArg s) \<Rightarrow> Some s | _ \<Rightarrow> None)"

definition ExpandEnv :: "(string \<Rightarrow> string) \<Rightarrow> args \<Rightarrow> string \<Rightarrow> bool \<Rightarrow> string process" where
  "ExpandEnv getenv args flag allowEmpty =
     (case string_value args flag of
        None \<Rightarrow> if allowEmpty then Value [] else Exit 1
      | Some [] \<Rightarrow> if allowEmpty then Value [] else Exit 1
      | Some (c # rest) \<Rightarrow>
          if c \<noteq> CHR ''$'' then Value (c # rest)
          else (let value = getenv rest in if value = [] then Exit 1 else Value value))"

definition ExpandEnvUUID :: "(string \<Rightarrow> 'uuid option) \<Rightarrow> (string \<Rightarrow> string) \<Rightarrow> args \<Rightarrow> string \<Rightarrow> 'uuid process" where
  "ExpandEnvUUID parse getenv args flag =
     (let of_string = (\<lambda>s. case parse s of None \<Rightarrow> Exit 1 | Some u \<Rightarrow> Value u) in
      case string_value args flag of
        None \<Rightarrow> Exit 1
      | Some [] \<Rightarrow> Exit 1
      | Some (c # rest) \<Rightarrow>
          if c \<noteq> CHR ''$'' then of_string (c # rest)
          else (let value = getenv rest in if value = [] then Exit 1 else of_string value))"

text \<open>The type assertion \<open>args[flag].(string)\<close> panics, and the deferred function panics again.\<close>

definition MustParseDuration :: "(string \<Rightarrow> go_duration option) \<Rightarrow> args \<Rightarrow> string \<Rightarrow> go_duration process" where
  "MustParseDuration parse args flag =
     (case string_value args flag of
        None \<Rightarrow> Panic
      | Some s \<Rightarrow> (case parse s of None \<Rightarrow> Exit 1 | Some d \<Rightarrow> Value d))"

definition MustParseInt :: "(string \<Rightarrow> int option) \<Rightarrow> args \<Rightarrow> string \<Rightarrow> int process" where
  "MustParseInt atoi args flag =
     (case string_value args flag of
        None \<Rightarrow> Panic
      | Some s \<Rightarrow> (case atoi s of None \<Rightarrow> Exit 1 | Some n \<Rightarrow> Value n))"

subsection \<open>Sanitised arguments\<close>

text \<open>\<open>fmt.Sprint\<close> of a length: decimal digits.\<close>

fun decimal :: "nat \<Rightarrow> string" where
  "decimal n = (if n < 10 then [char_of (48 + n)] else decimal (n div 10) @ [char_of (48 + n mod 10)])"

declare decimal.simps [simp del]

definition sensitive_flag :: string where
  "sensitive_flag = ''--client-secret''"

definition has_prefix :: "string \<Rightarrow> string \<Rightarrow> bool" where
  "has_prefix s p = (take (length p) s = p)"

definition hide :: "string \<Rightarrow> string" where
  "hide value =
     (if value \<noteq> [] \<and> \<not> has_prefix value ''$'' then ''<sensitive:'' @ decimal (length value) @ ''>'' else value)"

text \<open>The loop over \<open>os.Args\<close>; a flag without \<open>=\<close> takes the next argument as its value.\<close>

fun GetSanitizedArgs :: "string list \<Rightarrow> string list" where
  "GetSanitizedArgs [] = []"
| "GetSanitizedArgs (arg # rest) =
     (if has_prefix arg sensitive_flag then
        (if has_prefix arg (sensitive_flag @ ''='') then
           (sensitive_flag @ ''='' @ hide (drop (length (sensitive_flag @ ''='')) arg)) # GetSanitizedArgs rest
         else
           (case rest of
              [] \<Rightarrow> [arg]
            | value # rest' \<Rightarrow> arg # hide value # GetSanitizedArgs rest'))
      else arg # GetSanitizedArgs rest)"

subsection \<open>Truncation\<close>

text \<open>\<open>str[0:num]\<close> panics for a negative bound.\<close>

definition TruncateString :: "string \<Rightarrow> int \<Rightarrow> string option" where
  "TruncateString str num =
     (if int (length str) > num then
        (let num' = (if num > 3 then num - 3 else num)
         in if num' < 0 then None else Some (take (nat num') str @ ''...''))
      else Some str)"

lemma TruncateString_bound:
  assumes "TruncateString str num = Some s" "num > 3"
  shows "int (length s) \<le> num"
  using assms by (auto simp: TruncateString_def Let_def split: if_splits)

text \<open>For bounds up to 3 the result is longer than the bound.\<close>

lemma TruncateString_exceeds:
  assumes "0 \<le> num" "num \<le> 3" "int (length str) > num"
  shows "\<exists>s. TruncateString str num = Some s \<and> int (length s) = num + 3"
  using assms by (auto simp: TruncateString_def)

subsection \<open>Properties\<close>

lemma hide_same_length:
  "length v = length v' \<Longrightarrow> v \<noteq> [] \<Longrightarrow> hd v \<noteq> CHR ''$'' \<Longrightarrow> hd v' \<noteq> CHR ''$'' \<Longrightarrow> hide v = hide v'"
  by (cases v; cases v') (auto simp: hide_def has_prefix_def)

lemma GetSanitizedArgs_prefix:
  "\<forall>a \<in> set pre. \<not> has_prefix a sensitive_flag \<Longrightarrow> GetSanitizedArgs (pre @ xs) = pre @ GetSanitizedArgs xs"
  by (induction pre) auto

text \<open>C40: The arguments that the agent logs reveal of the client secret nothing but its length, whether it
  is given as one argument or as two: two secrets of the same length, neither the name of an environment
  variable, give the same sanitised arguments.\<close>

theorem GetSanitizedArgs_hides_secret:
  assumes "\<forall>a \<in> set pre. \<not> has_prefix a sensitive_flag" and "length v = length v'" and "v \<noteq> []"
    and "hd v \<noteq> CHR ''$''" and "hd v' \<noteq> CHR ''$''"
  shows "GetSanitizedArgs (pre @ [sensitive_flag, v] @ post) = GetSanitizedArgs (pre @ [sensitive_flag, v'] @ post) \<and>
    GetSanitizedArgs (pre @ [sensitive_flag @ ''='' @ v] @ post) = GetSanitizedArgs (pre @ [sensitive_flag @ ''='' @ v'] @ post)"
  using hide_same_length [OF assms(2-5)]
  by (simp add: GetSanitizedArgs_prefix [OF assms(1)] has_prefix_def)

theorem GetSanitizedArgs_hides_secret_witness:
  "GetSanitizedArgs ([''agent''] @ [sensitive_flag, ''hunter2''] @ [''--debug'']) =
     GetSanitizedArgs ([''agent''] @ [sensitive_flag, ''letmein''] @ [''--debug'']) \<and>
   GetSanitizedArgs ([''agent''] @ [sensitive_flag @ ''='' @ ''hunter2''] @ [''--debug'']) =
     GetSanitizedArgs ([''agent''] @ [sensitive_flag @ ''='' @ ''letmein''] @ [''--debug''])"
  by (rule GetSanitizedArgs_hides_secret) (simp_all add: has_prefix_def sensitive_flag_def)

end
