(* ===== verification/Agent_Main.thy ===== *)
theory Agent_Main
  imports Prelude
begin

text \<open>
  \<open>agent/agent.go\<close> and \<open>agent/handlers.go\<close>: the life of the agent. \<open>Start\<close> installs the handlers, starts the
  gateway, waits for authorization and starts the sources; a restart request stops the sources, writes
  out the logs, stops the sinks, sleeps and exits; \<open>Stop\<close> cancels everything.

  A context is one of the three that \<open>Start\<close> creates; cancelling \<open>AllCtx\<close> cancels the two derived from it.
  The fields \<open>cancelAll\<close>, \<open>cancelSources\<close> and \<open>cancelSinks\<close> hold the context their function cancels, or
  \<open>None\<close> for nil; calling nil panics. The gateway, the entities source and the auditor run in
  goroutines of their own: \<open>ag_actions\<close> lists what \<open>Start\<close> asked of them, in order. Every restart request
  is a goroutine with a program counter; the nil test, the call and the reset of \<open>stopSources\<close> and
  \<open>stopSinks\<close> are separate events, because no mutex protects the fields.
\<close>

subsection \<open>State\<close>

datatype go_context = AllCtx | SourcesCtx | SinksCtx

datatype agent_action =
    SetAuditResultHandler
  | SetAuditCommandHandler
  | SetConstraintsHandler
  | SetRestartHandler
  | SetChangeLogLevelHandler
  | StartGateway
  | StartEntities
  | StartAuditor

datatype start_pc = StartNotCalled | StartWaits | StartRuns | StartReturned "string option"

datatype restart_pc =
    TestSources | CallSources | ResetSources
  | SyncLogs
  | TestSinks | CallSinks | ResetSinks
  | Sleeps | Gone

record Agent =
  ag_cancelAll :: "go_context option"
  ag_cancelSources :: "go_context option"
  ag_cancelSinks :: "go_context option"
  ag_done :: "go_context list"
  ag_actions :: "agent_action list"
  ag_start :: start_pc
  ag_restarts :: "restart_pc list"
  ag_synced :: bool
  ag_exit :: "int option"
  ag_panicked :: bool

text \<open>\<open>New\<close> leaves the cancel functions nil.\<close>

definition agent_New :: Agent where
  "agent_New = \<lparr>ag_cancelAll = None, ag_cancelSources = None, ag_cancelSinks = None, ag_done = [], ag_actions = [],
     ag_start = StartNotCalled, ag_restarts = [], ag_synced = False, ag_exit = None, ag_panicked = False\<rparr>"

fun derived :: "go_context \<Rightarrow> go_context list" where
  "derived AllCtx = [AllCtx, SourcesCtx, SinksCtx]"
| "derived c = [c]"

definition cancel :: "go_context \<Rightarrow> Agent \<Rightarrow> Agent" where
  "cancel c a = a\<lparr>ag_done := derived c @ ag_done a\<rparr>"

text \<open>A call of a function field.\<close>

definition call_cancel :: "go_context option \<Rightarrow> Agent \<Rightarrow> Agent" where
  "call_cancel f a = (case f of None \<Rightarrow> a\<lparr>ag_panicked := True\<rparr> | Some c \<Rightarrow> cancel c a)"

subsection \<open>Start and Stop\<close>

text \<open>\<open>Start\<close> up to the call of \<open>WaitAuthorization\<close>.\<close>

definition start_setup :: "agent_action list" where
  "start_setup = [SetAuditResultHandler, SetAuditCommandHandler, SetConstraintsHandler, SetRestartHandler,
     SetChangeLogLevelHandler, StartGateway]"

definition agent_Start :: "Agent \<Rightarrow> Agent" where
  "agent_Start a = a\<lparr>ag_cancelAll := Some AllCtx, ag_cancelSources := Some SourcesCtx, ag_cancelSinks := Some SinksCtx,
     ag_actions := ag_actions a @ start_setup, ag_start := StartWaits\<rparr>"

text \<open>The outcome of \<open>WaitAuthorization\<close>; an error runs the deferred \<open>cancelAll\<close>, whose value was taken
  when the function was deferred.\<close>

definition agent_Start_authorized :: "string option \<Rightarrow> Agent \<Rightarrow> Agent" where
  "agent_Start_authorized err a = (case err of
     Some e \<Rightarrow> cancel AllCtx (a\<lparr>ag_start := StartReturned (Some e)\<rparr>)
   | None \<Rightarrow> a\<lparr>ag_actions := ag_actions a @ [StartEntities, StartAuditor], ag_start := StartRuns\<rparr>)"

text \<open>\<open>eg.Wait\<close> returns.\<close>

definition agent_Start_return :: "string option \<Rightarrow> Agent \<Rightarrow> Agent" where
  "agent_Start_return err a = cancel AllCtx (a\<lparr>ag_start := StartReturned err\<rparr>)"

definition agent_Stop :: "Agent \<Rightarrow> Agent" where
  "agent_Stop a = (case ag_cancelAll a of None \<Rightarrow> a | Some c \<Rightarrow> (cancel c a)\<lparr>ag_cancelAll := None\<rparr>)"

subsection \<open>Restart\<close>

definition restart_goto :: "nat \<Rightarrow> restart_pc \<Rightarrow> Agent \<Rightarrow> Agent" where
  "restart_goto k pc a = a\<lparr>ag_restarts := (ag_restarts a)[k := pc]\<rparr>"

text \<open>One step of the goroutine of \<open>handleRestart\<close>. \<open>Exit\<close> follows the sleep. \<open>ag_synced\<close> means that \<open>logger.Sync\<close> was
  called: an error of it is only logged, and the restart goes on.\<close>

definition handleRestart_step :: "nat \<Rightarrow> Agent \<Rightarrow> Agent option" where
  "handleRestart_step k a =
     (if k < length (ag_restarts a) then
        (case ag_restarts a ! k of
           TestSources \<Rightarrow> Some (restart_goto k (if ag_cancelSources a = None then SyncLogs else CallSources) a)
         | CallSources \<Rightarrow> Some (restart_goto k ResetSources (call_cancel (ag_cancelSources a) a))
         | ResetSources \<Rightarrow> Some (restart_goto k SyncLogs (a\<lparr>ag_cancelSources := None\<rparr>))
         | SyncLogs \<Rightarrow> Some (restart_goto k TestSinks (a\<lparr>ag_synced := True\<rparr>))
         | TestSinks \<Rightarrow> Some (restart_goto k (if ag_cancelSinks a = None then Sleeps else CallSinks) a)
         | CallSinks \<Rightarrow> Some (restart_goto k ResetSinks (call_cancel (ag_cancelSinks a) a))
         | ResetSinks \<Rightarrow> Some (restart_goto k Sleeps (a\<lparr>ag_cancelSinks := None\<rparr>))
         | Sleeps \<Rightarrow> Some (restart_goto k Gone (a\<lparr>ag_exit := Some 0\<rparr>))
         | Gone \<Rightarrow> None)
      else None)"

text \<open>\<open>handleAuditResult\<close>: the gateway is called only with results.\<close>

definition handleAuditResult :: "('r list \<Rightarrow> 's \<Rightarrow> 's \<times> string option) \<Rightarrow> 'r list \<Rightarrow> 's \<Rightarrow> 's \<times> string option" where
  "handleAuditResult SendAuditResults auditResult st =
     (if length auditResult = 0 then (st, None) else SendAuditResults auditResult st)"

subsection \<open>Interleavings\<close>

datatype agent_event =
    StartCalled
  | AuthorizationReturned "string option"
  | GroupReturned "string option"
  | RestartReceived
  | RestartStep nat
  | StopCalled

text \<open>The restart handler is known to the gateway once it is started; the process ends with \<open>Exit\<close> or a
  panic. \<open>StopCalled\<close> is the exported method, which the agent itself does not call.\<close>

definition agent_exec :: "agent_event \<Rightarrow> Agent \<Rightarrow> Agent option" where
  "agent_exec e a =
     (if ag_exit a \<noteq> None \<or> ag_panicked a then None
      else case e of
        StartCalled \<Rightarrow> if ag_start a = StartNotCalled then Some (agent_Start a) else None
      | AuthorizationReturned err \<Rightarrow> if ag_start a = StartWaits then Some (agent_Start_authorized err a) else None
      | GroupReturned err \<Rightarrow> if ag_start a = StartRuns then Some (agent_Start_return err a) else None
      | RestartReceived \<Rightarrow> if StartGateway \<in> set (ag_actions a)
          then Some (a\<lparr>ag_restarts := ag_restarts a @ [TestSources]\<rparr>) else None
      | RestartStep k \<Rightarrow> handleRestart_step k a
      | StopCalled \<Rightarrow> Some (agent_Stop a))"

fun agent_run :: "agent_event list \<Rightarrow> Agent \<Rightarrow> Agent option" where
  "agent_run [] a = Some a"
| "agent_run (e # es) a = do { a' \<leftarrow> agent_exec e a; agent_run es a' }"

inductive agent_reach :: "Agent \<Rightarrow> bool" where
  new: "agent_reach agent_New"
| step: "agent_reach a \<Longrightarrow> agent_exec e a = Some a' \<Longrightarrow> agent_reach a'"

lemma agent_run_reach: "agent_reach a \<Longrightarrow> agent_run es a = Some a' \<Longrightarrow> agent_reach a'"
  by (induction es arbitrary: a) (auto split: Option.bind_splits intro: agent_reach.step)

subsection \<open>Invariant\<close>

text \<open>What a restart goroutine has achieved at each program counter.\<close>

fun restart_ok :: "Agent \<Rightarrow> restart_pc \<Rightarrow> bool" where
  "restart_ok a TestSources \<longleftrightarrow> True"
| "restart_ok a CallSources \<longleftrightarrow> True"
| "restart_ok a ResetSources \<longleftrightarrow> SourcesCtx \<in> set (ag_done a)"
| "restart_ok a SyncLogs \<longleftrightarrow> SourcesCtx \<in> set (ag_done a)"
| "restart_ok a TestSinks \<longleftrightarrow> SourcesCtx \<in> set (ag_done a) \<and> ag_synced a"
| "restart_ok a CallSinks \<longleftrightarrow> SourcesCtx \<in> set (ag_done a) \<and> ag_synced a"
| "restart_ok a ResetSinks \<longleftrightarrow> {SourcesCtx, SinksCtx} \<subseteq> set (ag_done a) \<and> ag_synced a"
| "restart_ok a Sleeps \<longleftrightarrow> {SourcesCtx, SinksCtx} \<subseteq> set (ag_done a) \<and> ag_synced a"
| "restart_ok a Gone \<longleftrightarrow> {SourcesCtx, SinksCtx} \<subseteq> set (ag_done a) \<and> ag_synced a"

definition fields_ok :: "Agent \<Rightarrow> bool" where
  "fields_ok a \<longleftrightarrow> ag_cancelAll a \<in> {None, Some AllCtx} \<and>
     ag_cancelSources a \<in> {None, Some SourcesCtx} \<and> ag_cancelSinks a \<in> {None, Some SinksCtx} \<and>
     (ag_start a \<noteq> StartNotCalled \<longrightarrow> (ag_cancelSources a = None \<longrightarrow> SourcesCtx \<in> set (ag_done a)) \<and>
        (ag_cancelSinks a = None \<longrightarrow> SinksCtx \<in> set (ag_done a))) \<and>
     (SinksCtx \<in> set (ag_done a) \<longrightarrow> SourcesCtx \<in> set (ag_done a))"

definition actions_ok :: "Agent \<Rightarrow> bool" where
  "actions_ok a \<longleftrightarrow> (case ag_start a of
     StartNotCalled \<Rightarrow> ag_actions a = [] \<and> ag_restarts a = []
   | StartWaits \<Rightarrow> ag_actions a = start_setup
   | StartRuns \<Rightarrow> ag_actions a = start_setup @ [StartEntities, StartAuditor]
   | StartReturned err \<Rightarrow> (ag_actions a = start_setup \<and> err \<noteq> None \<or>
       ag_actions a = start_setup @ [StartEntities, StartAuditor]) \<and> set (derived AllCtx) \<subseteq> set (ag_done a))"

definition agent_inv :: "Agent \<Rightarrow> bool" where
  "agent_inv a \<longleftrightarrow> fields_ok a \<and> actions_ok a \<and>
     (ag_panicked a \<or> (\<forall>pc \<in> set (ag_restarts a). restart_ok a pc)) \<and>
     (ag_exit a \<noteq> None \<longrightarrow> {SourcesCtx, SinksCtx} \<subseteq> set (ag_done a) \<and> ag_synced a)"

lemma restart_ok_mono:
  "restart_ok a pc \<Longrightarrow> set (ag_done a) \<subseteq> set (ag_done a') \<Longrightarrow> (ag_synced a \<longrightarrow> ag_synced a') \<Longrightarrow> restart_ok a' pc"
  by (cases pc) auto

lemma restarts_update:
  assumes "\<forall>pc \<in> set (ag_restarts a). restart_ok a pc" "set (ag_done a) \<subseteq> set (ag_done a')" "ag_synced a \<longrightarrow> ag_synced a'"
    and "ag_restarts a' = ag_restarts a" "restart_ok a' pc"
  shows "\<forall>pc' \<in> set (ag_restarts (restart_goto k pc a')). restart_ok (restart_goto k pc a') pc'"
proof
  fix pc' assume "pc' \<in> set (ag_restarts (restart_goto k pc a'))"
  then have "pc' = pc \<or> pc' \<in> set (ag_restarts a)"
    using set_update_subset_insert [of "ag_restarts a'" k pc] assms(4) by (auto simp: restart_goto_def)
  then have "restart_ok a' pc'" using assms restart_ok_mono by blast
  then show "restart_ok (restart_goto k pc a') pc'" by (rule restart_ok_mono) (simp_all add: restart_goto_def)
qed

text \<open>A step of a restart goroutine.\<close>

lemma agent_inv_restart_goto:
  assumes "agent_inv a" "\<not> ag_panicked a" and "fields_ok a'" "actions_ok a'" "ag_panicked a' \<or> restart_ok a' pc"
    and "set (ag_done a) \<subseteq> set (ag_done a')" "ag_synced a \<longrightarrow> ag_synced a'" "ag_restarts a' = ag_restarts a"
    and "ag_exit a' \<noteq> None \<longrightarrow> {SourcesCtx, SinksCtx} \<subseteq> set (ag_done a') \<and> ag_synced a'"
  shows "agent_inv (restart_goto k pc a')"
proof -
  have "fields_ok (restart_goto k pc a')" "actions_ok (restart_goto k pc a')"
    using assms(3,4) by (simp_all add: fields_ok_def actions_ok_def restart_goto_def split: start_pc.splits)
  moreover have "ag_panicked a' \<or> (\<forall>pc' \<in> set (ag_restarts (restart_goto k pc a')). restart_ok (restart_goto k pc a') pc')"
    using restarts_update [of a a' pc k] assms by (auto simp: agent_inv_def)
  ultimately show ?thesis using assms(9) by (simp add: agent_inv_def restart_goto_def)
qed

lemma call_cancel_simps [simp]:
  "ag_restarts (call_cancel f a) = ag_restarts a" "ag_synced (call_cancel f a) = ag_synced a"
  "ag_exit (call_cancel f a) = ag_exit a" "ag_start (call_cancel f a) = ag_start a"
  "ag_actions (call_cancel f a) = ag_actions a" "ag_cancelSources (call_cancel f a) = ag_cancelSources a"
  "ag_cancelSinks (call_cancel f a) = ag_cancelSinks a" "ag_cancelAll (call_cancel f a) = ag_cancelAll a"
  "set (ag_done (call_cancel f a)) = set (ag_done a) \<union> (case f of None \<Rightarrow> {} | Some c \<Rightarrow> set (derived c))"
  by (auto simp: call_cancel_def cancel_def split: option.splits)

lemma call_cancel_panicked: "ag_panicked (call_cancel f a) \<longleftrightarrow> ag_panicked a \<or> f = None"
  by (auto simp: call_cancel_def cancel_def split: option.splits)

lemma handleRestart_step_inv:
  assumes inv: "agent_inv a" and np: "\<not> ag_panicked a" and ne: "ag_exit a = None" and step: "handleRestart_step k a = Some a'"
  shows "agent_inv a'"
proof -
  have k: "k < length (ag_restarts a)" using step by (auto simp: handleRestart_step_def split: if_splits)
  then have pc: "restart_ok a (ag_restarts a ! k)" using inv np by (simp add: agent_inv_def)
  have ok: "fields_ok a" "actions_ok a" "ag_start a \<noteq> StartNotCalled"
    using inv k by (auto simp: agent_inv_def actions_ok_def split: start_pc.splits)
  note goto = agent_inv_restart_goto [OF inv np]
  note step' = step [unfolded handleRestart_step_def] k
  show ?thesis
  proof (cases "ag_restarts a ! k")
    case TestSources
    then have a': "a' = restart_goto k (if ag_cancelSources a = None then SyncLogs else CallSources) a" using step' by simp
    show ?thesis unfolding a' using ok ne by (intro goto) (auto simp: fields_ok_def)
  next
    case CallSources
    then have a': "a' = restart_goto k ResetSources (call_cancel (ag_cancelSources a) a)" using step' by simp
    have "fields_ok (call_cancel (ag_cancelSources a) a)" "actions_ok (call_cancel (ag_cancelSources a) a)"
      using ok by (auto simp: fields_ok_def actions_ok_def split: start_pc.splits)
    then show ?thesis unfolding a' using ok ne by (intro goto) (auto simp: fields_ok_def call_cancel_panicked)
  next
    case ResetSources
    then have a': "a' = restart_goto k SyncLogs (a\<lparr>ag_cancelSources := None\<rparr>)" using step' by simp
    have "fields_ok (a\<lparr>ag_cancelSources := None\<rparr>)" "actions_ok (a\<lparr>ag_cancelSources := None\<rparr>)"
      using ok pc ResetSources by (auto simp: fields_ok_def actions_ok_def split: start_pc.splits)
    then show ?thesis unfolding a' using pc ResetSources ne by (intro goto) auto
  next
    case SyncLogs
    then have a': "a' = restart_goto k TestSinks (a\<lparr>ag_synced := True\<rparr>)" using step' by simp
    have "fields_ok (a\<lparr>ag_synced := True\<rparr>)" "actions_ok (a\<lparr>ag_synced := True\<rparr>)"
      using ok by (auto simp: fields_ok_def actions_ok_def split: start_pc.splits)
    then show ?thesis unfolding a' using pc SyncLogs ne by (intro goto) auto
  next
    case TestSinks
    then have a': "a' = restart_goto k (if ag_cancelSinks a = None then Sleeps else CallSinks) a" using step' by simp
    show ?thesis unfolding a' using ok pc TestSinks ne by (intro goto) (auto simp: fields_ok_def)
  next
    case CallSinks
    then have a': "a' = restart_goto k ResetSinks (call_cancel (ag_cancelSinks a) a)" using step' by simp
    have "fields_ok (call_cancel (ag_cancelSinks a) a)" "actions_ok (call_cancel (ag_cancelSinks a) a)"
      using ok pc CallSinks by (auto simp: fields_ok_def actions_ok_def split: start_pc.splits)
    then show ?thesis unfolding a' using ok pc CallSinks ne by (intro goto) (auto simp: fields_ok_def call_cancel_panicked)
  next
    case ResetSinks
    then have a': "a' = restart_goto k Sleeps (a\<lparr>ag_cancelSinks := None\<rparr>)" using step' by simp
    have "fields_ok (a\<lparr>ag_cancelSinks := None\<rparr>)" "actions_ok (a\<lparr>ag_cancelSinks := None\<rparr>)"
      using ok pc ResetSinks by (auto simp: fields_ok_def actions_ok_def split: start_pc.splits)
    then show ?thesis unfolding a' using pc ResetSinks ne by (intro goto) auto
  next
    case Sleeps
    then have a': "a' = restart_goto k Gone (a\<lparr>ag_exit := Some 0\<rparr>)" using step' by simp
    have "fields_ok (a\<lparr>ag_exit := Some 0\<rparr>)" "actions_ok (a\<lparr>ag_exit := Some 0\<rparr>)"
      using ok by (auto simp: fields_ok_def actions_ok_def split: start_pc.splits)
    then show ?thesis unfolding a' using pc Sleeps by (intro goto) auto
  qed (use step' in simp)
qed

lemma agent_inv_grow:
  assumes "agent_inv a" "\<not> ag_panicked a" "ag_exit a = None" and "fields_ok a'" "actions_ok a'"
    and "set (ag_done a) \<subseteq> set (ag_done a')" "ag_synced a' = ag_synced a"
    and "\<forall>pc \<in> set (ag_restarts a'). pc \<in> set (ag_restarts a) \<or> pc = TestSources" "ag_exit a' = None"
  shows "agent_inv a'"
proof -
  have "restart_ok a' pc" if "pc \<in> set (ag_restarts a')" for pc
    using assms(8) that restart_ok_mono [of a pc a'] assms(1,2,6,7) by (cases "pc = TestSources") (auto simp: agent_inv_def)
  then show ?thesis using assms by (simp add: agent_inv_def)
qed

lemma agent_exec_inv:
  assumes inv: "agent_inv a" and step: "agent_exec e a = Some a'"
  shows "agent_inv a'"
proof -
  have np: "\<not> ag_panicked a" "ag_exit a = None" using step by (auto simp: agent_exec_def split: if_splits)
  have ok: "fields_ok a" "actions_ok a" using inv by (auto simp: agent_inv_def)
  note grow = agent_inv_grow [OF inv np]
  show ?thesis
  proof (cases e)
    case StartCalled
    then have a': "a' = agent_Start a" and pre: "ag_start a = StartNotCalled" using step np by (auto simp: agent_exec_def split: if_splits)
    show ?thesis unfolding a' using ok np pre
      by (intro grow) (auto simp: agent_Start_def fields_ok_def actions_ok_def)
  next
    case (AuthorizationReturned err)
    then have a': "a' = agent_Start_authorized err a" and pre: "ag_start a = StartWaits"
      using step np by (auto simp: agent_exec_def split: if_splits)
    show ?thesis unfolding a' using ok np pre
      by (intro grow) (auto simp: agent_Start_authorized_def cancel_def fields_ok_def actions_ok_def split: option.splits)
  next
    case (GroupReturned err)
    then have a': "a' = agent_Start_return err a" and pre: "ag_start a = StartRuns"
      using step np by (auto simp: agent_exec_def split: if_splits)
    show ?thesis unfolding a' using ok np pre
      by (intro grow) (auto simp: agent_Start_return_def cancel_def fields_ok_def actions_ok_def)
  next
    case RestartReceived
    then have a': "a' = a\<lparr>ag_restarts := ag_restarts a @ [TestSources]\<rparr>" and pre: "StartGateway \<in> set (ag_actions a)"
      using step np by (auto simp: agent_exec_def split: if_splits)
    show ?thesis unfolding a' using ok np pre
      by (intro grow) (auto simp: fields_ok_def actions_ok_def split: start_pc.splits)
  next
    case (RestartStep k)
    then show ?thesis using handleRestart_step_inv [OF inv np, of k a'] step np by (simp add: agent_exec_def)
  next
    case StopCalled
    then have a': "a' = agent_Stop a" using step np by (auto simp: agent_exec_def split: if_splits)
    show ?thesis unfolding a' using ok np
      by (intro grow) (auto simp: agent_Stop_def cancel_def fields_ok_def actions_ok_def split: option.splits start_pc.splits)
  qed
qed

lemma agent_reach_inv: "agent_reach a \<Longrightarrow> agent_inv a"
proof (induction rule: agent_reach.induct)
  case new
  then show ?case by (simp add: agent_inv_def agent_New_def fields_ok_def actions_ok_def)
qed (rule agent_exec_inv)

text \<open>Two restart requests can both see \<open>cancelSources\<close> set; the second call finds nil.\<close>

lemma two_restarts_panic:
  "\<exists>a. agent_run [StartCalled, AuthorizationReturned None, RestartReceived, RestartReceived, RestartStep 0, RestartStep 1,
      RestartStep 0, RestartStep 0, RestartStep 1] agent_New = Some a \<and> ag_panicked a"
  by (simp add: agent_exec_def agent_New_def agent_Start_def start_setup_def agent_Start_authorized_def handleRestart_step_def
      restart_goto_def call_cancel_def cancel_def)

text \<open>With one request the goroutine runs to the end and exits.\<close>

lemma one_restart_exits:
  "\<exists>a. agent_run ([StartCalled, AuthorizationReturned None, RestartReceived] @ replicate 8 (RestartStep 0)) agent_New = Some a \<and>
    ag_exit a = Some 0 \<and> \<not> ag_panicked a"
  by (simp add: agent_exec_def agent_New_def agent_Start_def start_setup_def agent_Start_authorized_def handleRestart_step_def
      restart_goto_def call_cancel_def cancel_def eval_nat_numeral)

subsection \<open>Properties\<close>

definition started_before :: "agent_action \<Rightarrow> agent_action \<Rightarrow> agent_action list \<Rightarrow> bool" where
  "started_before x y xs \<longleftrightarrow> (\<exists>us vs ws. xs = us @ x # vs @ y # ws)"

lemma started_before_setup:
  "h \<in> {SetAuditResultHandler, SetAuditCommandHandler, SetConstraintsHandler, SetRestartHandler, SetChangeLogLevelHandler} \<Longrightarrow>
    started_before h StartGateway (start_setup @ zs)"
proof -
  have split: "takeWhile (\<lambda>x. x \<noteq> h) start_setup @ h # drop 1 (dropWhile (\<lambda>x. x \<noteq> h) (take 5 start_setup)) @ StartGateway # zs =
      start_setup @ zs" if "h \<in> set (take 5 start_setup)"
    using that by (auto simp: start_setup_def)
  assume "h \<in> {SetAuditResultHandler, SetAuditCommandHandler, SetConstraintsHandler, SetRestartHandler, SetChangeLogLevelHandler}"
  then have "h \<in> set (take 5 start_setup)" by (auto simp: start_setup_def)
  from split [OF this, symmetric] show ?thesis unfolding started_before_def by blast
qed

text \<open>Only an authorization that succeeded starts the sources.\<close>

definition sources_started :: "Agent \<Rightarrow> bool" where
  "sources_started a \<longleftrightarrow> StartAuditor \<in> set (ag_actions a) \<or> StartEntities \<in> set (ag_actions a)"

lemma handleRestart_step_actions: "handleRestart_step k a = Some a' \<Longrightarrow> ag_actions a' = ag_actions a"
  by (auto simp: handleRestart_step_def restart_goto_def split: if_splits restart_pc.splits)

lemma exec_sources_started:
  assumes "agent_exec e a = Some a'" "sources_started a'"
  shows "e = AuthorizationReturned None \<or> sources_started a"
  using assms
  by (cases e) (auto simp: agent_exec_def agent_Start_def start_setup_def agent_Start_authorized_def agent_Start_return_def
      agent_Stop_def cancel_def sources_started_def handleRestart_step_actions split: if_splits option.splits)

lemma run_sources_started:
  "agent_run es a = Some a' \<Longrightarrow> sources_started a' \<Longrightarrow> AuthorizationReturned None \<in> set es \<or> sources_started a"
proof (induction es arbitrary: a)
  case (Cons e es)
  then obtain a1 where "agent_exec e a = Some a1" "agent_run es a1 = Some a'" by (auto split: Option.bind_splits)
  then show ?case using Cons.IH [of a1] Cons.prems(2) exec_sources_started [of e a a1] by auto
qed simp

text \<open>C35: In every interleaving of \<open>Start\<close>, \<open>Stop\<close> and any number of restart requests, the parts of the agent
  come up and go down in order: whenever the gateway has been started all its handlers were installed
  before it; the auditor and the entities source have been started only if the authorization
  succeeded;
  the sinks are never stopped before the sources; when \<open>Start\<close> has returned, every
  context is cancelled; and the process exits only after the sources were stopped,
  \<open>logger.Sync\<close> was called and the sinks were stopped.\<close>

theorem agent_order:
  assumes "agent_run es agent_New = Some a"
  shows "(StartGateway \<in> set (ag_actions a) \<longrightarrow> (\<forall>h \<in> {SetAuditResultHandler, SetAuditCommandHandler, SetConstraintsHandler,
        SetRestartHandler, SetChangeLogLevelHandler}. started_before h StartGateway (ag_actions a))) \<and>
    (StartAuditor \<in> set (ag_actions a) \<or> StartEntities \<in> set (ag_actions a) \<longrightarrow> AuthorizationReturned None \<in> set es) \<and>
    (SinksCtx \<in> set (ag_done a) \<longrightarrow> SourcesCtx \<in> set (ag_done a)) \<and>
    ((\<exists>err. ag_start a = StartReturned err) \<longrightarrow> {AllCtx, SourcesCtx, SinksCtx} \<subseteq> set (ag_done a)) \<and>
    (ag_exit a \<noteq> None \<longrightarrow> {SourcesCtx, SinksCtx} \<subseteq> set (ag_done a) \<and> ag_synced a)"
proof -
  have inv: "agent_inv a" by (rule agent_reach_inv [OF agent_run_reach [OF agent_reach.new assms]])
  have "StartGateway \<in> set (ag_actions a) \<Longrightarrow> \<exists>zs. ag_actions a = start_setup @ zs"
    using inv by (auto simp: agent_inv_def actions_ok_def split: start_pc.splits)
  moreover have "StartAuditor \<in> set (ag_actions a) \<or> StartEntities \<in> set (ag_actions a) \<longrightarrow> AuthorizationReturned None \<in> set es"
    using run_sources_started [OF assms] by (auto simp: sources_started_def agent_New_def)
  ultimately show ?thesis
    using inv started_before_setup by (fastforce simp: agent_inv_def fields_ok_def actions_ok_def)
qed

theorem agent_order_witness:
  "\<exists>a. agent_run [StartCalled, AuthorizationReturned None] agent_New = Some a \<and>
    started_before SetConstraintsHandler StartGateway (ag_actions a) \<and> StartAuditor \<in> set (ag_actions a)"
proof -
  obtain a where a: "agent_run [StartCalled, AuthorizationReturned None] agent_New = Some a"
    "StartGateway \<in> set (ag_actions a)" "StartAuditor \<in> set (ag_actions a)"
    by (simp add: agent_exec_def agent_New_def agent_Start_def start_setup_def agent_Start_authorized_def)
  then show ?thesis using agent_order [OF a(1)] by blast
qed

end
