(* ===== verification/Agent_Flow.thy ===== *)
theory Agent_Flow
  imports Auditor_Loop Gateway Kuber_Observer Entities Agent_Main
begin

text \<open>
  The paths that join the components: from a cluster event through the observer, the entities watcher
  and the auditor to the packages for the server, and from a packet with constraints to the auditor and
  the audit it triggers.

  \<open>meta\<close> stands for the accessors of \<open>unstructured.Unstructured\<close>: it gives the view that the auditor has of
  an object. The channels between the components are lists; a full channel only delays its sender.
\<close>

subsection \<open>From the cluster to the server\<close>

text \<open>A call of the observer's handler, which is the entities watcher.\<close>

fun watcher_call :: "go_time \<Rightarrow> ('j \<Rightarrow> 'j Unstructured) \<Rightarrow> 'j handler_call \<Rightarrow> ('h, 'j) EntitiesWatcher \<Rightarrow>
    ('h, 'j) EntitiesWatcher \<times> ('h \<times> 'j AuditEvent) list" where
  "watcher_call now meta (OnAdd obj) ew = ew_OnAdd now (meta obj) ew"
| "watcher_call now meta (OnUpdate oldObj newObj) ew = ew_OnUpdate now (meta oldObj) (meta newObj) ew"
| "watcher_call now meta (OnDelete obj) ew = ew_OnDelete now (meta obj) ew"

definition SendAuditResults :: "'r list \<Rightarrow> 'r list \<Rightarrow> 'r list \<times> string option" where
  "SendAuditResults auditResults auditResultChan = (auditResultChan @ auditResults, None)"

text \<open>The calls of \<open>sendAuditResult\<close> that a round of the auditor makes go to \<open>handleAuditResult\<close>.\<close>

fun send_all :: "'r list list \<Rightarrow> 'r list \<Rightarrow> 'r list" where
  "send_all [] auditResultChan = auditResultChan"
| "send_all (results # rest) auditResultChan =
     send_all rest (fst (handleAuditResult SendAuditResults results auditResultChan))"

text \<open>The items that the gateway has piped once it has read the channel and its timer has fired.\<close>

definition piped_items :: "go_time \<Rightarrow> 'obj AuditResult list list \<Rightarrow> 'obj PacketAuditResultItem list" where
  "piped_items now sent =
     (case SendAuditResultsWorker (recorder (\<lambda>_. 0))
        (map (\<lambda>r. (now, now, ResultReceived r)) (send_all sent []) @ [(now, now, TimerFired)]) ([], []) of
        Some (_, packages) \<Rightarrow> concat (map batch_items packages)
      | None \<Rightarrow> [])"

lemma send_all_concat: "send_all sent ch = ch @ concat sent"
  by (induction sent arbitrary: ch) (auto simp: handleAuditResult_def SendAuditResults_def)

lemma received_results: "received (map (\<lambda>r. (now, now, ResultReceived r)) rs) = rs"
  by (induction rs) auto

text \<open>Everything sent arrives, nothing else.\<close>

lemma piped_items_eq: "piped_items now sent = map ToPacket (concat sent)"
proof -
  let ?es = "map (\<lambda>r. (now, now, ResultReceived r)) (concat sent)"
  obtain buffer packages where run: "SendAuditResultsWorker (recorder (\<lambda>_. 0)) ?es ([], []) = Some (buffer, packages)"
    "length buffer < auditResultsBatchSize" "concat (map batch_items packages) @ map ToPacket buffer = map ToPacket (concat sent)"
    using worker_recorder [of "[]" "\<lambda>_. 0" ?es "[]"] by (auto simp: auditResultsBatchSize_def received_results)
  obtain new where "SendAuditResultsWorker_step (recorder (\<lambda>_. 0)) now now TimerFired (buffer, packages) = Some ([], packages @ new)"
    "concat (map batch_items new) = map ToPacket buffer"
    using worker_step_recorder [OF run(2), of "\<lambda>_. 0" now now TimerFired packages] by auto
  then show ?thesis using run(1,3) by (simp add: piped_items_def send_all_concat worker_append)
qed

subsection \<open>What a result says about its entity\<close>

lemma audit_constraint_spec:
  "audit_constraint env a resource trig pn pk u c = Some (r, err) \<Longrightarrow>
    ar_EntitySpec r = un_Object resource \<and> ar_ConstraintID r = Some (co_Id c)"
  by (auto simp: audit_constraint_def GenerateID_def new_result_def Let_def
      split: Option.bind_splits option.splits eval_error.splits)

lemma audit_loop_spec:
  "audit_loop env a resource trig pn pk uuids cs results errs = Some (rs, errs') \<Longrightarrow> r \<in> set rs \<Longrightarrow>
    r \<in> set results \<or> ar_EntitySpec r = un_Object resource \<and> (\<exists>c \<in> set cs. ar_ConstraintID r = Some (co_Id c))"
proof (induction cs arbitrary: results errs)
  case (Cons c cs)
  show ?case
  proof (cases "matchEntity resource (co_Match c)")
    case True
    then obtain r1 err where r1: "audit_constraint env a resource trig pn pk (uuids (length results)) c = Some (r1, err)"
      "audit_loop env a resource trig pn pk uuids cs (results @ [r1]) (case err of None \<Rightarrow> errs | Some e \<Rightarrow> errs @ [e]) = Some (rs, errs')"
      using Cons.prems(1) by (auto split: Option.bind_splits)
    then show ?thesis using Cons.IH [OF r1(2) Cons.prems(2)] audit_constraint_spec [OF r1(1)] by auto
  qed (use Cons in auto)
qed auto

lemma Audit_spec:
  assumes "Audit env a resource ids trig order uuids = Some (rs, errs)" "r \<in> set rs"
  shows "ar_EntitySpec r = un_Object resource \<and>
    (\<exists>c k. fmlookup (getConstraints ids (oa_constraints a)) k = Some c \<and> ar_ConstraintID r = Some (co_Id c))"
proof -
  let ?cs = "List.map_filter (fmlookup (getConstraints ids (oa_constraints a))) order"
  have "rs = [] \<or> (\<exists>pn pk. audit_loop env a resource trig pn pk uuids ?cs [] [] = Some (rs, errs))"
    using assms(1) by (auto simp: Audit_def Let_def split: if_splits option.splits)
  then obtain pn pk where "audit_loop env a resource trig pn pk uuids ?cs [] [] = Some (rs, errs)" using assms(2) by auto
  from audit_loop_spec [OF this assms(2)] show ?thesis by (auto simp: set_map_filter_iff) blast
qed

lemma audit_resources_spec:
  "audit_resources env ids trig ch k resources a sent = Some (a', sent') \<Longrightarrow> r \<in> set (concat sent') \<Longrightarrow>
    r \<in> set (concat sent) \<or> (\<exists>resource \<in> set resources. ar_EntitySpec r = un_Object resource)"
proof (induction resources arbitrary: k a sent)
  case (Cons resource rest)
  then obtain rs errs a1 where 1: "Audit env a resource ids trig (fst (ch k)) (snd (ch k)) = Some (rs, errs)"
    "UpdateCache a rs = Some a1" "audit_resources env ids trig ch (Suc k) rest a1 (sent @ [rs]) = Some (a', sent')"
    by (auto simp: auditResource_def split: Option.bind_splits)
  then show ?case using Cons.IH [OF 1(3) Cons.prems(2)] Audit_spec [OF 1(1)] by auto
qed auto

lemma news_subset: "news a resource rs = Some rs' \<Longrightarrow> set rs' \<subseteq> set rs"
  by (induction rs arbitrary: rs') (auto split: Option.bind_splits if_splits)

lemma entity_event_spec:
  assumes "handle_event env listed ch (a, b) (EntityChange resource) = Some (st', sent)" "r \<in> set (concat sent)"
  shows "ar_EntitySpec r = un_Object resource"
proof (cases b)
  case True
  then obtain rs errs rs' where "Audit env a resource [] ''entity-change'' (fst (ch 0)) (snd (ch 0)) = Some (rs, errs)"
    "news a resource rs = Some rs'" "sent = [rs']"
    using assms(1) by (auto simp: handle_event_def auditResource_def split: Option.bind_splits)
  then show ?thesis using Audit_spec news_subset assms(2) by fastforce
qed (use assms in \<open>auto simp: handle_event_def\<close>)

text \<open>The events that the watcher's handler makes of a call carry an object of the call.\<close>

lemma watcher_call_event:
  assumes "(h, e) \<in> set (snd (watcher_call now meta call ew))"
  shows "\<exists>x \<in> set (call_objects call). e = EntityChange (meta x) \<or> e = EntityDelete (meta x)"
  using assms
  by (cases call) (auto simp: ew_OnAdd_def ew_OnUpdate_def ew_OnDelete_def Let_def OnResourceAdd_def OnResourceUpdate_def OnResourceDelete_def)

text \<open>A full audit has a result for every ownerless listed entity and every chosen constraint that matches.\<close>

lemma audit_resources_hits:
  assumes msgs: "string_msgs env" and own: "un_OwnerReferences resource = []"
    and par: "\<forall>p. ew_GetParents env (un_Namespace resource) (un_Kind resource) (un_Name resource) = Some (Some p) \<longrightarrow>
      un_Kind resource \<noteq> ''Pod'' \<and> un_Kind resource \<noteq> ''ReplicaSet''"
    and match: "matchEntity resource (co_Match c)"
  shows "opa_inv tmpl a \<Longrightarrow> choices_ok a ids ch \<Longrightarrow> fmlookup (getConstraints ids (oa_constraints a)) cid = Some c \<Longrightarrow>
    resource \<in> set resources \<Longrightarrow>
    \<exists>a' sent'. audit_resources env ids trig ch k resources a sent = Some (a', sent') \<and>
      (\<exists>r \<in> set (concat sent'). ar_EntitySpec r = un_Object resource \<and> ar_ConstraintID r = Some cid)"
proof (induction resources arbitrary: k a sent)
  case (Cons x rest)
  have ord: "range_order (getConstraints ids (oa_constraints a)) (fst (ch k))" using Cons.prems(2) by (simp add: choices_ok_def)
  obtain rs errs where rs: "Audit env a x ids trig (fst (ch k)) (snd (ch k)) = Some (rs, errs)" "audit_results x rs"
    using Audit_total [OF Cons.prems(1) msgs ord] by blast
  obtain a1 where a1: "UpdateCache a rs = Some a1" "same_policies a a1" using UpdateCache_total [OF rs(2)] by blast
  have inv1: "opa_inv tmpl a1" "choices_ok a1 ids ch" "fmlookup (getConstraints ids (oa_constraints a1)) cid = Some c"
    using Cons.prems opa_inv_same [OF a1(2)] choices_same [OF a1(2)] a1(2) by (auto simp: same_policies_def)
  have unf: "audit_resources env ids trig ch k (x # rest) a sent = audit_resources env ids trig ch (Suc k) rest a1 (sent @ [rs])"
    using rs(1) a1(1) by (simp add: auditResource_def)
  show ?case
  proof (cases "x = resource")
    case True
    have "\<exists>r \<in> set rs. ar_ConstraintID r = Some cid \<and> ar_Status r = eval_status (evaluate env a resource c)"
      using Audit_results_gen [OF Cons.prems(1) msgs ord own par, of trig "snd (ch k)"] Cons.prems(3) match rs(1) True by auto
    then obtain r where r: "r \<in> set rs" "ar_ConstraintID r = Some cid" by blast
    obtain a' rss where "audit_resources env ids trig ch (Suc k) rest a1 (sent @ [rs]) = Some (a', (sent @ [rs]) @ rss)"
      using audit_resources_total [OF msgs inv1(1,2)] by blast
    then show ?thesis using unf r Audit_spec [OF rs(1) r(1)] True by auto
  next
    case False
    then show ?thesis using Cons.IH [OF inv1, of "Suc k" "sent @ [rs]"] Cons.prems(4) unf by simp
  qed
qed simp

subsection \<open>Constraints from the server\<close>

text \<open>\<open>HandleConstraints\<close> as the gateway's handler: the auditor and the channel of its events.\<close>

definition addConstraints :: "('pol, 'par, 'obj, 'v) opa_core \<Rightarrow> 'par AgentConstraint list \<Rightarrow>
    ('pol, 'par) OpaAuditor \<times> 'obj AuditEvent list \<Rightarrow>
    ((('pol, 'par) OpaAuditor \<times> 'obj AuditEvent list) \<times> (string, string) fmap) option" where
  "addConstraints env cs st = (case st of (a, auditEvents) \<Rightarrow> do {
     (a', event, errs) \<leftarrow> HandleConstraints env a cs;
     Some ((a', auditEvents @ (case event of None \<Rightarrow> [] | Some e \<Rightarrow> [e])), errs) })"

lemma audit_resources_ids:
  assumes "opa_inv tmpl a" "ids \<noteq> []"
  shows "audit_resources env ids trig ch k resources a sent = Some (a', sent') \<Longrightarrow> r \<in> set (concat sent') \<Longrightarrow>
    r \<in> set (concat sent) \<or> (\<exists>cid \<in> set ids. ar_ConstraintID r = Some cid)"
  using assms(1)
proof (induction resources arbitrary: k a sent)
  case (Cons resource rest)
  then obtain rs errs a1 where 1: "Audit env a resource ids trig (fst (ch k)) (snd (ch k)) = Some (rs, errs)"
    "UpdateCache a rs = Some a1" "audit_resources env ids trig ch (Suc k) rest a1 (sent @ [rs]) = Some (a', sent')"
    by (auto simp: auditResource_def split: Option.bind_splits)
  have "same_policies a a1" using 1(2) by (auto simp: UpdateCache_def same_policies_def split: Option.bind_splits)
  then have "opa_inv tmpl a1" using opa_inv_same Cons.prems(3) by blast
  moreover have "\<exists>cid \<in> set ids. ar_ConstraintID r = Some cid" if "r \<in> set rs"
    using Audit_spec [OF 1(1) that] Cons.prems(3) assms(2)
    by (auto simp: fmlookup_getConstraints opa_inv_def split: if_splits)
  ultimately show ?case using Cons.IH [OF 1(3) Cons.prems(2)] by auto
qed auto

end
