(* ===== verification/Startup.thy ===== *)
theory Startup
  imports Utils Entities Client_Session
begin

text \<open>
  What \<open>main.go\<close>, \<open>probes.go\<close> and \<open>kuber/kube.go\<close> compute before the agent runs: the configuration of the
  Kubernetes client, the log level, the version of the cluster, the provider of the cluster, and the
  answers of the probes; and \<open>WaitAuthorization\<close> of \<open>gateway/magalix-gateway.go\<close>.

  Calls of the Kubernetes client are parameters: their results. \<open>strconv.Atoi\<close> is modelled with its value
  and error, because the agent uses the value even when there is an error.
\<close>

subsection \<open>The version of the cluster\<close>

datatype num_error = ErrSyntax | ErrRange

definition digit :: "char \<Rightarrow> nat option" where
  "digit c = (if 48 \<le> (of_char c :: nat) \<and> (of_char c :: nat) \<le> 57 then Some (of_char c - 48) else None)"

text \<open>\<open>strconv.ParseUint\<close> in base 10 with 64 bits: the first bad digit or overflow decides.\<close>

fun parse_uint :: "string \<Rightarrow> nat \<Rightarrow> num_error + nat" where
  "parse_uint [] n = Inr n"
| "parse_uint (c # cs) n =
     (case digit c of
        None \<Rightarrow> Inl ErrSyntax
      | Some d \<Rightarrow> if n * 10 + d \<ge> 2 ^ 64 then Inl ErrRange else parse_uint cs (n * 10 + d))"

definition Atoi :: "string \<Rightarrow> int \<times> num_error option" where
  "Atoi s =
     (let neg = (s \<noteq> [] \<and> hd s = CHR ''-'');
          body = (if s \<noteq> [] \<and> (hd s = CHR ''-'' \<or> hd s = CHR ''+'') then tl s else s)
      in if body = [] then (0, Some ErrSyntax)
         else case parse_uint body 0 of
                Inl ErrSyntax \<Rightarrow> (0, Some ErrSyntax)
              | Inl ErrRange \<Rightarrow> (if neg then - (2 ^ 63) else 2 ^ 63 - 1, Some ErrRange)
              | Inr n \<Rightarrow>
                  if \<not> neg \<and> n \<ge> 2 ^ 63 then (2 ^ 63 - 1, Some ErrRange)
                  else if neg \<and> n > 2 ^ 63 then (- (2 ^ 63), Some ErrRange)
                  else (if neg then - int n else int n, None))"

datatype version_error = DiscoveryError string | AtoiError num_error

text \<open>\<open>minor[len(minor)-1:]\<close> panics on the empty string.\<close>

definition GetServerMinorVersion :: "string + string \<Rightarrow> (int \<times> version_error option) option" where
  "GetServerMinorVersion serverVersion =
     (case serverVersion of
        Inl err \<Rightarrow> Some (0, Some (DiscoveryError err))
      | Inr minor \<Rightarrow>
          if minor = [] then None
          else (let minor' = (if last minor = CHR ''+'' then butlast minor else minor)
                in case Atoi minor' of (n, err) \<Rightarrow> Some (n, map_option AtoiError err)))"

text \<open>\<open>main\<close> logs an error and goes on with the value.\<close>

definition watched_for :: "scheme_versions \<Rightarrow> string + string \<Rightarrow> GroupVersionResourceKind list option" where
  "watched_for v serverVersion = map_option (\<lambda>(n, _). resources_for_version v n) (GetServerMinorVersion serverVersion)"

subsection \<open>The provider of the cluster\<close>

text \<open>\<open>strings.Split(s, ":")[0]\<close> is the part before the first colon; \<open>nodes.Items[0]\<close> panics without nodes.\<close>

definition GetClusterProvider :: "'e + string list \<Rightarrow> ('e + string) option" where
  "GetClusterProvider nodes =
     (case nodes of
        Inl err \<Rightarrow> Some (Inl err)
      | Inr [] \<Rightarrow> None
      | Inr (providerID # _) \<Rightarrow> Some (Inr (takeWhile (\<lambda>c. c \<noteq> CHR '':'') providerID)))"

subsection \<open>Log level and probes\<close>

datatype logger_level = InfoLevel | DebugLevel | WarnLevel | ErrorLevel

record 'u global_logger =
  lg_level :: logger_level
  lg_accountID :: "'u option"
  lg_clusterID :: "'u option"

definition ConfigureGlobalLogger :: "'u \<Rightarrow> 'u \<Rightarrow> string \<Rightarrow> 'u global_logger \<Rightarrow> 'u global_logger \<times> string option" where
  "ConfigureGlobalLogger accountId clusterId level lg =
     (let configured = (\<lambda>l. (lg\<lparr>lg_level := l, lg_accountID := Some accountId, lg_clusterID := Some clusterId\<rparr>, None)) in
      if level = ''info'' then configured InfoLevel
      else if level = ''debug'' then configured DebugLevel
      else if level = ''warn'' then configured WarnLevel
      else if level = ''error'' then configured ErrorLevel
      else (lg, Some (''unsupported log level '' @ level)))"

record ProbesServer =
  pb_address :: string
  pb_IsReady :: bool

definition NewProbesServer :: "string \<Rightarrow> ProbesServer" where
  "NewProbesServer address = \<lparr>pb_address = address, pb_IsReady = False\<rparr>"

definition livenessProbeHandler :: "ProbesServer \<Rightarrow> nat" where
  "livenessProbeHandler p = 200"

definition readinessProbeHandler :: "ProbesServer \<Rightarrow> nat" where
  "readinessProbeHandler p = (if pb_IsReady p then 200 else 503)"

text \<open>The server: \<open>http.HandleFunc\<close> registers a handler for a path in the table of the process and panics if the
  path has one; \<open>listen\<close> is \<open>http.ListenAndServe\<close>, which returns only with an error. The handlers read the
  probes when a request arrives.\<close>

definition liveness :: string where "liveness = ''/live''"
definition readiness :: string where "readiness = ''/ready''"

type_synonym serve_mux = "(string \<times> (ProbesServer \<Rightarrow> nat)) list"

definition HandleFunc :: "string \<Rightarrow> (ProbesServer \<Rightarrow> nat) \<Rightarrow> serve_mux \<Rightarrow> serve_mux option" where
  "HandleFunc pattern handler mux = (if map_of mux pattern = None then Some ((pattern, handler) # mux) else None)"

definition probes_Start :: "(string \<Rightarrow> serve_mux \<Rightarrow> string) \<Rightarrow> ProbesServer \<Rightarrow> serve_mux \<Rightarrow> (serve_mux \<times> string) option" where
  "probes_Start listen p mux = do {
     mux1 \<leftarrow> HandleFunc liveness livenessProbeHandler mux;
     mux2 \<leftarrow> HandleFunc readiness readinessProbeHandler mux1;
     Some (mux2, listen (pb_address p) mux2) }"

subsection \<open>The Kubernetes client\<close>

record rest_config =
  rc_Host :: string
  rc_APIPath :: string
  rc_ContentType :: string
  rc_BearerToken :: string
  rc_CAFile :: string
  rc_Insecure :: bool
  rc_Timeout :: go_duration

record rest_env =
  re_InClusterConfig :: "string + rest_config"
  re_getenv :: "string \<Rightarrow> string"
  re_loads_cert :: "string \<Rightarrow> bool"
  re_ContentTypeJSON :: string
  re_ParseDuration :: "string \<Rightarrow> go_duration option"

definition bool_value :: "args \<Rightarrow> string \<Rightarrow> bool option" where
  "bool_value args flag = (case args flag of Some (BoolArg b) \<Rightarrow> Some b | _ \<Rightarrow> None)"

text \<open>The configuration from flags, before the timeout is set. A failed type assertion without \<open>ok\<close> panics.\<close>

definition user_config :: "rest_env \<Rightarrow> args \<Rightarrow> rest_config process" where
  "user_config env args =
     (let given = (case string_value args ''--kube-token'' of Some t \<Rightarrow> t | None \<Rightarrow> []);
          token = (if given = [] then re_getenv env ''KUBE_TOKEN'' else given);
          caFile = (case string_value args ''--kube-root-ca-cert'' of
              Some f \<Rightarrow> if re_loads_cert env f then f else [] | None \<Rightarrow> [])
      in case (string_value args ''--kube-url'', bool_value args ''--kube-insecure'') of
           (Some host, Some insecure) \<Rightarrow>
             Value \<lparr>rc_Host = host, rc_APIPath = ''/api'', rc_ContentType = re_ContentTypeJSON env, rc_BearerToken = token,
               rc_CAFile = caFile, rc_Insecure = insecure, rc_Timeout = 0\<rparr>
         | _ \<Rightarrow> Panic)"

text \<open>An error is the \<open>Inl\<close> of the returned value; a process that exits returns nothing.\<close>

definition getKRestConfig :: "rest_env \<Rightarrow> args \<Rightarrow> (string + rest_config) process" where
  "getKRestConfig env args =
     (let finish = (\<lambda>config. case MustParseDuration (re_ParseDuration env) args ''--kube-timeout'' of
          Value d \<Rightarrow> Value (Inr (config\<lparr>rc_Timeout := d\<rparr>)) | Exit n \<Rightarrow> Exit n | Panic \<Rightarrow> Panic)
      in case bool_value args ''--kube-incluster'' of
           None \<Rightarrow> Panic
         | Some True \<Rightarrow> (case re_InClusterConfig env of
             Inl err \<Rightarrow> Value (Inl (''unable to get incluster config: '' @ err)) | Inr config \<Rightarrow> finish config)
         | Some False \<Rightarrow> (case user_config env args of Value config \<Rightarrow> finish config | Exit n \<Rightarrow> Exit n | Panic \<Rightarrow> Panic))"

text \<open>\<open>main\<close> ignores the error of \<open>getKRestConfig\<close> and passes the configuration, then \<open>nil\<close>, to
  \<open>InitKubernetes\<close>, which reads its fields first.\<close>

definition main_kube :: "rest_env \<Rightarrow> (rest_config \<Rightarrow> string + 'k) \<Rightarrow> args \<Rightarrow> 'k process" where
  "main_kube env NewForConfig args =
     (case getKRestConfig env args of
        Exit n \<Rightarrow> Exit n
      | Panic \<Rightarrow> Panic
      | Value (Inl err) \<Rightarrow> Panic
      | Value (Inr config) \<Rightarrow> (case NewForConfig config of Inl err \<Rightarrow> Exit 1 | Inr kube \<Rightarrow> Value kube))"

definition getVersion :: "string \<Rightarrow> string" where
  "getVersion version =
     ''magalix agent '' @ version @ [CHR 10] @ ''protocol/major: '' @ decimal ProtocolMajorVersion @ [CHR 10] @
     ''protocol/minor: '' @ decimal ProtocolMinorVersion"

subsection \<open>Authorization\<close>

text \<open>The \<open>select\<close>: which of the two channels delivers.\<close>

datatype select_outcome = FromConnected | FromTimer

definition WaitAuthorization :: "Client \<Rightarrow> select_outcome \<Rightarrow> string option" where
  "WaitAuthorization c outcome =
     (if IsReady c then None
      else case outcome of FromConnected \<Rightarrow> None | FromTimer \<Rightarrow> Some ''authorization timeout'')"

subsection \<open>Lemmas\<close>

lemma digit_char: "d < 10 \<Longrightarrow> digit (char_of (48 + d)) = Some d"
  by (simp add: digit_def)

lemma parse_uint_decimal: "n < 2 ^ 64 \<Longrightarrow> parse_uint (decimal n @ cs) 0 = parse_uint cs n"
proof (induction n arbitrary: cs rule: decimal.induct)
  case (1 n)
  show ?case
  proof (cases "n < 10")
    case True
    then show ?thesis using 1(2) by (subst decimal.simps) (simp add: digit_char)
  next
    case False
    have "parse_uint (decimal n @ cs) 0 = parse_uint (char_of (48 + n mod 10) # cs) (n div 10)"
      using 1(1) [OF False, of "char_of (48 + n mod 10) # cs"] 1(2) False by (subst decimal.simps) simp
    also have "\<dots> = parse_uint cs (n div 10 * 10 + n mod 10)" using 1(2) by (simp add: digit_char)
    finally show ?thesis by simp
  qed
qed

lemma decimal_digits: "c \<in> set (decimal n) \<Longrightarrow> digit c \<noteq> None"
proof (induction n rule: decimal.induct)
  case (1 n)
  then show ?case by (subst (asm) (2) decimal.simps) (auto simp: digit_char split: if_splits)
qed

lemma decimal_nonempty [simp]: "decimal n \<noteq> []"
  by (subst decimal.simps) simp

lemma not_digits: "digit CHR ''+'' = None" "digit CHR ''-'' = None"
  by (simp_all add: digit_def)

lemma Atoi_decimal:
  assumes "n < 2 ^ 63"
  shows "Atoi (decimal n) = (int n, None)"
proof -
  have "hd (decimal n) \<noteq> CHR ''-''" "hd (decimal n) \<noteq> CHR ''+''"
    using decimal_digits [of "hd (decimal n)" n] not_digits by auto
  moreover have "parse_uint (decimal n) 0 = Inr n" using parse_uint_decimal [of n "[]"] assms by simp
  ultimately show ?thesis using assms by (simp add: Atoi_def Let_def)
qed

lemma Atoi_signed:
  assumes "n < 2 ^ 63"
  shows "Atoi (CHR ''+'' # decimal n) = (int n, None)" "Atoi (CHR ''-'' # decimal n) = (- int n, None)"
  using parse_uint_decimal [of n "[]"] assms by (simp_all add: Atoi_def)

lemma parse_uint_big: "2 ^ 64 \<le> n \<Longrightarrow> parse_uint (decimal n @ cs) 0 = Inl ErrRange"
proof (induction n arbitrary: cs rule: decimal.induct)
  case (1 n)
  then have big: "\<not> n < 10" by simp
  then have dec: "decimal n @ cs = decimal (n div 10) @ char_of (48 + n mod 10) # cs" by (subst decimal.simps) simp
  show ?case
  proof (cases "2 ^ 64 \<le> n div 10")
    case True
    then show ?thesis using 1(1) [OF big] by (simp add: dec)
  next
    case False
    then have "parse_uint (decimal n @ cs) 0 = parse_uint (char_of (48 + n mod 10) # cs) (n div 10)"
      unfolding dec by (intro parse_uint_decimal) simp
    then show ?thesis using 1(2) by (simp add: digit_char)
  qed
qed

lemma Atoi_big:
  assumes "2 ^ 63 \<le> n"
  shows "Atoi (decimal n) = (2 ^ 63 - 1, Some ErrRange)"
proof -
  have "hd (decimal n) \<noteq> CHR ''-''" "hd (decimal n) \<noteq> CHR ''+''"
    using decimal_digits [of "hd (decimal n)" n] not_digits by auto
  moreover have "parse_uint (decimal n) 0 = (if 2 ^ 64 \<le> n then Inl ErrRange else Inr n)"
    using parse_uint_decimal [of n "[]"] parse_uint_big [of n "[]"] by simp
  ultimately show ?thesis using assms by (simp add: Atoi_def Let_def)
qed

text \<open>Branches: an unsupported level leaves the logger as it is; outside a cluster the in-cluster flag crashes
  the agent; a cluster without nodes does too; a missing authorization is an error only after the timeout.\<close>

lemma ConfigureGlobalLogger_iff:
  "snd (ConfigureGlobalLogger acc cl level lg) = None \<longleftrightarrow> level \<in> {''info'', ''debug'', ''warn'', ''error''}"
  "snd (ConfigureGlobalLogger acc cl level lg) \<noteq> None \<Longrightarrow> fst (ConfigureGlobalLogger acc cl level lg) = lg"
  by (simp_all add: ConfigureGlobalLogger_def Let_def split: if_split_asm)

lemma incluster_error_panics:
  assumes "bool_value args ''--kube-incluster'' = Some True" "re_InClusterConfig env = Inl err"
  shows "\<exists>msg. getKRestConfig env args = Value (Inl msg)" "main_kube env NewForConfig args = Panic"
  using assms by (simp_all add: getKRestConfig_def main_kube_def)

text \<open>The probes answer on their two paths and nowhere else; a second start panics.\<close>

lemma probes_Start_serves:
  assumes "probes_Start listen p [] = Some (mux, err)"
  shows "map_option (\<lambda>h. h q) (map_of mux path) =
      (if path = ''/live'' then Some 200 else if path = ''/ready'' then Some (if pb_IsReady q then 200 else 503) else None)"
    and "probes_Start listen p' mux = None"
  using assms by (auto simp: probes_Start_def HandleFunc_def liveness_def readiness_def livenessProbeHandler_def readinessProbeHandler_def)

lemma GetClusterProvider_panics: "GetClusterProvider (Inr []) = None"
  by (simp add: GetClusterProvider_def)

lemma WaitAuthorization_error: "WaitAuthorization c outcome \<noteq> None \<longleftrightarrow> \<not> IsReady c \<and> outcome = FromTimer"
  by (cases outcome) (auto simp: WaitAuthorization_def)

text \<open>The token is taken from the flag, then from the environment; certificates that do not load are dropped.\<close>

lemma getKRestConfig_user:
  assumes "bool_value args ''--kube-incluster'' = Some False" "string_value args ''--kube-url'' = Some host"
    "bool_value args ''--kube-insecure'' = Some insecure" "string_value args ''--kube-timeout'' = Some t"
    "re_ParseDuration env t = Some d"
  shows "\<exists>config. getKRestConfig env args = Value (Inr config) \<and> rc_Host config = host \<and> rc_Insecure config = insecure \<and>
    rc_Timeout config = d \<and>
    (\<forall>tok. string_value args ''--kube-token'' = Some tok \<and> tok \<noteq> [] \<longrightarrow> rc_BearerToken config = tok) \<and>
    (string_value args ''--kube-token'' = None \<longrightarrow> rc_BearerToken config = re_getenv env ''KUBE_TOKEN'') \<and>
    (rc_CAFile config \<noteq> [] \<longrightarrow> re_loads_cert env (rc_CAFile config))"
  using assms by (auto simp: getKRestConfig_def user_config_def MustParseDuration_def Let_def split: option.splits)

subsection \<open>Properties\<close>

text \<open>C39: A minor version below \<open>2 ^ 63\<close> that the server prints in decimal, with a plus sign behind it or without,
  is read back exactly, and so is one with a sign before it. A larger number is a range error with the largest
  integer as its value. A version that begins with neither a digit nor a sign is a syntax error with value 0. The
  empty version panics. The error does not stop the agent: it watches the ingress classes if and only if the
  value, whether or not there was an error, is at least 18.\<close>

theorem GetServerMinorVersion_roundtrip:
  assumes "n < 2 ^ 63" and "2 ^ 63 \<le> big" and "digit c = None" and "c \<notin> {CHR ''+'', CHR ''-''}"
  shows "GetServerMinorVersion (Inr (decimal n)) = Some (int n, None) \<and>
    GetServerMinorVersion (Inr (decimal n @ ''+'')) = Some (int n, None) \<and>
    GetServerMinorVersion (Inr (CHR ''+'' # decimal n)) = Some (int n, None) \<and>
    GetServerMinorVersion (Inr (CHR ''-'' # decimal n)) = Some (- int n, None) \<and>
    GetServerMinorVersion (Inr (decimal big)) = Some (2 ^ 63 - 1, Some (AtoiError ErrRange)) \<and>
    GetServerMinorVersion (Inr (c # rest)) = Some (0, Some (AtoiError ErrSyntax)) \<and>
    GetServerMinorVersion (Inr []) = None \<and>
    (\<forall>minor m err. GetServerMinorVersion minor = Some (m, err) \<longrightarrow>
      (\<exists>rs. watched_for v minor = Some rs \<and> (IngressClasses v \<in> set rs \<longleftrightarrow> m \<ge> 18)))"
proof -
  have last: "last (decimal k) \<noteq> CHR ''+''" for k using decimal_digits [of "last (decimal k)" k] not_digits by auto
  have "GetServerMinorVersion (Inr (c # rest)) = Some (0, Some (AtoiError ErrSyntax))"
    using assms(3,4) by (auto simp: GetServerMinorVersion_def Atoi_def)
  moreover have "\<exists>rs. watched_for v minor = Some rs \<and> (IngressClasses v \<in> set rs \<longleftrightarrow> m \<ge> 18)"
    if "GetServerMinorVersion minor = Some (m, err)" for minor m err
    using that IngressClasses_watched [of v m] by (simp add: watched_for_def)
  ultimately show ?thesis
    using last Atoi_decimal [OF assms(1)] Atoi_signed [OF assms(1)] Atoi_big [OF assms(2)]
    by (simp add: GetServerMinorVersion_def Let_def butlast_append)
qed

theorem GetServerMinorVersion_roundtrip_witness:
  "GetServerMinorVersion (Inr (decimal 21 @ ''+'')) = Some (21, None) \<and>
   GetServerMinorVersion (Inr (CHR ''-'' # decimal 21)) = Some (- 21, None) \<and>
   GetServerMinorVersion (Inr (decimal (2 ^ 70))) = Some (2 ^ 63 - 1, Some (AtoiError ErrRange)) \<and>
   GetServerMinorVersion (Inr (CHR ''v'' # ''21'')) = Some (0, Some (AtoiError ErrSyntax)) \<and>
   (\<exists>rs. watched_for demo_versions (Inr (decimal 21 @ ''+'')) = Some rs \<and> IngressClasses demo_versions \<in> set rs)"
proof -
  have "(21 :: nat) < 2 ^ 63" "(2 :: nat) ^ 63 \<le> 2 ^ 70" "digit CHR ''v'' = None" "CHR ''v'' \<notin> {CHR ''+'', CHR ''-''}"
    by (simp_all add: digit_def)
  from GetServerMinorVersion_roundtrip [OF this, of "''21''" demo_versions] show ?thesis by force
qed

end
