(* ===== verification/Wiring.thy ===== *)
theory Wiring
  imports Client_Session Gateway
begin

text \<open>
  How the client and the gateway are put together, and how workers are started and stopped: \<open>newClient\<close> and
  \<open>InitClient\<close> of \<open>client/client.go\<close>, \<open>New\<close>, \<open>Start\<close> and \<open>Stop\<close> of \<open>gateway/magalix-gateway.go\<close>, \<open>Start\<close> and
  \<open>Stop\<close> of \<open>auditor/auditor.go\<close> and of \<open>entities/entities.go\<close>, as far as they manage the context of a worker;
  and the encodings of \<open>proto/packets.go\<close> and \<open>utils/utils.go\<close>.

  The client of the session model is extended by the fields that only its construction sets. Contexts are
  numbered; \<open>wx_done\<close> lists the cancelled ones. Parsing of addresses, JSON and snappy are parameters.
\<close>

subsection \<open>The client\<close>

record timeouts =
  to_protoHandshake :: go_duration
  to_protoWrite :: go_duration
  to_protoRead :: go_duration
  to_protoReconnect :: go_duration
  to_protoBackoff :: go_duration

record ChannelOptions =
  ch_ProtoHandshake :: go_duration
  ch_ProtoWrite :: go_duration
  ch_ProtoRead :: go_duration
  ch_ProtoReconnect :: go_duration

record WiredClient = Client +
  wc_address :: string
  wc_channel :: "string \<times> ChannelOptions"
  wc_shouldSendLogs :: bool
  wc_logBuffer :: PacketLogs
  wc_timeouts :: timeouts

text \<open>\<open>parse\<close> is \<open>url.Parse\<close> followed by \<open>String\<close>; an address that does not parse panics.\<close>

definition newClient :: "(string \<Rightarrow> string option) \<Rightarrow> string \<Rightarrow> string \<Rightarrow> string \<Rightarrow> string \<Rightarrow> string \<Rightarrow> bytes \<Rightarrow> string \<Rightarrow> string \<Rightarrow>
    string \<Rightarrow> timeouts \<Rightarrow> bool \<Rightarrow> WiredClient option" where
  "newClient parse address version startID accountID clusterID secret serverVersion agentPermissions clusterProvider t shouldSendLogs = do {
     gwUrl \<leftarrow> parse address;
     Some \<lparr>cl_version = version, cl_startID = startID, cl_AccountID = accountID, cl_ClusterID = clusterID, cl_secret = secret,
       cl_ServerVersion = serverVersion, cl_AgentPermissions = agentPermissions, cl_ClusterProvider = clusterProvider,
       cl_connected = False, cl_authorized = False, cl_lastSent = 0, cl_blocked = [], cl_protoBackoff = to_protoBackoff t,
       wc_address = gwUrl,
       wc_channel = (gwUrl, \<lparr>ch_ProtoHandshake = to_protoHandshake t, ch_ProtoWrite = to_protoWrite t, ch_ProtoRead = to_protoRead t,
         ch_ProtoReconnect = to_protoReconnect t\<rparr>),
       wc_shouldSendLogs = shouldSendLogs, wc_logBuffer = [], wc_timeouts = t\<rparr> }"

definition InitClient :: "(string \<Rightarrow> string option) \<Rightarrow> string \<Rightarrow> string \<Rightarrow> string \<Rightarrow> string \<Rightarrow> bytes \<Rightarrow> string \<Rightarrow> string \<Rightarrow> string \<Rightarrow> string \<Rightarrow>
    go_duration \<Rightarrow> go_duration \<Rightarrow> go_duration \<Rightarrow> go_duration \<Rightarrow> go_duration \<Rightarrow> bool \<Rightarrow> WiredClient option" where
  "InitClient parse version startID accountID clusterID secret serverVersion agentPermissions clusterProvider gatewayUrl
       protoHandshake protoWrite protoRead protoReconnect protoBackoff sendLogs =
     newClient parse gatewayUrl version startID accountID clusterID secret serverVersion agentPermissions clusterProvider
       \<lparr>to_protoHandshake = protoHandshake, to_protoWrite = protoWrite, to_protoRead = protoRead,
        to_protoReconnect = protoReconnect, to_protoBackoff = protoBackoff\<rparr> sendLogs"

subsection \<open>The context of a worker\<close>

record worker_context =
  wx_cancel :: "nat option"
  wx_next :: nat
  wx_done :: "nat list"

definition new_context :: worker_context where
  "new_context = \<lparr>wx_cancel = None, wx_next = 0, wx_done = []\<rparr>"

definition call_cancelWorker :: "worker_context \<Rightarrow> worker_context option" where
  "call_cancelWorker w = map_option (\<lambda>c. w\<lparr>wx_done := c # wx_done w\<rparr>) (wx_cancel w)"

definition with_cancel :: "worker_context \<Rightarrow> worker_context" where
  "with_cancel w = w\<lparr>wx_cancel := Some (wx_next w), wx_next := Suc (wx_next w)\<rparr>"

definition live :: "worker_context \<Rightarrow> nat set" where
  "live w = {..<wx_next w} - set (wx_done w)"

subsection \<open>The gateway\<close>

record 'obj MagalixGateway =
  mg_MgxAgentGatewayUrl :: string
  mg_AccountID :: string
  mg_ClusterID :: string
  mg_ClientSecret :: bytes
  mg_AgentVersion :: string
  mg_AgentID :: string
  mg_K8sServerVersion :: string
  mg_AgentPermissions :: string
  mg_ClusterProvider :: string
  mg_ProtoHandshake :: go_duration
  mg_ProtoWriteTime :: go_duration
  mg_ProtoReadTime :: go_duration
  mg_ProtoReconnectTime :: go_duration
  mg_ProtoBackoff :: go_duration
  mg_ShouldSendLogs :: bool
  mg_gwClient :: WiredClient
  mg_cancelWorkers :: worker_context
  mg_auditResultsBuffer :: "'obj AuditResult list"

definition gateway_New :: "(string \<Rightarrow> string option) \<Rightarrow> string \<Rightarrow> string \<Rightarrow> string \<Rightarrow> bytes \<Rightarrow> string \<Rightarrow> string \<Rightarrow> string \<Rightarrow> string \<Rightarrow> string \<Rightarrow>
    go_duration \<Rightarrow> go_duration \<Rightarrow> go_duration \<Rightarrow> go_duration \<Rightarrow> go_duration \<Rightarrow> bool \<Rightarrow> 'obj MagalixGateway option" where
  "gateway_New parse gatewayUrl accountID clusterID secret agentVersion agentID k8sServerVersion agentPermissions clusterProvider
       protoHandshake protoWriteTime protoReadTime protoReconnectTime protoBackoff sendLogs = do {
     gwClient \<leftarrow> InitClient parse agentVersion agentID accountID clusterID secret k8sServerVersion agentPermissions clusterProvider
       gatewayUrl protoHandshake protoWriteTime protoReadTime protoReconnectTime protoBackoff sendLogs;
     Some \<lparr>mg_MgxAgentGatewayUrl = gatewayUrl, mg_AccountID = accountID, mg_ClusterID = clusterID, mg_ClientSecret = secret,
       mg_AgentVersion = agentVersion, mg_AgentID = agentID, mg_K8sServerVersion = k8sServerVersion,
       mg_AgentPermissions = agentPermissions, mg_ClusterProvider = clusterProvider, mg_ProtoHandshake = protoHandshake,
       mg_ProtoWriteTime = protoWriteTime, mg_ProtoReadTime = protoReadTime, mg_ProtoReconnectTime = protoReconnectTime,
       mg_ProtoBackoff = protoBackoff, mg_ShouldSendLogs = sendLogs, mg_gwClient = gwClient, mg_cancelWorkers = new_context,
       mg_auditResultsBuffer = []\<rparr> }"

text \<open>\<open>Start\<close> up to the call of \<open>Connect\<close>; the worker runs in the new context. \<open>Stop\<close> calls the field without a
  test.\<close>

definition gateway_Start :: "worker_context \<Rightarrow> worker_context option" where
  "gateway_Start w = do {
     w1 \<leftarrow> (if wx_cancel w \<noteq> None then call_cancelWorker w else Some w);
     Some (with_cancel w1) }"

definition gateway_Stop :: "worker_context \<Rightarrow> worker_context option" where
  "gateway_Stop w = call_cancelWorker w"

subsection \<open>The auditor and the entities watcher\<close>

definition auditor_Start :: "worker_context \<Rightarrow> worker_context option" where
  "auditor_Start w = do {
     w1 \<leftarrow> (if wx_cancel w \<noteq> None then call_cancelWorker w else Some w);
     Some (with_cancel w1) }"

definition auditor_Stop :: "worker_context \<Rightarrow> worker_context option" where
  "auditor_Stop w = (if wx_cancel w = None then Some w else call_cancelWorker w)"

definition ew_Start :: "worker_context \<Rightarrow> worker_context option" where
  "ew_Start w = Some (with_cancel w)"

definition ew_Stop :: "worker_context \<Rightarrow> worker_context option" where
  "ew_Stop w = (if wx_cancel w = None then Some w
     else do { w1 \<leftarrow> call_cancelWorker w; Some (w1\<lparr>wx_cancel := None\<rparr>) })"

subsection \<open>Encodings\<close>

record ('a, 'b) codec =
  co_Marshal :: "'a \<Rightarrow> (string + 'b) option"
  co_Unmarshal :: "'b \<Rightarrow> string + 'a"
  co_Compress :: "'b \<Rightarrow> 'b"
  co_Decompress :: "'b \<Rightarrow> string + 'b"

text \<open>A panic of the encoder (\<open>None\<close>) is recovered as an error.\<close>

definition EncodeSnappy :: "('a, 'b) codec \<Rightarrow> 'a \<Rightarrow> string + 'b" where
  "EncodeSnappy k x = (case co_Marshal k x of
     None \<Rightarrow> Inl ''panic''
   | Some (Inl err) \<Rightarrow> Inl (''unable to encode to snappy, error: '' @ err)
   | Some (Inr json) \<Rightarrow> Inr (co_Compress k json))"

definition DecodeSnappy :: "('a, 'b) codec \<Rightarrow> 'b \<Rightarrow> string + 'a" where
  "DecodeSnappy k b = (case co_Decompress k b of
     Inl err \<Rightarrow> Inl (''unable to decode to snappy, error: '' @ err)
   | Inr json \<Rightarrow> co_Unmarshal k json)"

text \<open>The encoding without compression; here a panic of the encoder is not recovered.\<close>

definition EncodeJSON :: "('a, 'b) codec \<Rightarrow> 'a \<Rightarrow> (string + 'b) option" where
  "EncodeJSON k x = co_Marshal k x"

definition DecodeJSON :: "('a, 'b) codec \<Rightarrow> 'b \<Rightarrow> string + 'a" where
  "DecodeJSON k b = co_Unmarshal k b"

definition Transcode :: "('u \<Rightarrow> string + 'b) \<Rightarrow> ('b \<Rightarrow> string + 'v) \<Rightarrow> 'u \<Rightarrow> string + 'v" where
  "Transcode marshal unmarshal u = (case marshal u of
     Inl err \<Rightarrow> Inl (''unable to marshal to json, error: '' @ err)
   | Inr b \<Rightarrow> (case unmarshal b of Inl err \<Rightarrow> Inl (''unable to unmarshal json, error: '' @ err) | Inr v \<Rightarrow> Inr v))"

subsection \<open>One worker at a time\<close>

text \<open>What the users of a start operation rely on: starting never fails and leaves exactly the new context
  alive, however often it is repeated.\<close>

definition context_ok :: "worker_context \<Rightarrow> bool" where
  "context_ok w \<longleftrightarrow> (case wx_cancel w of None \<Rightarrow> live w = {} | Some c \<Rightarrow> live w \<subseteq> {c} \<and> c < wx_next w) \<and> set (wx_done w) \<subseteq> {..<wx_next w}"

primrec start_times :: "(worker_context \<Rightarrow> worker_context option) \<Rightarrow> nat \<Rightarrow> worker_context \<Rightarrow> worker_context option" where
  "start_times start 0 w = Some w"
| "start_times start (Suc n) w = do { w' \<leftarrow> start w; start_times start n w' }"

locale single_worker =
  fixes start :: "worker_context \<Rightarrow> worker_context option" and stop :: "worker_context \<Rightarrow> worker_context option"
  assumes start_ok: "context_ok w \<Longrightarrow> \<exists>w'. start w = Some w' \<and> context_ok w' \<and> live w' = {wx_next w}"
    and stop_ok: "context_ok w \<Longrightarrow> wx_cancel w \<noteq> None \<Longrightarrow> \<exists>w'. stop w = Some w' \<and> context_ok w' \<and> live w' = {}"
begin

lemma started: "context_ok w \<Longrightarrow> \<exists>w'. start w = Some w' \<and> context_ok w' \<and> live w' = {wx_next w} \<and> wx_cancel w' \<noteq> None"
proof -
  assume "context_ok w"
  then obtain w' where w': "start w = Some w'" "context_ok w'" "live w' = {wx_next w}" using start_ok by blast
  then have "wx_cancel w' \<noteq> None" by (cases "wx_cancel w'") (auto simp: context_ok_def)
  with w' show ?thesis by blast
qed

lemma one_alive:
  "context_ok w \<Longrightarrow> \<exists>w' c. start_times start (Suc n) w = Some w' \<and> context_ok w' \<and> live w' = {c} \<and> wx_cancel w' \<noteq> None"
proof (induction n arbitrary: w)
  case 0
  then show ?case using started [of w] by auto
next
  case (Suc n)
  obtain w1 where w1: "start w = Some w1" "context_ok w1" using started [OF Suc.prems] by blast
  then show ?case using Suc.IH [OF w1(2)] by simp
qed

lemma alive_until_stopped:
  "context_ok w \<Longrightarrow> \<exists>w' c. start_times start (Suc n) w = Some w' \<and> live w' = {c} \<and> (\<exists>w''. stop w' = Some w'' \<and> live w'' = {})"
  using one_alive [of w n] stop_ok by blast

end

lemma context_ok_new: "context_ok new_context"
  by (simp add: context_ok_def new_context_def live_def)

lemmas context_defs = context_ok_def live_def call_cancelWorker_def with_cancel_def

lemma start_single:
  "context_ok w \<Longrightarrow> context_ok (with_cancel (case wx_cancel w of None \<Rightarrow> w | Some c \<Rightarrow> w\<lparr>wx_done := c # wx_done w\<rparr>)) \<and>
    live (with_cancel (case wx_cancel w of None \<Rightarrow> w | Some c \<Rightarrow> w\<lparr>wx_done := c # wx_done w\<rparr>)) = {wx_next w}"
  by (auto simp: context_defs less_Suc_eq split: option.splits)

interpretation gw: single_worker gateway_Start gateway_Stop
proof
  fix w assume ok: "context_ok w"
  show "\<exists>w'. gateway_Start w = Some w' \<and> context_ok w' \<and> live w' = {wx_next w}"
    using start_single [OF ok] by (cases "wx_cancel w") (auto simp: gateway_Start_def call_cancelWorker_def)
  show "\<exists>w'. gateway_Stop w = Some w' \<and> context_ok w' \<and> live w' = {}" if "wx_cancel w \<noteq> None"
    using ok that by (auto simp: gateway_Stop_def context_defs)
qed

interpretation aud: single_worker auditor_Start auditor_Stop
proof
  fix w assume ok: "context_ok w"
  show "\<exists>w'. auditor_Start w = Some w' \<and> context_ok w' \<and> live w' = {wx_next w}"
    using start_single [OF ok] by (cases "wx_cancel w") (auto simp: auditor_Start_def call_cancelWorker_def)
  show "\<exists>w'. auditor_Stop w = Some w' \<and> context_ok w' \<and> live w' = {}" if "wx_cancel w \<noteq> None"
    using ok that by (auto simp: auditor_Stop_def context_defs)
qed

text \<open>Stopping a gateway that was never started panics; the auditor and the watcher test the field. The watcher
  does not cancel the context of an earlier start.\<close>

lemma gateway_Stop_panics: "gateway_Stop new_context = None"
  by (simp add: gateway_Stop_def call_cancelWorker_def new_context_def)

lemma auditor_Stop_total: "auditor_Stop w \<noteq> None" "ew_Stop w \<noteq> None"
  by (auto simp: auditor_Stop_def ew_Stop_def call_cancelWorker_def)

lemma ew_Start_twice: "\<exists>w. (do { w1 \<leftarrow> ew_Start new_context; ew_Start w1 }) = Some w \<and> live w = {0, 1}"
  by (auto simp: ew_Start_def with_cancel_def new_context_def live_def)

subsection \<open>Wiring\<close>

text \<open>Every value that \<open>main\<close> hands to the gateway arrives in the field of the client that it is meant for.\<close>

lemma gateway_New_wires:
  assumes "gateway_New parse url acc cl sec ver aid k8s perm prov hs wr rd rc bo logs = Some g"
  shows "parse url = Some (wc_address (mg_gwClient g))"
    and "cl_version (mg_gwClient g) = ver" "cl_startID (mg_gwClient g) = aid" "cl_AccountID (mg_gwClient g) = acc"
    and "cl_ClusterID (mg_gwClient g) = cl" "cl_secret (mg_gwClient g) = sec" "cl_ServerVersion (mg_gwClient g) = k8s"
    and "cl_AgentPermissions (mg_gwClient g) = perm" "cl_ClusterProvider (mg_gwClient g) = prov"
    and "cl_protoBackoff (mg_gwClient g) = bo" "ch_ProtoRead (snd (wc_channel (mg_gwClient g))) = rd"
    and "ch_ProtoWrite (snd (wc_channel (mg_gwClient g))) = wr" "\<not> cl_authorized (mg_gwClient g)"
  using assms by (auto simp: gateway_New_def InitClient_def newClient_def split: Option.bind_splits)

text \<open>Packets survive the wire if JSON and snappy keep them.\<close>

lemma snappy_roundtrip:
  assumes "\<And>b. co_Decompress k (co_Compress k b) = Inr b" "\<And>y. co_Marshal k x = Some (Inr y) \<Longrightarrow> co_Unmarshal k y = Inr x"
    and "EncodeSnappy k x = Inr b"
  shows "DecodeSnappy k b = Inr x"
  using assms by (auto simp: EncodeSnappy_def DecodeSnappy_def split: option.splits sum.splits)

lemma json_roundtrip:
  assumes "\<And>y. co_Marshal k x = Some (Inr y) \<Longrightarrow> co_Unmarshal k y = Inr x" "EncodeJSON k x = Some (Inr b)"
  shows "DecodeJSON k b = Inr x" "EncodeSnappy k x = Inr (co_Compress k b)"
  using assms by (simp_all add: EncodeJSON_def DecodeJSON_def EncodeSnappy_def)

subsection \<open>Properties\<close>

text \<open>However often the gateway or the auditor is started, exactly one worker context is alive, the
  newest; stopping it then leaves none. Stopping a gateway that was never started panics, stopping such
  an auditor does nothing.\<close>

theorem one_worker_at_a_time:
  "(\<exists>w c. start_times gateway_Start (Suc n) new_context = Some w \<and> live w = {c} \<and>
      (\<exists>w'. gateway_Stop w = Some w' \<and> live w' = {})) \<and>
   (\<exists>w c. start_times auditor_Start (Suc n) new_context = Some w \<and> live w = {c} \<and>
      (\<exists>w'. auditor_Stop w = Some w' \<and> live w' = {})) \<and>
   gateway_Stop new_context = None \<and> auditor_Stop new_context = Some new_context"
proof -
  have "auditor_Stop new_context = Some new_context" by (simp add: auditor_Stop_def new_context_def)
  then show ?thesis
    using gw.alive_until_stopped [OF context_ok_new, of n] aud.alive_until_stopped [OF context_ok_new, of n] gateway_Stop_panics
    by blast
qed

end
