(* ===== verification/Recovery.thy ===== *)
theory Recovery
  imports Client_Logs Utils
begin

text \<open>
  \<open>client/client_recover.go\<close>: what happens when \<open>Start\<close> of the gateway panics.

  \<open>runtime.Stack(buf, true)\<close> writes as much of the trace as fits and returns the number of bytes written.
  The trace of all goroutines may differ from call to call, so it is a function of the number of the call.
  The loop need not end if the trace grows as fast as the buffer, so it is an option-valued function. The
  value of \<open>recover()\<close>, as \<open>%v\<close> prints it, is an argument; the logger behind \<open>logger.Fatal\<close> is a parameter that
  acts on the state of the log sink.
\<close>

subsection \<open>The trace of the stack\<close>

definition runtime_Stack :: "string \<Rightarrow> nat \<Rightarrow> string" where
  "runtime_Stack trace len = take len trace"

partial_function (option) stackTrace_loop :: "(nat \<Rightarrow> string) \<Rightarrow> nat \<Rightarrow> nat \<Rightarrow> string option" where
  "stackTrace_loop traces call len =
     (let written = runtime_Stack (traces call) len; stack = length written in
      if stack < len then Some (take stack written)
      else stackTrace_loop traces (Suc call) (2 * len))"

definition stackTrace :: "(nat \<Rightarrow> string) \<Rightarrow> string option" where
  "stackTrace traces = stackTrace_loop traces 0 1024"

subsection \<open>Recover\<close>

definition panic_message :: "string \<Rightarrow> string \<Rightarrow> string" where
  "panic_message tears stack = ''PANIC OCCURRED: '' @ tears @ [CHR 10] @ stack @ [CHR 10]"

text \<open>\<open>None\<close>: the trace is never complete. Without a panic nothing happens.\<close>

definition Recover :: "(string \<Rightarrow> 's \<Rightarrow> 's) \<Rightarrow> string option \<Rightarrow> (nat \<Rightarrow> string) \<Rightarrow> 's \<Rightarrow> ('s \<times> unit process) option" where
  "Recover fatal recovered traces st =
     (case recovered of
        None \<Rightarrow> Some (st, Value ())
      | Some tears \<Rightarrow> do {
          stack \<leftarrow> stackTrace traces;
          Some (fatal (panic_message tears stack) st, Exit 1) })"

subsection \<open>The loop returns a whole trace\<close>

lemma stackTrace_loop_step:
  "stackTrace_loop traces call len =
     (if length (traces call) < len then Some (traces call) else stackTrace_loop traces (Suc call) (2 * len))"
  by (subst stackTrace_loop.simps) (simp add: Let_def runtime_Stack_def)

lemma stackTrace_loop_skips:
  "(\<And>i. i < n \<Longrightarrow> len * 2 ^ i \<le> length (traces (call + i))) \<Longrightarrow>
    stackTrace_loop traces call len = stackTrace_loop traces (call + n) (len * 2 ^ n)"
proof (induction n)
  case (Suc n)
  then have "stackTrace_loop traces call len = stackTrace_loop traces (call + n) (len * 2 ^ n)" by simp
  also have "\<dots> = stackTrace_loop traces (Suc (call + n)) (2 * (len * 2 ^ n))"
    using Suc.prems [of n] stackTrace_loop_step [of traces "call + n" "len * 2 ^ n"] by simp
  finally show ?case by (simp add: ac_simps)
qed simp

text \<open>The number of the call that fits, if there is one.\<close>

lemma stackTrace_first_fit:
  assumes "length (traces k) < 1024 * 2 ^ k"
  shows "\<exists>n \<le> k. stackTrace traces = Some (traces n) \<and> length (traces n) < 1024 * 2 ^ n \<and>
    (\<forall>i < n. 1024 * 2 ^ i \<le> length (traces i))"
proof -
  define n where "n = (LEAST n. length (traces n) < 1024 * 2 ^ n)"
  have n: "length (traces n) < 1024 * 2 ^ n" "n \<le> k"
    unfolding n_def using assms by (rule LeastI, rule Least_le)
  have before: "1024 * 2 ^ i \<le> length (traces i)" if "i < n" for i
    using not_less_Least [OF that [unfolded n_def]] by simp
  then have "stackTrace traces = stackTrace_loop traces n (1024 * 2 ^ n)"
    unfolding stackTrace_def using stackTrace_loop_skips [of n 1024 traces 0] by simp
  then have "stackTrace traces = Some (traces n)" using n(1) stackTrace_loop_step [of traces n] by simp
  then show ?thesis using n before by blast
qed

text \<open>Whatever is returned is the trace of a call whose buffer was larger than it.\<close>

lemma stackTrace_loop_returned:
  "stackTrace_loop traces call len = Some stack \<Longrightarrow>
    \<exists>k. stack = traces (call + k) \<and> length stack < len * 2 ^ k"
proof (rule stackTrace_loop.raw_induct [where P = "\<lambda>traces call len stack. \<exists>k. stack = traces (call + k) \<and> length stack < len * 2 ^ k"])
  fix loop traces call len stack
  assume IH: "\<And>tr c l st. loop tr c l = Some st \<Longrightarrow> \<exists>k. st = tr (c + k) \<and> length st < l * 2 ^ k"
    and run: "(let written = runtime_Stack (traces call) len; stack = length written in
      if stack < len then Some (take stack written) else loop traces (Suc call) (2 * len)) = Some stack"
  show "\<exists>k. stack = traces (call + k) \<and> length stack < len * 2 ^ k"
  proof (cases "length (traces call) < len")
    case True
    then show ?thesis using run by (intro exI [of _ 0]) (auto simp: Let_def runtime_Stack_def)
  next
    case False
    then have "loop traces (Suc call) (2 * len) = Some stack" using run by (simp add: Let_def runtime_Stack_def)
    from IH [OF this] obtain k where "stack = traces (Suc call + k)" "length stack < 2 * len * 2 ^ k" by blast
    then show ?thesis by (intro exI [of _ "Suc k"]) (simp add: ac_simps)
  qed
qed

lemma stackTrace_iff:
  "stackTrace traces = None \<longleftrightarrow> (\<forall>k. 1024 * 2 ^ k \<le> length (traces k))"
  using stackTrace_first_fit [of traces] stackTrace_loop_returned [of traces 0 1024] unfolding stackTrace_def
  by (metis add_0 linorder_not_less not_Some_eq option.distinct(1))

subsection \<open>Properties\<close>

text \<open>When the gateway panics and the traces of the goroutines stay below some size, the recovery ends the
  process with code 1 after handing the logger one message with the panic value and a complete trace, never a
  cut one, and its buffer is at most twice as large as the traces can be, or 1 KiB; it runs for ever exactly
  when every trace fills the doubled buffer. Without a panic it does nothing.\<close>

theorem Recover_reports_whole_trace:
  assumes "\<And>k. length (traces k) < bound"
  shows "Recover fatal None traces st = Some (st, Value ()) \<and>
    (\<exists>n. Recover fatal (Some tears) traces st = Some (fatal (panic_message tears (traces n)) st, Exit 1) \<and>
      (1024 * 2 ^ n = (1024 :: nat) \<or> 1024 * 2 ^ n < 2 * bound)) \<and>
    (Recover fatal (Some tears) wild st = None \<longleftrightarrow> (\<forall>k. 1024 * 2 ^ k \<le> length (wild k)))"
proof -
  have "bound < 2 ^ bound" by (rule less_exp)
  then have "length (traces bound) < 1024 * 2 ^ bound" using assms [of bound] by linarith
  from stackTrace_first_fit [of traces bound, OF this] obtain n where
    n: "stackTrace traces = Some (traces n)" "\<forall>i < n. 1024 * 2 ^ i \<le> length (traces i)" by blast
  have "1024 * 2 ^ n = (1024 :: nat) \<or> 1024 * 2 ^ n < 2 * bound"
  proof (cases n)
    case (Suc m)
    then show ?thesis using n(2) assms [of m] by (auto dest!: spec [of _ m])
  qed simp
  then show ?thesis using n(1) stackTrace_iff [of wild] by (auto simp: Recover_def split: Option.bind_splits)
qed

theorem Recover_reports_whole_trace_witness:
  "\<exists>n. Recover (\<lambda>msg log. log @ [msg]) (Some ''boom'') (\<lambda>_. replicate 3000 CHR ''x'') [] =
      Some ([panic_message ''boom'' (replicate 3000 CHR ''x'')], Exit 1) \<and> (1024 * 2 ^ n = (1024 :: nat) \<or> 1024 * 2 ^ n < 2 * (3001 :: nat))"
proof -
  have "\<And>k :: nat. length (replicate 3000 CHR ''x'') < 3001" by simp
  from Recover_reports_whole_trace [of "\<lambda>_. replicate 3000 CHR ''x''" 3001 "\<lambda>msg log. log @ [msg]" "[]" "''boom''", OF this]
  show ?thesis by auto
qed

end
