(* ===== verification/Kuber_Informers.thy ===== *)
theory Kuber_Informers
  imports Kuber_Observer Entities
begin

text \<open>
  The rest of \<open>kuber/observer.go\<close>: the observer that creates and starts one informer per resource, the
  watchers it hands out, the two ways of waiting for the caches of the informers, and the adaptor
  \<open>ResourceEventHandlerFuncs\<close>; and the loop of \<open>EntitiesWatcher.Start\<close> that runs on the observer.

  The factory of informers is a library: the record \<open>factory_api\<close> holds its operations over a state \<open>'f\<close> and
  informers \<open>'i\<close>, with the two observations that the laws speak of, which informer a factory has for a
  resource and which informers run. The stop channel carries values to the goroutines that receive from it.
\<close>

subsection \<open>Observer and watchers\<close>

type_synonym GroupVersionResource = "string \<times> string \<times> string"

definition gvrk_resource :: "GroupVersionResourceKind \<Rightarrow> GroupVersionResource" where
  "gvrk_resource gvrk = (gv_Group gvrk, gv_Version gvrk, gv_Resource gvrk)"

text \<open>The form of a resource in packets, of \<open>entities/entities.go\<close>.\<close>

record AgentGroupVersionResourceKind =
  ag_GroupVersionResource :: GroupVersionResource
  ag_Kind :: string

definition packetGvrk :: "GroupVersionResourceKind \<Rightarrow> AgentGroupVersionResourceKind" where
  "packetGvrk gvrk = \<lparr>ag_GroupVersionResource = gvrk_resource gvrk, ag_Kind = gv_Kind gvrk\<rparr>"

lemma packetGvrk_inj: "packetGvrk g = packetGvrk g' \<longleftrightarrow> g = g'"
  by (auto simp: packetGvrk_def gvrk_resource_def)

record ('c, 'f, 'i) factory_api =
  fa_New :: "'c \<Rightarrow> go_duration \<Rightarrow> 'f"
  fa_ForResource :: "'f \<Rightarrow> GroupVersionResource \<Rightarrow> 'f \<times> 'i"
  fa_Start :: "'f \<Rightarrow> 'f"
  fa_informer :: "'f \<Rightarrow> GroupVersionResource \<Rightarrow> 'i option"
  fa_running :: "'f \<Rightarrow> 'i set"

record 'f Observer =
  ob_Factory :: 'f
  ob_ParentsStore :: ParentsStore
  ob_stopCh :: addr

record 'i watcher =
  wt_gvrk :: GroupVersionResourceKind
  wt_informer :: 'i

definition NewObserver :: "('c, 'f, 'i) factory_api \<Rightarrow> 'c \<Rightarrow> ParentsStore \<Rightarrow> addr \<Rightarrow> go_duration \<Rightarrow> 'f Observer" where
  "NewObserver api client parentsStore stopCh defaultResync =
     \<lparr>ob_Factory = fa_New api client defaultResync, ob_ParentsStore = parentsStore, ob_stopCh = stopCh\<rparr>"

definition observer_WatcherFor :: "('c, 'f, 'i) factory_api \<Rightarrow> GroupVersionResourceKind \<Rightarrow> 'f Observer \<Rightarrow> 'f Observer \<times> 'i watcher" where
  "observer_WatcherFor api gvrk observer =
     (case fa_ForResource api (ob_Factory observer) (gvrk_resource gvrk) of (factory, informer) \<Rightarrow>
       (observer\<lparr>ob_Factory := factory\<rparr>, \<lparr>wt_gvrk = gvrk, wt_informer = informer\<rparr>))"

definition observer_Start :: "('c, 'f, 'i) factory_api \<Rightarrow> 'f Observer \<Rightarrow> 'f Observer" where
  "observer_Start api observer = observer\<lparr>ob_Factory := fa_Start api (ob_Factory observer)\<rparr>"

definition observer_Watch :: "('c, 'f, 'i) factory_api \<Rightarrow> GroupVersionResourceKind \<Rightarrow> 'f Observer \<Rightarrow> 'f Observer \<times> 'i watcher" where
  "observer_Watch api gvrk observer =
     (case observer_WatcherFor api gvrk observer of (observer1, watcher) \<Rightarrow> (observer_Start api observer1, watcher))"

definition watcher_GetGroupVersionResourceKind :: "'i watcher \<Rightarrow> GroupVersionResourceKind" where
  "watcher_GetGroupVersionResourceKind w = wt_gvrk w"

text \<open>The other questions are passed on to the informer.\<close>

record ('i, 'l) informer_api =
  ia_Lister :: "'i \<Rightarrow> 'l"
  ia_HasSynced :: "'i \<Rightarrow> bool"
  ia_LastSyncResourceVersion :: "'i \<Rightarrow> string"

definition watcher_Lister :: "('i, 'l) informer_api \<Rightarrow> 'i watcher \<Rightarrow> 'l" where
  "watcher_Lister api w = ia_Lister api (wt_informer w)"

definition watcher_HasSynced :: "('i, 'l) informer_api \<Rightarrow> 'i watcher \<Rightarrow> bool" where
  "watcher_HasSynced api w = ia_HasSynced api (wt_informer w)"

definition watcher_LastSyncResourceVersion :: "('i, 'l) informer_api \<Rightarrow> 'i watcher \<Rightarrow> string" where
  "watcher_LastSyncResourceVersion api w = ia_LastSyncResourceVersion api (wt_informer w)"

text \<open>Handlers that were added to informers: the handler is wrapped with the masking of \<open>Kuber_Observer\<close> and
  learns the resource of the watcher. A notification is what the informer reports.\<close>

datatype 'j notification = Added "'j option" | Updated "'j option" "'j option" | Deleted "'j option"

definition wrapHandler :: "('j, 'x) json_api \<Rightarrow> GroupVersionResourceKind \<Rightarrow> 'j notification \<Rightarrow>
    (GroupVersionResourceKind \<times> 'j handler_call) list option" where
  "wrapHandler api gvrk n =
     map_option (map (\<lambda>call. (gvrk, call)))
       (case n of
          Added obj \<Rightarrow> AddFunc api obj
        | Updated oldObj newObj \<Rightarrow> UpdateFunc api oldObj newObj
        | Deleted obj \<Rightarrow> DeleteFunc api obj)"

record ('i, 'j) registration =
  rg_informer :: 'i
  rg_handler :: "'j notification \<Rightarrow> (GroupVersionResourceKind \<times> 'j handler_call) list option"
  rg_resyncPeriod :: "go_duration option"

definition watcher_AddEventHandler :: "('j, 'x) json_api \<Rightarrow> 'i watcher \<Rightarrow> ('i, 'j) registration list \<Rightarrow> ('i, 'j) registration list" where
  "watcher_AddEventHandler api w regs =
     regs @ [\<lparr>rg_informer = wt_informer w, rg_handler = wrapHandler api (wt_gvrk w), rg_resyncPeriod = None\<rparr>]"

definition watcher_AddEventHandlerWithResyncPeriod :: "('j, 'x) json_api \<Rightarrow> go_duration \<Rightarrow> 'i watcher \<Rightarrow>
    ('i, 'j) registration list \<Rightarrow> ('i, 'j) registration list" where
  "watcher_AddEventHandlerWithResyncPeriod api resyncPeriod w regs =
     regs @ [\<lparr>rg_informer = wt_informer w, rg_handler = wrapHandler api (wt_gvrk w), rg_resyncPeriod = Some resyncPeriod\<rparr>]"

text \<open>\<open>Stop\<close> sends one value on the channel instead of closing it: the send hands the value to one of the
  goroutines that receive from it, chosen by the runtime (\<open>pick\<close>), and blocks when there is none.\<close>

definition observer_Stop :: "nat \<Rightarrow> 'g list \<Rightarrow> ('g \<times> 'g list) option" where
  "observer_Stop pick receivers =
     (if pick < length receivers then Some (receivers ! pick, remove_nth pick receivers) else None)"

subsection \<open>The loops of Start\<close>

fun watch_all :: "('c, 'f, 'i) factory_api \<Rightarrow> GroupVersionResourceKind list \<Rightarrow>
    'f Observer \<times> (GroupVersionResourceKind, 'i watcher) fmap \<times> (string, 'i watcher) fmap \<Rightarrow>
    'f Observer \<times> (GroupVersionResourceKind, 'i watcher) fmap \<times> (string, 'i watcher) fmap" where
  "watch_all api [] s = s"
| "watch_all api (gvrk # rest) (observer, watchers, watchersByKind) =
     (case observer_Watch api gvrk observer of (observer1, w) \<Rightarrow>
       watch_all api rest (observer1, fmupd gvrk w watchers, fmupd (gv_Kind gvrk) w watchersByKind))"

text \<open>The second loop visits the watchers in an arbitrary order.\<close>

fun add_handlers :: "('j, 'x) json_api \<Rightarrow> (GroupVersionResourceKind, 'i watcher) fmap \<Rightarrow> GroupVersionResourceKind list \<Rightarrow>
    ('i, 'j) registration list \<Rightarrow> ('i, 'j) registration list" where
  "add_handlers api watchers [] regs = regs"
| "add_handlers api watchers (gvrk # order) regs =
     (case fmlookup watchers gvrk of
        None \<Rightarrow> add_handlers api watchers order regs
      | Some w \<Rightarrow> add_handlers api watchers order (watcher_AddEventHandler api w regs))"

subsection \<open>The adaptor for handlers\<close>

text \<open>A function field may be nil, and so may the pointer to the observer; the functions act on a state
  \<open>'s\<close>. \<open>OnDelete\<close> follows the pointer in any case.\<close>

record ('obj, 's) ResourceEventHandlerFuncs =
  rf_Observer :: "ParentsStore option"
  rf_AddFunc :: "(GroupVersionResourceKind \<Rightarrow> 'obj Unstructured \<Rightarrow> 's \<Rightarrow> 's) option"
  rf_UpdateFunc :: "(GroupVersionResourceKind \<Rightarrow> 'obj Unstructured \<Rightarrow> 'obj Unstructured \<Rightarrow> 's \<Rightarrow> 's) option"
  rf_DeleteFunc :: "(GroupVersionResourceKind \<Rightarrow> 'obj Unstructured \<Rightarrow> 's \<Rightarrow> 's) option"

definition funcs_OnAdd :: "('obj, 's) ResourceEventHandlerFuncs \<Rightarrow> GroupVersionResourceKind \<Rightarrow> 'obj Unstructured \<Rightarrow> 's \<Rightarrow> 's" where
  "funcs_OnAdd r gvrk obj st = (case rf_AddFunc r of None \<Rightarrow> st | Some f \<Rightarrow> f gvrk obj st)"

definition funcs_OnUpdate :: "('obj, 's) ResourceEventHandlerFuncs \<Rightarrow> GroupVersionResourceKind \<Rightarrow> 'obj Unstructured \<Rightarrow>
    'obj Unstructured \<Rightarrow> 's \<Rightarrow> 's" where
  "funcs_OnUpdate r gvrk oldObj newObj st = (case rf_UpdateFunc r of None \<Rightarrow> st | Some f \<Rightarrow> f gvrk oldObj newObj st)"

definition funcs_OnDelete :: "('obj, 's) ResourceEventHandlerFuncs \<Rightarrow> GroupVersionResourceKind \<Rightarrow> 'obj Unstructured \<Rightarrow> 's \<Rightarrow>
    (('obj, 's) ResourceEventHandlerFuncs \<times> 's) option" where
  "funcs_OnDelete r gvrk obj st =
     (let st' = (case rf_DeleteFunc r of None \<Rightarrow> st | Some f \<Rightarrow> f gvrk obj st) in
      case rf_Observer r of
        None \<Rightarrow> None
      | Some store \<Rightarrow>
          Some (r\<lparr>rf_Observer := Some (parents_Delete (un_Namespace obj) (un_Kind obj) (un_Name obj) store)\<rparr>, st'))"

subsection \<open>Waiting for the caches\<close>

text \<open>Both waits start a goroutine that waits for the caches, which ends also when the stop channel delivers,
  and then sends on a channel of capacity \<open>cap\<close>: 1 in \<open>WatchAndWaitForSync\<close>, 0 in \<open>WaitForCacheSync\<close>. The caller
  selects between that channel and a timer.\<close>

datatype wait_pc = Selecting | ReceivedDone | TimedOut
datatype helper_pc = WaitsForSync | SendsDone | HelperEnded

record sync_state =
  sy_caller :: wait_pc
  sy_helper :: helper_pc
  sy_synced :: bool
  sy_buffered :: nat

definition sync_init :: sync_state where
  "sync_init = \<lparr>sy_caller = Selecting, sy_helper = WaitsForSync, sy_synced = False, sy_buffered = 0\<rparr>"

inductive sync_step :: "nat \<Rightarrow> sync_state \<Rightarrow> sync_state \<Rightarrow> bool" for cap where
  caches_synced: "sy_helper s = WaitsForSync \<Longrightarrow> sync_step cap s (s\<lparr>sy_helper := SendsDone, sy_synced := True\<rparr>)"
| wait_stopped: "sy_helper s = WaitsForSync \<Longrightarrow> sync_step cap s (s\<lparr>sy_helper := SendsDone\<rparr>)"
| send_buffered: "sy_helper s = SendsDone \<Longrightarrow> sy_buffered s < cap \<Longrightarrow>
    sync_step cap s (s\<lparr>sy_helper := HelperEnded, sy_buffered := Suc (sy_buffered s)\<rparr>)"
| hand_over: "sy_helper s = SendsDone \<Longrightarrow> sy_caller s = Selecting \<Longrightarrow> sy_buffered s = 0 \<Longrightarrow>
    sync_step cap s (s\<lparr>sy_helper := HelperEnded, sy_caller := ReceivedDone\<rparr>)"
| receive_buffered: "sy_caller s = Selecting \<Longrightarrow> sy_buffered s > 0 \<Longrightarrow>
    sync_step cap s (s\<lparr>sy_caller := ReceivedDone, sy_buffered := sy_buffered s - 1\<rparr>)"
| wait_timeout: "sy_caller s = Selecting \<Longrightarrow> sync_step cap s (s\<lparr>sy_caller := TimedOut\<rparr>)"

inductive_cases sync_stepE: "sync_step cap s s'"

inductive sync_reach :: "nat \<Rightarrow> sync_state \<Rightarrow> bool" for cap where
  start: "sync_reach cap sync_init"
| step: "sync_reach cap s \<Longrightarrow> sync_step cap s s' \<Longrightarrow> sync_reach cap s'"

definition WaitForCacheSync_capacity :: nat where "WaitForCacheSync_capacity = 0"
definition WatchAndWaitForSync_capacity :: nat where "WatchAndWaitForSync_capacity = 1"

text \<open>What the two functions return, by the state of their caller.\<close>

definition WaitForCacheSync_result :: "wait_pc \<Rightarrow> string option option" where
  "WaitForCacheSync_result pc = (case pc of
     Selecting \<Rightarrow> None | ReceivedDone \<Rightarrow> Some None | TimedOut \<Rightarrow> Some (Some ''timeout waiting for cache sync''))"

definition WatchAndWaitForSync :: "('c, 'f, 'i) factory_api \<Rightarrow> GroupVersionResourceKind \<Rightarrow> wait_pc \<Rightarrow> 'f Observer \<Rightarrow>
    ('f Observer \<times> (string + 'i watcher)) option" where
  "WatchAndWaitForSync api gvrk pc observer =
     (case observer_Watch api gvrk observer of (observer1, watcher) \<Rightarrow>
       (case pc of
          Selecting \<Rightarrow> None
        | ReceivedDone \<Rightarrow> Some (observer1, Inr watcher)
        | TimedOut \<Rightarrow> Some (observer1, Inl ''Time out waiting for informer sync'')))"

subsection \<open>Informers are shared and run\<close>

text \<open>The documented behaviour of a factory: asking for a resource gives the informer that the factory already
  has for it, or a new one; starting runs every informer it has; nothing is forgotten.\<close>

definition factory_laws :: "('c, 'f, 'i) factory_api \<Rightarrow> bool" where
  "factory_laws api \<longleftrightarrow>
     (\<forall>f r f' i. fa_ForResource api f r = (f', i) \<longrightarrow>
        fa_informer api f' r = Some i \<and> (\<forall>j. fa_informer api f r = Some j \<longrightarrow> i = j) \<and>
        (\<forall>r'. r' \<noteq> r \<longrightarrow> fa_informer api f' r' = fa_informer api f r')) \<and>
     (\<forall>f r. fa_informer api (fa_Start api f) r = fa_informer api f r \<and>
        (\<forall>i. fa_informer api f r = Some i \<longrightarrow> i \<in> fa_running api (fa_Start api f)))"

text \<open>The watcher serves its resource with an informer of the factory that runs.\<close>

definition serves :: "('c, 'f, 'i) factory_api \<Rightarrow> 'f Observer \<Rightarrow> GroupVersionResourceKind \<Rightarrow> 'i watcher \<Rightarrow> bool" where
  "serves api observer gvrk w \<longleftrightarrow> wt_gvrk w = gvrk \<and>
     fa_informer api (ob_Factory observer) (gvrk_resource gvrk) = Some (wt_informer w) \<and>
     wt_informer w \<in> fa_running api (ob_Factory observer)"

lemma observer_Watch_serves:
  assumes "factory_laws api" "observer_Watch api gvrk observer = (observer', w)"
  shows "serves api observer' gvrk w" and "serves api observer g w' \<Longrightarrow> serves api observer' g w'"
    and "ob_ParentsStore observer' = ob_ParentsStore observer"
proof -
  obtain f i where f: "fa_ForResource api (ob_Factory observer) (gvrk_resource gvrk) = (f, i)" by fastforce
  have eqs: "w = \<lparr>wt_gvrk = gvrk, wt_informer = i\<rparr>" "observer' = observer\<lparr>ob_Factory := fa_Start api f\<rparr>"
    using assms(2) f by (auto simp: observer_Watch_def observer_WatcherFor_def observer_Start_def)
  have new: "fa_informer api f (gvrk_resource gvrk) = Some i" "\<forall>j. fa_informer api (ob_Factory observer) (gvrk_resource gvrk) = Some j \<longrightarrow> i = j"
    "\<forall>r'. r' \<noteq> gvrk_resource gvrk \<longrightarrow> fa_informer api f r' = fa_informer api (ob_Factory observer) r'"
    using assms(1) f unfolding factory_laws_def by blast+
  have started: "fa_informer api (fa_Start api f) r = fa_informer api f r"
    "fa_informer api f r = Some j \<Longrightarrow> j \<in> fa_running api (fa_Start api f)" for r j
    using assms(1) unfolding factory_laws_def by blast+
  show "serves api observer' gvrk w" by (simp add: serves_def eqs started(1) new(1) started(2) [OF new(1)])
  have kept: "fa_informer api f r = Some j" if "fa_informer api (ob_Factory observer) r = Some j" for r j
    using new that by metis
  show "serves api observer g w' \<Longrightarrow> serves api observer' g w'"
    using started(2) [OF kept] by (simp add: serves_def eqs started(1) kept) blast
  show "ob_ParentsStore observer' = ob_ParentsStore observer" by (simp add: eqs)
qed

lemma watch_all_serves:
  assumes "factory_laws api" "distinct (map gv_Kind gs)"
  shows "watch_all api gs (observer, watchers, byKind) = (observer', watchers', byKind') \<Longrightarrow>
    (\<forall>g w. fmlookup watchers g = Some w \<longrightarrow> serves api observer g w) \<Longrightarrow>
    (\<forall>g w. fmlookup watchers' g = Some w \<longrightarrow> serves api observer' g w) \<and> fmdom' watchers' = fmdom' watchers \<union> set gs \<and>
    (\<forall>g \<in> set gs. fmlookup byKind' (gv_Kind g) = fmlookup watchers' g) \<and>
    (\<forall>k. k \<notin> gv_Kind ` set gs \<longrightarrow> fmlookup byKind' k = fmlookup byKind k) \<and>
    (\<forall>g. g \<notin> set gs \<longrightarrow> fmlookup watchers' g = fmlookup watchers g) \<and>
    ob_ParentsStore observer' = ob_ParentsStore observer"
  using assms(2)
proof (induction gs arbitrary: observer watchers byKind)
  case (Cons g gs)
  obtain o1 w where w: "observer_Watch api g observer = (o1, w)" by fastforce
  note watch = observer_Watch_serves [OF assms(1) w]
  have run: "watch_all api gs (o1, fmupd g w watchers, fmupd (gv_Kind g) w byKind) = (observer', watchers', byKind')"
    using Cons.prems(1) w by simp
  have ok: "\<forall>g' w'. fmlookup (fmupd g w watchers) g' = Some w' \<longrightarrow> serves api o1 g' w'"
    using watch(1,2) Cons.prems(2) by auto
  have "distinct (map gv_Kind gs)" using Cons.prems(3) by simp
  note IH = Cons.IH [OF run ok this]
  have "gv_Kind g \<notin> gv_Kind ` set gs" "g \<notin> set gs" using Cons.prems(3) by auto
  then have "fmlookup byKind' (gv_Kind g) = fmlookup watchers' g" using IH by auto
  then show ?case using IH watch(3) by auto
qed simp

subsection \<open>Handlers\<close>

text \<open>Every handler call that an informer causes names the resource of the watcher and a masked object.\<close>

lemma wrapHandler_masks:
  assumes "wrapHandler api gvrk n = Some calls" "(g, call) \<in> set calls" "x \<in> set (call_objects call)"
  shows "g = gvrk" "\<exists>y. maskUnstructured api y = Inr x"
  using assms by (auto simp: wrapHandler_def split: notification.splits intro: calls_are_masked)

lemma add_handlers_app:
  "set order \<subseteq> fmdom' watchers \<Longrightarrow> \<exists>new. add_handlers api watchers order regs = regs @ new \<and>
    map rg_informer new = map (\<lambda>g. wt_informer (the (fmlookup watchers g))) order \<and>
    map rg_handler new = map (\<lambda>g. wrapHandler api (wt_gvrk (the (fmlookup watchers g)))) order"
proof (induction order arbitrary: regs)
  case (Cons g order)
  then obtain w where w: "fmlookup watchers g = Some w" by (auto simp: fmlookup_dom'_iff)
  from Cons.IH [of "watcher_AddEventHandler api w regs"] Cons.prems obtain new where
    "add_handlers api watchers order (watcher_AddEventHandler api w regs) = watcher_AddEventHandler api w regs @ new"
    "map rg_informer new = map (\<lambda>g. wt_informer (the (fmlookup watchers g))) order"
    "map rg_handler new = map (\<lambda>g. wrapHandler api (wt_gvrk (the (fmlookup watchers g)))) order" by auto
  then show ?case
    using w by (intro exI [of _ "\<lparr>rg_informer = wt_informer w, rg_handler = wrapHandler api (wt_gvrk w), rg_resyncPeriod = None\<rparr> # new"])
      (simp add: watcher_AddEventHandler_def)
qed simp

text \<open>One stop value reaches one goroutine, whatever the number of informers; without any it blocks.\<close>

lemma observer_Stop_wakes_one:
  "pick < length receivers \<Longrightarrow> \<exists>g rest. observer_Stop pick receivers = Some (g, rest) \<and> length rest = length receivers - 1"
  "observer_Stop pick [] = None"
  by (simp_all add: observer_Stop_def)

text \<open>An adaptor built without an observer panics at the first deletion, after its own function ran.\<close>

lemma funcs_OnDelete_panics: "rf_Observer r = None \<Longrightarrow> funcs_OnDelete r gvrk obj st = None"
  by (simp add: funcs_OnDelete_def)

lemma funcs_OnDelete_forgets:
  "rf_Observer r = Some store \<Longrightarrow> \<exists>r' st' store'. funcs_OnDelete r gvrk obj st = Some (r', st') \<and> rf_Observer r' = Some store' \<and>
    store_GetParents (un_Namespace obj) (un_Kind obj) (un_Name obj) store' = None"
  by (simp add: funcs_OnDelete_def store_GetParents_def parents_Delete_def)

subsection \<open>Waiting\<close>

definition sync_inv :: "nat \<Rightarrow> sync_state \<Rightarrow> bool" where
  "sync_inv cap s \<longleftrightarrow> sy_buffered s \<le> cap \<and> sy_buffered s \<le> 1 \<and>
     (sy_helper s \<noteq> HelperEnded \<longrightarrow> sy_buffered s = 0 \<and> sy_caller s \<noteq> ReceivedDone) \<and>
     (sy_helper s = HelperEnded \<longrightarrow> (sy_caller s = ReceivedDone) = (sy_buffered s = 0))"

lemma sync_reach_inv: "sync_reach cap s \<Longrightarrow> sync_inv cap s"
proof (induction rule: sync_reach.induct)
  case start
  then show ?case by (simp add: sync_inv_def sync_init_def)
next
  case (step s s')
  from step(2,3) show ?case by (cases rule: sync_step.cases) (auto simp: sync_inv_def)
qed

subsection \<open>A small factory\<close>

text \<open>Informers are numbered in the order of the requests; the second component says how many were started.\<close>

definition demo_factory :: "(unit, GroupVersionResource list \<times> nat, nat) factory_api" where
  "demo_factory = \<lparr>fa_New = (\<lambda>_ _. ([], 0)),
     fa_ForResource = (\<lambda>(rs, n) r. if r \<in> set rs then ((rs, n), length (takeWhile (\<lambda>x. x \<noteq> r) rs)) else ((rs @ [r], n), length rs)),
     fa_Start = (\<lambda>(rs, n). (rs, length rs)),
     fa_informer = (\<lambda>(rs, n) r. if r \<in> set rs then Some (length (takeWhile (\<lambda>x. x \<noteq> r) rs)) else None),
     fa_running = (\<lambda>(rs, n). {..<n})\<rparr>"

lemma takeWhile_found: "r \<in> set rs \<Longrightarrow> length (takeWhile (\<lambda>x. x \<noteq> r) rs) < length rs"
  by (induction rs) auto

lemma takeWhile_app: "length (takeWhile (\<lambda>x. x \<noteq> r) (rs @ ys)) =
    (if r \<in> set rs then length (takeWhile (\<lambda>x. x \<noteq> r) rs) else length rs + length (takeWhile (\<lambda>x. x \<noteq> r) ys))"
  by (induction rs) auto

lemma demo_factory_laws: "factory_laws demo_factory"
  by (auto simp: factory_laws_def demo_factory_def takeWhile_app takeWhile_found split: if_splits prod.splits)

subsection \<open>Properties\<close>

text \<open>C37: The loops of \<open>EntitiesWatcher.Start\<close> on the observer: afterwards every watched resource, and no
  other, has a watcher, made for that resource, whose informer is the one the factory has for it and runs;
  the index by kind leads to the same watcher; the store of parents is untouched; and the second loop, in
  whatever order, adds to each of these informers one handler, the wrapper that names this resource.\<close>

theorem Start_watches_and_handles:
  assumes "factory_laws api" and "watch_all api (resources_for_version v version) (observer, fmempty, fmempty) = (observer', watchers, byKind)"
    and "range_order watchers order"
  shows "(\<forall>gvrk. (\<exists>w. WatcherFor watchers gvrk = Inr w) \<longleftrightarrow> gvrk \<in> set (resources_for_version v version)) \<and>
    (\<forall>gvrk w. WatcherFor watchers gvrk = Inr w \<longrightarrow> serves api observer' gvrk w \<and> fmlookup byKind (gv_Kind gvrk) = Some w) \<and>
    ob_ParentsStore observer' = ob_ParentsStore observer \<and>
    map (\<lambda>r. (Some (rg_informer r), rg_handler r)) (add_handlers japi watchers order []) =
      map (\<lambda>g. (fa_informer api (ob_Factory observer') (gvrk_resource g), wrapHandler japi g)) order"
proof -
  let ?gs = "resources_for_version v version"
  note all = watch_all_serves [OF assms(1) resource_kinds_distinct assms(2), simplified]
  have "fmdom' watchers = set ?gs" using all by blast
  then have dom: "g \<in> set ?gs \<longleftrightarrow> (\<exists>w. fmlookup watchers g = Some w)" for g by (metis fmlookup_dom'_iff)
  obtain new where new: "add_handlers japi watchers order [] = new"
    "map rg_informer new = map (\<lambda>g. wt_informer (the (fmlookup watchers g))) order"
    "map rg_handler new = map (\<lambda>g. wrapHandler japi (wt_gvrk (the (fmlookup watchers g)))) order"
    using add_handlers_app [of order watchers japi "[]"] assms(3) by (auto simp: range_order_def)
  have at: "Some (wt_informer (the (fmlookup watchers g))) = fa_informer api (ob_Factory observer') (gvrk_resource g) \<and>
      wt_gvrk (the (fmlookup watchers g)) = g" if g: "g \<in> set order" for g
  proof -
    obtain w where w: "fmlookup watchers g = Some w" using g assms(3) by (auto simp: range_order_def fmlookup_dom'_iff)
    then have "serves api observer' g w" using all by blast
    then show ?thesis using w by (simp add: serves_def)
  qed
  have "map (\<lambda>r. (Some (rg_informer r), rg_handler r)) new = zip (map Some (map rg_informer new)) (map rg_handler new)"
    by (simp add: zip_map_map zip_same_conv_map)
  also have "\<dots> = map (\<lambda>g. (fa_informer api (ob_Factory observer') (gvrk_resource g), wrapHandler japi g)) order"
    unfolding new(2,3) using at by (simp add: zip_map_map zip_same_conv_map)
  finally show ?thesis
    using all dom new(1) by (auto simp: WatcherFor_def split: option.splits)
qed

theorem Start_watches_and_handles_witness:
  "\<exists>observer' watchers byKind order. watch_all demo_factory (resources_for_version demo_versions 17)
      (NewObserver demo_factory () NewParentsStore 0 0, fmempty, fmempty) = (observer', watchers, byKind) \<and>
    range_order watchers order \<and> (\<exists>w. WatcherFor watchers (Pods demo_versions) = Inr w \<and> serves demo_factory observer' (Pods demo_versions) w) \<and>
    map (\<lambda>r. (Some (rg_informer r), rg_handler r)) (add_handlers demo_api watchers order []) =
      map (\<lambda>g. (fa_informer demo_factory (ob_Factory observer') (gvrk_resource g), wrapHandler demo_api g)) order"
proof -
  obtain observer' watchers byKind where run: "watch_all demo_factory (resources_for_version demo_versions 17)
      (NewObserver demo_factory () NewParentsStore 0 0, fmempty, fmempty) = (observer', watchers, byKind)" by (metis prod_cases3)
  obtain order where order: "range_order watchers order"
    using finite_distinct_list [of "fmdom' watchers"] by (auto simp: range_order_def)
  have "Pods demo_versions \<in> set (resources_for_version demo_versions 17)"
    by (simp add: resources_for_version_def watchedResources_def)
  then show ?thesis using Start_watches_and_handles [OF demo_factory_laws run order, of demo_api] run order by blast
qed

text \<open>A wait for the caches reports success only after its goroutine ended. The goroutine of
  \<open>WatchAndWaitForSync\<close> can always deliver and end, since its channel has room for the value; the one of
  \<open>WaitForCacheSync\<close> never ends once the wait has timed out, however the caches proceed.\<close>

theorem timed_out_wait_leaks:
  "(sync_reach cap s \<and> sy_caller s = ReceivedDone \<longrightarrow> sy_helper s = HelperEnded) \<and>
   (sync_reach WatchAndWaitForSync_capacity s \<and> sy_helper s = SendsDone \<longrightarrow>
      (\<exists>s'. sync_step WatchAndWaitForSync_capacity s s' \<and> sy_helper s' = HelperEnded)) \<and>
   (sync_reach WaitForCacheSync_capacity s \<and> sy_caller s = TimedOut \<longrightarrow> sy_helper s \<noteq> HelperEnded \<and>
      (sy_helper s = SendsDone \<longrightarrow> (\<nexists>s'. sync_step WaitForCacheSync_capacity s s')))"
proof (intro conjI impI)
  assume "sync_reach WatchAndWaitForSync_capacity s \<and> sy_helper s = SendsDone"
  then have "sy_buffered s < WatchAndWaitForSync_capacity" "sy_helper s = SendsDone"
    using sync_reach_inv [of WatchAndWaitForSync_capacity s] by (auto simp: sync_inv_def WatchAndWaitForSync_capacity_def)
  from send_buffered [OF this(2,1)] show "\<exists>s'. sync_step WatchAndWaitForSync_capacity s s' \<and> sy_helper s' = HelperEnded"
    by force
qed (use sync_reach_inv [of cap s] sync_reach_inv [of WaitForCacheSync_capacity s] in
    \<open>auto simp: sync_inv_def WaitForCacheSync_capacity_def elim!: sync_stepE\<close>)

theorem timed_out_wait_leaks_witness:
  "\<exists>s. sync_reach WaitForCacheSync_capacity s \<and> sy_caller s = TimedOut \<and> sy_helper s = SendsDone \<and>
    (\<nexists>s'. sync_step WaitForCacheSync_capacity s s')"
proof -
  let ?s1 = "sync_init\<lparr>sy_caller := TimedOut\<rparr>"
  let ?s = "?s1\<lparr>sy_helper := SendsDone, sy_synced := True\<rparr>"
  have "sync_reach WaitForCacheSync_capacity ?s1"
    by (rule sync_reach.step [OF sync_reach.start wait_timeout]) (simp add: sync_init_def)
  then have s: "sync_reach WaitForCacheSync_capacity ?s"
    by (rule sync_reach.step) (rule caches_synced, simp add: sync_init_def)
  then show ?thesis using timed_out_wait_leaks [of WaitForCacheSync_capacity ?s] by (intro exI [of _ ?s]) simp
qed

end
