(* ===== verification/Main_Program.thy ===== *)
theory Main_Program
  imports Startup Wiring Kuber_Informers
begin

text \<open>
  \<open>main\<close> of \<open>main.go\<close> from the command line to the start of the agent, and the rest of \<open>kuber/kube.go\<close>.

  Everything \<open>main\<close> learns from outside is in the record \<open>main_env\<close>: the parsed command line, the environment,
  the libraries for UUIDs, base64, durations and addresses, and the answers of the Kubernetes API, each with
  its error. \<open>logger.Fatal\<close> and \<open>os.Exit\<close> end the process: \<open>Exit 1\<close>; a panic is \<open>Panic\<close>. \<open>main_setup\<close> ends where
  the probe is set to ready and hands its state to \<open>Agent.Start\<close>, whose outcome is an argument.
\<close>

subsection \<open>The Kubernetes client\<close>

record ('cs, 'apps, 'batch, 'core) client_api =
  ca_Clientset :: "rest_config \<Rightarrow> string + 'cs"
  ca_Apps :: "rest_config \<Rightarrow> string + 'apps"
  ca_Batch :: "rest_config \<Rightarrow> string + 'batch"
  ca_CoreV1 :: "'cs \<Rightarrow> 'core"
  ca_AppsV1 :: "'cs \<Rightarrow> 'apps"

record ('cs, 'apps, 'batch, 'core) Kube =
  kb_Clientset :: 'cs
  kb_ClientV1 :: 'apps
  kb_ClientBatch :: "'batch option"
  kb_core :: 'core
  kb_apps :: 'apps
  kb_batch :: 'batch
  kb_config :: rest_config

definition InitKubernetes :: "('cs, 'apps, 'batch, 'core) client_api \<Rightarrow> rest_config \<Rightarrow> string + ('cs, 'apps, 'batch, 'core) Kube" where
  "InitKubernetes api config =
     (case ca_Clientset api config of
        Inl err \<Rightarrow> Inl (''unable to create Clientset, error: '' @ err)
      | Inr clientset \<Rightarrow>
          (case ca_Apps api config of
             Inl err \<Rightarrow> Inl (''unable to create ClientV1 error: '' @ err)
           | Inr clientV1 \<Rightarrow>
               (case ca_Batch api config of
                  Inl err \<Rightarrow> Inl (''unable to create batch clientV1Beta1, error : '' @ err)
                | Inr clientV1Beta1 \<Rightarrow>
                    Inr \<lparr>kb_Clientset = clientset, kb_ClientV1 = clientV1, kb_ClientBatch = None, kb_core = ca_CoreV1 api clientset,
                      kb_apps = ca_AppsV1 api clientset, kb_batch = clientV1Beta1, kb_config = config\<rparr>)))"

text \<open>The answers of discovery and of the rules review; the error of encoding the rules is dropped.\<close>

definition GetServerVersion :: "('info \<Rightarrow> string) \<Rightarrow> string + 'info \<Rightarrow> string + string" where
  "GetServerVersion String version = (case version of Inl err \<Rightarrow> Inl err | Inr info \<Rightarrow> Inr (String info))"

definition GetAgentPermissions :: "('rules \<Rightarrow> string + string) \<Rightarrow> string + 'rules \<Rightarrow> string + string" where
  "GetAgentPermissions marshal subjectRules =
     (case subjectRules of
        Inl err \<Rightarrow> Inl (''unable to get agent permissions, error: '' @ err)
      | Inr status \<Rightarrow> Inr (case marshal status of Inl err \<Rightarrow> [] | Inr rules \<Rightarrow> rules))"

subsection \<open>The environment of the program\<close>

record ('cs, 'apps, 'batch, 'core, 'info, 'rules, 'dyn, 'f, 'i) main_env =
  mn_ParseArgs :: "string + args"
  mn_rest :: rest_env
  mn_UUID :: "string \<Rightarrow> string option"
  mn_base64 :: "string \<Rightarrow> string + bytes"
  mn_startID :: string
  mn_version :: string
  mn_clients :: "('cs, 'apps, 'batch, 'core) client_api"
  mn_ServerVersion :: "string + 'info"
  mn_versionString :: "'info \<Rightarrow> string"
  mn_MinorVersion :: "string + string"
  mn_Rules :: "string + 'rules"
  mn_marshalRules :: "'rules \<Rightarrow> string + string"
  mn_Nodes :: "string + string list"
  mn_parseURL :: "string \<Rightarrow> string option"
  mn_dynamic :: "rest_config \<Rightarrow> string + 'dyn"
  mn_factory :: "('dyn option, 'f, 'i) factory_api"
  mn_cacheSync :: "string option"
  mn_scheme :: scheme_versions

record ('f, 'obj) main_state =
  ms_probes :: ProbesServer
  ms_gateway :: "'obj MagalixGateway"
  ms_logger :: "string global_logger"
  ms_observer :: "'f Observer"
  ms_resources :: "GroupVersionResourceKind list"

subsection \<open>main\<close>

fun process_bind :: "'a process \<Rightarrow> ('a \<Rightarrow> 'b process) \<Rightarrow> 'b process" where
  "process_bind (Value x) f = f x"
| "process_bind (Exit n) f = Exit n"
| "process_bind Panic f = Panic"

definition assertion :: "'a option \<Rightarrow> 'a process" where
  "assertion x = (case x of None \<Rightarrow> Panic | Some v \<Rightarrow> Value v)"

definition or_exit :: "'e + 'a \<Rightarrow> 'a process" where
  "or_exit x = (case x of Inl err \<Rightarrow> Exit 1 | Inr v \<Rightarrow> Value v)"

definition or_empty :: "'e + string \<Rightarrow> string" where
  "or_empty x = (case x of Inl err \<Rightarrow> [] | Inr s \<Rightarrow> s)"

text \<open>The flags for the session with the server, in the order they are read.\<close>

definition main_timeouts :: "rest_env \<Rightarrow> args \<Rightarrow> timeouts process" where
  "main_timeouts env args =
     (let duration = MustParseDuration (re_ParseDuration env) args in
      process_bind (duration ''--timeout-proto-handshake'') (\<lambda>protoHandshakeTime.
      process_bind (duration ''--timeout-proto-write'') (\<lambda>protoWriteTime.
      process_bind (duration ''--timeout-proto-read'') (\<lambda>protoReadTime.
      process_bind (duration ''--timeout-proto-reconnect'') (\<lambda>protoReconnectTime.
      process_bind (duration ''--timeout-proto-backoff'') (\<lambda>protoBackoffTime.
        Value \<lparr>to_protoHandshake = protoHandshakeTime, to_protoWrite = protoWriteTime, to_protoRead = protoReadTime,
          to_protoReconnect = protoReconnectTime, to_protoBackoff = protoBackoffTime\<rparr>))))))"

text \<open>An error of discovery or of the list of nodes leaves the empty string; the error of the rules review is
  sent as the permissions.\<close>

definition main_gateway :: "('cs, 'apps, 'batch, 'core, 'info, 'rules, 'dyn, 'f, 'i) main_env \<Rightarrow> args \<Rightarrow> string \<Rightarrow> string \<Rightarrow> bytes \<Rightarrow>
    'obj MagalixGateway process" where
  "main_gateway env args accountID clusterID secret =
     (let k8sServerVersion = or_empty (GetServerVersion (mn_versionString env) (mn_ServerVersion env));
          agentPermissions = (case GetAgentPermissions (mn_marshalRules env) (mn_Rules env) of Inl err \<Rightarrow> err | Inr rules \<Rightarrow> rules)
      in process_bind (assertion (GetClusterProvider (mn_Nodes env))) (\<lambda>provider.
         process_bind (assertion (string_value args ''--gateway'')) (\<lambda>gatewayUrl.
         process_bind (main_timeouts (mn_rest env) args) (\<lambda>t.
         process_bind (assertion (bool_value args ''--no-send-logs'')) (\<lambda>noSendLogs.
           assertion (gateway_New (mn_parseURL env) gatewayUrl accountID clusterID secret (mn_version env) (mn_startID env)
             k8sServerVersion agentPermissions (or_empty provider) (to_protoHandshake t) (to_protoWrite t) (to_protoRead t)
             (to_protoReconnect t) (to_protoBackoff t) (\<not> noSendLogs)))))))"

text \<open>The configuration that \<open>InitKubernetes\<close> got serves the dynamic client too, whose error is overwritten
  before anything tests it: the observer then has a nil client.\<close>

definition main_dynamic :: "('cs, 'apps, 'batch, 'core, 'info, 'rules, 'dyn, 'f, 'i) main_env \<Rightarrow> rest_config \<Rightarrow> 'dyn option" where
  "main_dynamic env config = (case mn_dynamic env config of Inl err \<Rightarrow> None | Inr client \<Rightarrow> Some client)"

definition main_logger :: "string \<Rightarrow> string \<Rightarrow> string \<Rightarrow> string global_logger \<Rightarrow> string global_logger process" where
  "main_logger accountID clusterID logLevel lg =
     (case ConfigureGlobalLogger accountID clusterID logLevel lg of (lg', err) \<Rightarrow> if err \<noteq> None then Exit 1 else Value lg')"

definition main_setup :: "('cs, 'apps, 'batch, 'core, 'info, 'rules, 'dyn, 'f, 'i) main_env \<Rightarrow> string global_logger \<Rightarrow>
    ('f, 'obj) main_state process" where
  "main_setup env lg =
     (case mn_ParseArgs env of Inl err \<Rightarrow> Panic | Inr args \<Rightarrow>
      (let getenv = re_getenv (mn_rest env) in
       process_bind (assertion (string_value args ''--port'')) (\<lambda>port.
       process_bind (ExpandEnvUUID (mn_UUID env) getenv args ''--account-id'') (\<lambda>accountID.
       process_bind (ExpandEnvUUID (mn_UUID env) getenv args ''--cluster-id'') (\<lambda>clusterID.
       process_bind (ExpandEnv getenv args ''--client-secret'' False) (\<lambda>encoded.
       process_bind (or_exit (mn_base64 env encoded)) (\<lambda>secret.
       process_bind (main_kube (mn_rest env) (InitKubernetes (mn_clients env)) args) (\<lambda>kube.
       process_bind (main_gateway env args accountID clusterID secret) (\<lambda>mgxGateway.
       process_bind (assertion (string_value args ''--log-level'')) (\<lambda>logLevel.
       process_bind (main_logger accountID clusterID logLevel lg) (\<lambda>lg'.
         let observer = NewObserver (mn_factory env) (main_dynamic env (kb_config kube)) NewParentsStore 0 (5 * minute) in
         if mn_cacheSync env \<noteq> None then Exit 1
         else
           process_bind (assertion (watched_for (mn_scheme env) (mn_MinorVersion env))) (\<lambda>resources.
             Value \<lparr>ms_probes = (NewProbesServer ('':'' @ port))\<lparr>pb_IsReady := True\<rparr>, ms_gateway = mgxGateway, ms_logger = lg',
               ms_observer = observer, ms_resources = resources\<rparr>))))))))))))"

text \<open>\<open>agentStart\<close> is \<open>mgxAgent.Start()\<close>.\<close>

definition main_program :: "('cs, 'apps, 'batch, 'core, 'info, 'rules, 'dyn, 'f, 'i) main_env \<Rightarrow>
    (('f, 'obj) main_state \<Rightarrow> string option) \<Rightarrow> string global_logger \<Rightarrow> unit process" where
  "main_program env agentStart lg =
     process_bind (main_setup env lg) (\<lambda>s. case agentStart s of None \<Rightarrow> Value () | Some err \<Rightarrow> Exit 1)"

subsection \<open>Lemmas\<close>

lemma process_bind_Value: "process_bind p f = Value y \<longleftrightarrow> (\<exists>x. p = Value x \<and> f x = Value y)"
  by (cases p) auto

lemma assertion_Value [simp]: "assertion x = Value v \<longleftrightarrow> x = Some v"
  by (cases x) (auto simp: assertion_def)

lemma or_exit_Value [simp]: "or_exit x = Value v \<longleftrightarrow> x = Inr v"
  by (cases x) (auto simp: or_exit_def)

lemma ExpandEnvUUID_outcomes: "ExpandEnvUUID parse getenv args flag = Exit 1 \<or> (\<exists>u. ExpandEnvUUID parse getenv args flag = Value u)"
  by (auto simp: ExpandEnvUUID_def Let_def split: option.splits list.splits)

lemma ExpandEnv_outcomes: "ExpandEnv getenv args flag b = Exit 1 \<or> (\<exists>u. ExpandEnv getenv args flag b = Value u)"
  by (auto simp: ExpandEnv_def Let_def split: option.splits list.splits)

lemma main_gateway_wires:
  assumes "main_gateway env args accountID clusterID secret = Value g"
  shows "cl_AccountID (mg_gwClient g) = accountID" "cl_ClusterID (mg_gwClient g) = clusterID" "cl_secret (mg_gwClient g) = secret"
    and "main_timeouts (mn_rest env) args = Value (wc_timeouts (mg_gwClient g))"
    and "bool_value args ''--no-send-logs'' = Some (\<not> wc_shouldSendLogs (mg_gwClient g))"
    and "\<not> cl_authorized (mg_gwClient g)" "wc_logBuffer (mg_gwClient g) = []"
    and "\<exists>url. string_value args ''--gateway'' = Some url \<and> mn_parseURL env url = Some (wc_address (mg_gwClient g))"
  using assms
  by (auto simp: main_gateway_def process_bind_Value Let_def gateway_New_def InitClient_def newClient_def split: Option.bind_splits)

text \<open>\<open>InitKubernetes\<close> never sets the exported field \<open>ClientBatch\<close>.\<close>

lemma InitKubernetes_no_batch: "InitKubernetes api config = Inr kube \<Longrightarrow> kb_ClientBatch kube = None \<and> kb_config kube = config"
  by (auto simp: InitKubernetes_def split: sum.splits)

text \<open>A cluster that reports no node stops the agent before it has a gateway.\<close>

lemma no_nodes_panics: "mn_Nodes env = Inr [] \<Longrightarrow> main_gateway env args accountID clusterID secret = Panic"
  by (simp add: main_gateway_def GetClusterProvider_panics assertion_def)

lemma ConfigureGlobalLogger_None:
  assumes "ConfigureGlobalLogger acc cl level lg = (lg', None)"
  shows "level \<in> {''info'', ''debug'', ''warn'', ''error''}" "lg_accountID lg' = Some acc" "lg_clusterID lg' = Some cl"
  using assms by (simp_all add: ConfigureGlobalLogger_def Let_def split: if_split_asm) auto

lemma main_logger_Value: "main_logger acc cl level lg = Value lg' \<longleftrightarrow> ConfigureGlobalLogger acc cl level lg = (lg', None)"
  by (auto simp: main_logger_def split: prod.splits)

lemma main_setup_Value:
  assumes "main_setup env lg = Value s"
  obtains args port acc cl enc sec kube level where
    "mn_ParseArgs env = Inr args" "string_value args ''--port'' = Some port"
    "ExpandEnvUUID (mn_UUID env) (re_getenv (mn_rest env)) args ''--account-id'' = Value acc"
    "ExpandEnvUUID (mn_UUID env) (re_getenv (mn_rest env)) args ''--cluster-id'' = Value cl"
    "ExpandEnv (re_getenv (mn_rest env)) args ''--client-secret'' False = Value enc" "mn_base64 env enc = Inr sec"
    "main_kube (mn_rest env) (InitKubernetes (mn_clients env)) args = Value kube"
    "main_gateway env args acc cl sec = Value (ms_gateway s)" "string_value args ''--log-level'' = Some level"
    "ConfigureGlobalLogger acc cl level lg = (ms_logger s, None)" "mn_cacheSync env = None"
    "watched_for (mn_scheme env) (mn_MinorVersion env) = Some (ms_resources s)" "pb_IsReady (ms_probes s)"
  using assms
  by (auto simp: main_setup_def process_bind_Value Let_def NewProbesServer_def main_logger_Value split: sum.splits if_splits)

lemma main_timeouts_Value:
  assumes "main_timeouts env args = Value t"
  shows "MustParseDuration (re_ParseDuration env) args ''--timeout-proto-handshake'' = Value (to_protoHandshake t)"
    and "MustParseDuration (re_ParseDuration env) args ''--timeout-proto-write'' = Value (to_protoWrite t)"
    and "MustParseDuration (re_ParseDuration env) args ''--timeout-proto-read'' = Value (to_protoRead t)"
    and "MustParseDuration (re_ParseDuration env) args ''--timeout-proto-reconnect'' = Value (to_protoReconnect t)"
    and "MustParseDuration (re_ParseDuration env) args ''--timeout-proto-backoff'' = Value (to_protoBackoff t)"
  using assms by (auto simp: main_timeouts_def process_bind_Value Let_def)

text \<open>What the state that \<open>main\<close> hands to the agent has to do with the command line and the environment.\<close>

definition main_configured :: "('cs, 'apps, 'batch, 'core, 'info, 'rules, 'dyn, 'f, 'i) main_env \<Rightarrow> args \<Rightarrow> ('f, 'obj) main_state \<Rightarrow> bool" where
  "main_configured env args s \<longleftrightarrow>
     (let client = mg_gwClient (ms_gateway s); uuid = ExpandEnvUUID (mn_UUID env) (re_getenv (mn_rest env)) args;
          duration = MustParseDuration (re_ParseDuration (mn_rest env)) args; t = wc_timeouts client in
      uuid ''--account-id'' = Value (cl_AccountID client) \<and> uuid ''--cluster-id'' = Value (cl_ClusterID client) \<and>
      (\<exists>enc. ExpandEnv (re_getenv (mn_rest env)) args ''--client-secret'' False = Value enc \<and> mn_base64 env enc = Inr (cl_secret client)) \<and>
      duration ''--timeout-proto-handshake'' = Value (to_protoHandshake t) \<and> duration ''--timeout-proto-write'' = Value (to_protoWrite t) \<and>
      duration ''--timeout-proto-read'' = Value (to_protoRead t) \<and> duration ''--timeout-proto-reconnect'' = Value (to_protoReconnect t) \<and>
      duration ''--timeout-proto-backoff'' = Value (to_protoBackoff t) \<and>
      (\<exists>url. string_value args ''--gateway'' = Some url \<and> mn_parseURL env url = Some (wc_address client)) \<and>
      bool_value args ''--no-send-logs'' = Some (\<not> wc_shouldSendLogs client) \<and> \<not> cl_authorized client \<and>
      (\<exists>level. string_value args ''--log-level'' = Some level \<and> level \<in> {''info'', ''debug'', ''warn'', ''error''}) \<and>
      watched_for (mn_scheme env) (mn_MinorVersion env) = Some (ms_resources s) \<and> readinessProbeHandler (ms_probes s) = 200)"

definition bad_credentials :: "('cs, 'apps, 'batch, 'core, 'info, 'rules, 'dyn, 'f, 'i) main_env \<Rightarrow> args \<Rightarrow> bool" where
  "bad_credentials env args \<longleftrightarrow>
     (let uuid = ExpandEnvUUID (mn_UUID env) (re_getenv (mn_rest env)) args;
          secret = ExpandEnv (re_getenv (mn_rest env)) args ''--client-secret'' False in
      uuid ''--account-id'' = Exit 1 \<or> uuid ''--cluster-id'' = Exit 1 \<or> secret = Exit 1 \<or>
      (\<exists>enc err. secret = Value enc \<and> mn_base64 env enc = Inl err))"

lemma main_setup_configured:
  assumes "main_setup env lg = Value s"
  shows "\<exists>args. mn_ParseArgs env = Inr args \<and> main_configured env args s"
  using assms
proof (rule main_setup_Value)
  fix args port acc cl enc sec kube level
  assume g: "main_gateway env args acc cl sec = Value (ms_gateway s)"
    and l: "ConfigureGlobalLogger acc cl level lg = (ms_logger s, None)"
    and rest: "mn_ParseArgs env = Inr args" "ExpandEnvUUID (mn_UUID env) (re_getenv (mn_rest env)) args ''--account-id'' = Value acc"
      "ExpandEnvUUID (mn_UUID env) (re_getenv (mn_rest env)) args ''--cluster-id'' = Value cl"
      "ExpandEnv (re_getenv (mn_rest env)) args ''--client-secret'' False = Value enc" "mn_base64 env enc = Inr sec"
      "string_value args ''--log-level'' = Some level"
      "watched_for (mn_scheme env) (mn_MinorVersion env) = Some (ms_resources s)" "pb_IsReady (ms_probes s)"
  show ?thesis
    using rest main_gateway_wires [OF g] main_timeouts_Value [OF main_gateway_wires(4) [OF g]] ConfigureGlobalLogger_None(1) [OF l]
    unfolding main_configured_def Let_def readinessProbeHandler_def by (intro exI [of _ args]) simp
qed

lemma main_setup_rejects:
  assumes "mn_ParseArgs env = Inr args" "string_value args ''--port'' = Some port" "bad_credentials env args"
  shows "main_setup env lg = Exit 1"
  using assms ExpandEnvUUID_outcomes [of "mn_UUID env" "re_getenv (mn_rest env)" args "''--account-id''"]
    ExpandEnvUUID_outcomes [of "mn_UUID env" "re_getenv (mn_rest env)" args "''--cluster-id''"]
    ExpandEnv_outcomes [of "re_getenv (mn_rest env)" args "''--client-secret''" False]
  by (auto simp: main_setup_def bad_credentials_def Let_def assertion_def or_exit_def)

subsection \<open>Properties\<close>

text \<open>C23: When \<open>main\<close> gets as far as starting the agent, the client of the gateway holds exactly what the
  command line and the environment give: account, cluster, the decoded secret, the five timeouts, the address
  and whether to send logs; it is not yet authorized; the log level is a known one and the probe answers ready.
  If an id is missing or malformed or the secret is missing or not base64, the process exits with code 1
  whatever the cluster would answer.\<close>

theorem main_starts_configured:
  assumes "mn_ParseArgs env = Inr args" and "string_value args ''--port'' = Some port"
  shows "(main_setup env lg = Value s \<longrightarrow> main_configured env args s) \<and>
    (bad_credentials env args \<longrightarrow> main_program env agentStart lg = Exit 1)"
  using assms main_setup_configured [of env lg s] by (auto simp: main_program_def main_setup_rejects [OF assms])

definition demo_args :: args where
  "demo_args = (\<lambda>flag. if flag \<in> {''--no-send-logs'', ''--kube-incluster'', ''--kube-insecure''} then Some (BoolArg False)
     else if flag = ''--log-level'' then Some (StringArg ''info'') else if flag = ''--client-secret'' then Some (StringArg ''$SECRET'')
     else Some (StringArg ''x''))"

definition demo_main :: "(unit, unit, unit, unit, unit, unit, unit, GroupVersionResource list \<times> nat, nat) main_env" where
  "demo_main = \<lparr>mn_ParseArgs = Inr demo_args,
     mn_rest = \<lparr>re_InClusterConfig = Inl [], re_getenv = (\<lambda>_. ''abc''), re_loads_cert = (\<lambda>_. False), re_ContentTypeJSON = [],
       re_ParseDuration = (\<lambda>_. Some 7)\<rparr>,
     mn_UUID = Some, mn_base64 = (\<lambda>s. if s = ''abc'' then Inr [1] else Inl []), mn_startID = [], mn_version = [],
     mn_clients = \<lparr>ca_Clientset = (\<lambda>_. Inr ()), ca_Apps = (\<lambda>_. Inr ()), ca_Batch = (\<lambda>_. Inr ()), ca_CoreV1 = id, ca_AppsV1 = id\<rparr>,
     mn_ServerVersion = Inr (), mn_versionString = (\<lambda>_. ''v1''), mn_MinorVersion = Inr ''17'', mn_Rules = Inr (), mn_marshalRules = (\<lambda>_. Inr []),
     mn_Nodes = Inr [''aws:1''], mn_parseURL = Some, mn_dynamic = (\<lambda>_. Inr ()),
     mn_factory = \<lparr>fa_New = (\<lambda>_ _. ([], 0)), fa_ForResource = fa_ForResource demo_factory, fa_Start = fa_Start demo_factory,
       fa_informer = fa_informer demo_factory, fa_running = fa_running demo_factory\<rparr>,
     mn_cacheSync = None, mn_scheme = demo_versions\<rparr>"

theorem main_starts_configured_witness:
  "\<exists>s :: (GroupVersionResource list \<times> nat, unit) main_state. main_setup demo_main \<lparr>lg_level = InfoLevel, lg_accountID = None, lg_clusterID = None\<rparr> = Value s \<and>
    main_configured demo_main demo_args s"
proof -
  have "\<exists>s :: (GroupVersionResource list \<times> nat, unit) main_state. main_setup demo_main \<lparr>lg_level = InfoLevel, lg_accountID = None, lg_clusterID = None\<rparr> = Value s"
    by (simp add: demo_main_def demo_args_def main_setup_def assertion_def or_exit_def ExpandEnvUUID_def ExpandEnv_def string_value_def
        bool_value_def main_kube_def getKRestConfig_def user_config_def MustParseDuration_def InitKubernetes_def main_gateway_def
        GetClusterProvider_def main_timeouts_def gateway_New_def InitClient_def newClient_def main_logger_def ConfigureGlobalLogger_def
        watched_for_def GetServerMinorVersion_def Atoi_def digit_def Let_def)
  then obtain s :: "(GroupVersionResource list \<times> nat, unit) main_state" where
    s: "main_setup demo_main \<lparr>lg_level = InfoLevel, lg_accountID = None, lg_clusterID = None\<rparr> = Value s" by blast
  have "mn_ParseArgs demo_main = Inr demo_args" "string_value demo_args ''--port'' = Some ''x''"
    by (simp_all add: demo_main_def demo_args_def string_value_def)
  from main_starts_configured [OF this, of _ s] s show ?thesis by blast
qed

end
