(* ===== verification/Server_Commands.thy ===== *)
theory Server_Commands
  imports Agent_Flow Startup
begin

text \<open>
  What the server can ask of the agent: the setters of \<open>gateway/governance.go\<close>, \<open>gateway/restart.go\<close> and
  \<open>gateway/log-level.go\<close>, which store a handler and register a listener for a kind of packet,
  \<open>Client.AddListener\<close>, and the handlers that \<open>Agent.Start\<close> installs.

  The channel library is a parameter: \<open>add\<close> registers a listener and may fail, \<open>lookup\<close> finds one. A
  listener reads the handler from the gateway when it runs, so it is a name (\<open>listener\<close>), and \<open>run_listener\<close>
  takes the gateway. The state \<open>'s\<close> is what the handlers act on.
\<close>

subsection \<open>Kinds of packets\<close>

definition PacketKindRestart :: PacketKind where "PacketKindRestart = ''restart''"
definition PacketKindLogLevel :: PacketKind where "PacketKindLogLevel = ''loglevel''"
definition PacketKindConstraintsRequest :: PacketKind where "PacketKindConstraintsRequest = ''audit/constraints''"
definition PacketKindAuditCommand :: PacketKind where "PacketKindAuditCommand = ''audit/audit_command''"

lemmas packet_kinds = PacketKindRestart_def PacketKindLogLevel_def PacketKindConstraintsRequest_def PacketKindAuditCommand_def

record PacketRestart =
  rs_Status :: int

record PacketLogLevel =
  ll_Level :: string

record 'par PacketConstraintsRequest =
  cr_Timestamp :: go_time
  cr_Constraints :: "'par PacketConstraintItem list"

subsection \<open>Setters\<close>

datatype listener = ConstraintsListener | AuditCommandListener | RestartListener | LogLevelListener

text \<open>A handler returns the new state and its error; \<open>None\<close> is a panic inside it.\<close>

type_synonym 's go_handler = "'s \<Rightarrow> ('s \<times> string option) option"

record ('par, 's, 'reg) gateway_handlers =
  gh_addConstraints :: "('par AgentConstraint list \<Rightarrow> 's \<Rightarrow> ('s \<times> (string, string) fmap) option) option"
  gh_handleAuditCommand :: "'s go_handler option"
  gh_triggerRestart :: "'s go_handler option"
  gh_changeLogLevel :: "(string \<Rightarrow> 's go_handler) option"
  gh_listeners :: 'reg

definition client_AddListener :: "(string \<Rightarrow> listener \<Rightarrow> 'reg \<Rightarrow> string + 'reg) \<Rightarrow> PacketKind \<Rightarrow> listener \<Rightarrow> 'reg \<Rightarrow> 'reg option" where
  "client_AddListener add kind l reg = (case add kind l reg of Inl err \<Rightarrow> None | Inr reg' \<Rightarrow> Some reg')"

definition SetConstraintsHandler where
  "SetConstraintsHandler add handler g =
     (case handler of
        None \<Rightarrow> None
      | Some h \<Rightarrow> do {
          reg \<leftarrow> client_AddListener add PacketKindConstraintsRequest ConstraintsListener (gh_listeners g);
          Some (g\<lparr>gh_addConstraints := Some h, gh_listeners := reg\<rparr>) })"

definition SetAuditCommandHandler where
  "SetAuditCommandHandler add handler g =
     (case handler of
        None \<Rightarrow> None
      | Some h \<Rightarrow> do {
          reg \<leftarrow> client_AddListener add PacketKindAuditCommand AuditCommandListener (gh_listeners g);
          Some (g\<lparr>gh_handleAuditCommand := Some h, gh_listeners := reg\<rparr>) })"

definition SetRestartHandler where
  "SetRestartHandler add handler g =
     (case handler of
        None \<Rightarrow> None
      | Some h \<Rightarrow> do {
          reg \<leftarrow> client_AddListener add PacketKindRestart RestartListener (gh_listeners g);
          Some (g\<lparr>gh_triggerRestart := Some h, gh_listeners := reg\<rparr>) })"

definition SetChangeLogLevelHandler where
  "SetChangeLogLevelHandler add handler g =
     (case handler of
        None \<Rightarrow> None
      | Some h \<Rightarrow> do {
          reg \<leftarrow> client_AddListener add PacketKindLogLevel LogLevelListener (gh_listeners g);
          Some (g\<lparr>gh_changeLogLevel := Some h, gh_listeners := reg\<rparr>) })"

subsection \<open>Running a listener\<close>

text \<open>The decoders at the three packet types, and the outcome of encoding the empty response.\<close>

record ('par, 'bytes) packet_codec =
  pc_Constraints :: "'bytes \<Rightarrow> string + 'par PacketConstraintsRequest"
  pc_Restart :: "'bytes \<Rightarrow> string + PacketRestart"
  pc_LogLevel :: "'bytes \<Rightarrow> string + PacketLogLevel"
  pc_response :: "string + 'bytes"

text \<open>The answer is bytes or nothing, or an error.\<close>

definition no_answer :: "string option \<Rightarrow> string + 'bytes option" where
  "no_answer err = (case err of None \<Rightarrow> Inr None | Some e \<Rightarrow> Inl e)"

fun run_listener :: "('par, 'bytes) packet_codec \<Rightarrow> listener \<Rightarrow> ('par, 's, 'reg) gateway_handlers \<Rightarrow> 'bytes \<Rightarrow> 's \<Rightarrow>
    ('s \<times> (string + 'bytes option)) option" where
  "run_listener codec ConstraintsListener g input st = do {
     h \<leftarrow> gh_addConstraints g;
     (st', r) \<leftarrow> constraints_listener (\<lambda>b. map_sum id cr_Constraints (pc_Constraints codec b)) (pc_response codec) h input st;
     Some (st', map_sum id Some r) }"
| "run_listener codec AuditCommandListener g input st = do {
     h \<leftarrow> gh_handleAuditCommand g;
     (st', err) \<leftarrow> audit_command_listener h input st;
     Some (st', no_answer err) }"
| "run_listener codec RestartListener g input st = do {
     h \<leftarrow> gh_triggerRestart g;
     (st', err) \<leftarrow> restart_listener (\<lambda>b. case pc_Restart codec b of Inl e \<Rightarrow> Some e | Inr _ \<Rightarrow> None) h input st;
     Some (st', no_answer err) }"
| "run_listener codec LogLevelListener g input st = do {
     h \<leftarrow> gh_changeLogLevel g;
     (st', err) \<leftarrow> log_level_listener (\<lambda>b. map_sum id ll_Level (pc_LogLevel codec b)) h input st;
     Some (st', no_answer err) }"

text \<open>The channel calls the listener that is registered for the kind of a packet.\<close>

definition deliver :: "('reg \<Rightarrow> string \<Rightarrow> listener option) \<Rightarrow> ('par, 'bytes) packet_codec \<Rightarrow> ('par, 's, 'reg) gateway_handlers \<Rightarrow>
    PacketKind \<Rightarrow> 'bytes \<Rightarrow> 's \<Rightarrow> ('s \<times> (string + 'bytes option)) option" where
  "deliver lookup codec g kind input st = do {
     l \<leftarrow> lookup (gh_listeners g) kind;
     run_listener codec l g input st }"

subsection \<open>The handlers of the agent\<close>

record ('pol, 'par, 'obj, 'u) agent_world =
  aw_auditor :: "('pol, 'par) OpaAuditor \<times> 'obj AuditEvent list"
  aw_agent :: Agent
  aw_logger :: "'u global_logger"

definition agent_HandleConstraints :: "('pol, 'par, 'obj, 'v) opa_core \<Rightarrow> 'par AgentConstraint list \<Rightarrow>
    ('pol, 'par, 'obj, 'u) agent_world \<Rightarrow> (('pol, 'par, 'obj, 'u) agent_world \<times> (string, string) fmap) option" where
  "agent_HandleConstraints env cs w = do {
     (aud, errs) \<leftarrow> addConstraints env cs (aw_auditor w);
     Some (w\<lparr>aw_auditor := aud\<rparr>, errs) }"

text \<open>The goroutine that sends the event waits in line with the other senders.\<close>

definition HandleAuditCommand :: "('pol, 'par, 'obj, 'u) agent_world go_handler" where
  "HandleAuditCommand w =
     (case aw_auditor w of (a, auditEvents) \<Rightarrow> Some (w\<lparr>aw_auditor := (a, auditEvents @ [triggerAuditCommand])\<rparr>, None))"

definition handleRestart :: "('pol, 'par, 'obj, 'u) agent_world go_handler" where
  "handleRestart w = Some (w\<lparr>aw_agent := (aw_agent w)\<lparr>ag_restarts := ag_restarts (aw_agent w) @ [TestSources]\<rparr>\<rparr>, None)"

definition handleLogLevelChange :: "'u \<Rightarrow> 'u \<Rightarrow> string \<Rightarrow> ('pol, 'par, 'obj, 'u) agent_world go_handler" where
  "handleLogLevelChange accountID clusterID level w =
     (case ConfigureGlobalLogger accountID clusterID level (aw_logger w) of (lg, err) \<Rightarrow> Some (w\<lparr>aw_logger := lg\<rparr>, err))"

text \<open>The calls of \<open>Agent.Start\<close>, in order.\<close>

definition install_handlers where
  "install_handlers add env accountID clusterID g = do {
     g1 \<leftarrow> SetAuditCommandHandler add (Some HandleAuditCommand) g;
     g2 \<leftarrow> SetConstraintsHandler add (Some (agent_HandleConstraints env)) g1;
     g3 \<leftarrow> SetRestartHandler add (Some handleRestart) g2;
     SetChangeLogLevelHandler add (Some (handleLogLevelChange accountID clusterID)) g3 }"

subsection \<open>Lemmas\<close>

text \<open>The documented behaviour of the channel: a kind without a listener can get one, and keeps it.\<close>

definition registry_laws :: "(string \<Rightarrow> listener \<Rightarrow> 'reg \<Rightarrow> string + 'reg) \<Rightarrow> ('reg \<Rightarrow> string \<Rightarrow> listener option) \<Rightarrow> bool" where
  "registry_laws add lookup \<longleftrightarrow> (\<forall>kind l reg. lookup reg kind = None \<longrightarrow>
     (\<exists>reg'. add kind l reg = Inr reg' \<and> (\<forall>k. lookup reg' k = (if k = kind then Some l else lookup reg k))))"

lemma client_AddListener_new:
  assumes "registry_laws add lookup" "lookup reg kind = None"
  obtains reg' where "client_AddListener add kind l reg = Some reg'" "\<And>k. lookup reg' k = (if k = kind then Some l else lookup reg k)"
proof -
  from assms obtain reg' where "add kind l reg = Inr reg'" "\<forall>k. lookup reg' k = (if k = kind then Some l else lookup reg k)"
    unfolding registry_laws_def by blast
  then show thesis by (intro that [of reg']) (simp_all add: client_AddListener_def)
qed

text \<open>A nil handler panics, and so does a listener that the channel refuses.\<close>

lemma setters_panic:
  "SetConstraintsHandler add None g = None" "SetAuditCommandHandler add None g = None"
  "SetRestartHandler add None g = None" "SetChangeLogLevelHandler add None g = None"
  by (simp_all add: SetConstraintsHandler_def SetAuditCommandHandler_def SetRestartHandler_def SetChangeLogLevelHandler_def)

lemma refused_listener_panics: "add PacketKindRestart RestartListener (gh_listeners g) = Inl err \<Longrightarrow> SetRestartHandler add h g = None"
  by (cases h) (simp_all add: SetRestartHandler_def client_AddListener_def)

lemma install_handlers_ok:
  assumes laws: "registry_laws add lookup"
    and free: "\<forall>k \<in> {PacketKindAuditCommand, PacketKindConstraintsRequest, PacketKindRestart, PacketKindLogLevel}. lookup (gh_listeners g) k = None"
  shows "\<exists>reg. install_handlers add env accountID clusterID g =
      Some (g\<lparr>gh_addConstraints := Some (agent_HandleConstraints env), gh_handleAuditCommand := Some HandleAuditCommand,
        gh_triggerRestart := Some handleRestart, gh_changeLogLevel := Some (handleLogLevelChange accountID clusterID), gh_listeners := reg\<rparr>) \<and>
    lookup reg PacketKindAuditCommand = Some AuditCommandListener \<and> lookup reg PacketKindConstraintsRequest = Some ConstraintsListener \<and>
    lookup reg PacketKindRestart = Some RestartListener \<and> lookup reg PacketKindLogLevel = Some LogLevelListener"
proof -
  note new = client_AddListener_new [OF laws]
  obtain r1 where r1: "client_AddListener add PacketKindAuditCommand AuditCommandListener (gh_listeners g) = Some r1"
    "\<And>k. lookup r1 k = (if k = PacketKindAuditCommand then Some AuditCommandListener else lookup (gh_listeners g) k)"
    using new free by blast
  have "lookup r1 PacketKindConstraintsRequest = None" using r1(2) free by (simp add: packet_kinds)
  then obtain r2 where r2: "client_AddListener add PacketKindConstraintsRequest ConstraintsListener r1 = Some r2"
    "\<And>k. lookup r2 k = (if k = PacketKindConstraintsRequest then Some ConstraintsListener else lookup r1 k)" using new by blast
  have "lookup r2 PacketKindRestart = None" using r1(2) r2(2) free by (simp add: packet_kinds)
  then obtain r3 where r3: "client_AddListener add PacketKindRestart RestartListener r2 = Some r3"
    "\<And>k. lookup r3 k = (if k = PacketKindRestart then Some RestartListener else lookup r2 k)" using new by blast
  have "lookup r3 PacketKindLogLevel = None" using r1(2) r2(2) r3(2) free by (simp add: packet_kinds)
  then obtain r4 where r4: "client_AddListener add PacketKindLogLevel LogLevelListener r3 = Some r4"
    "\<And>k. lookup r4 k = (if k = PacketKindLogLevel then Some LogLevelListener else lookup r3 k)" using new by blast
  have found: "lookup r4 PacketKindAuditCommand = Some AuditCommandListener" "lookup r4 PacketKindConstraintsRequest = Some ConstraintsListener"
    "lookup r4 PacketKindRestart = Some RestartListener" "lookup r4 PacketKindLogLevel = Some LogLevelListener"
    using r1(2) r2(2) r3(2) r4(2) by (simp_all add: packet_kinds)
  show ?thesis
    by (rule exI [of _ r4])
      (simp add: found install_handlers_def SetAuditCommandHandler_def SetConstraintsHandler_def SetRestartHandler_def
        SetChangeLogLevelHandler_def r1(1) r2(1) r3(1) r4(1))
qed

subsection \<open>Properties\<close>

text \<open>C22: After \<open>Agent.Start\<close> has installed its handlers, each kind of packet of the server has the effect it is
  meant for: an audit command queues an audit of everything, a restart packet starts one restart, a log level
  packet reconfigures the logger or reports the unsupported level, and a packet with constraints hands all of
  them to the auditor. A packet that cannot be decoded is answered with the error and changes nothing.\<close>

theorem server_packets_reach_handlers:
  assumes "registry_laws add lookup"
    and "\<forall>k \<in> {PacketKindAuditCommand, PacketKindConstraintsRequest, PacketKindRestart, PacketKindLogLevel}. lookup (gh_listeners g) k = None"
  shows "\<exists>g'. install_handlers add env accountID clusterID g = Some g' \<and>
    deliver lookup codec g' PacketKindAuditCommand b w =
      Some (w\<lparr>aw_auditor := (fst (aw_auditor w), snd (aw_auditor w) @ [Command])\<rparr>, Inr None) \<and>
    deliver lookup codec g' PacketKindRestart b w = (case pc_Restart codec b of
      Inl err \<Rightarrow> Some (w, Inl err)
    | Inr _ \<Rightarrow> Some (w\<lparr>aw_agent := (aw_agent w)\<lparr>ag_restarts := ag_restarts (aw_agent w) @ [TestSources]\<rparr>\<rparr>, Inr None)) \<and>
    deliver lookup codec g' PacketKindLogLevel b w = (case pc_LogLevel codec b of
      Inl err \<Rightarrow> Some (w, Inl err)
    | Inr packet \<Rightarrow> (case ConfigureGlobalLogger accountID clusterID (ll_Level packet) (aw_logger w) of
        (lg, err) \<Rightarrow> Some (w\<lparr>aw_logger := lg\<rparr>, no_answer err))) \<and>
    deliver lookup codec g' PacketKindConstraintsRequest b w = (case pc_Constraints codec b of
      Inl err \<Rightarrow> Some (w, Inl err)
    | Inr packet \<Rightarrow> map_option (\<lambda>(aud, errs). (w\<lparr>aw_auditor := aud\<rparr>, map_sum id Some (pc_response codec)))
        (addConstraints env (map constraint_of_packet (cr_Constraints packet)) (aw_auditor w)))"
proof -
  obtain reg where "install_handlers add env accountID clusterID g =
      Some (g\<lparr>gh_addConstraints := Some (agent_HandleConstraints env), gh_handleAuditCommand := Some HandleAuditCommand,
        gh_triggerRestart := Some handleRestart, gh_changeLogLevel := Some (handleLogLevelChange accountID clusterID), gh_listeners := reg\<rparr>)"
    and found: "lookup reg PacketKindAuditCommand = Some AuditCommandListener" "lookup reg PacketKindConstraintsRequest = Some ConstraintsListener"
      "lookup reg PacketKindRestart = Some RestartListener" "lookup reg PacketKindLogLevel = Some LogLevelListener"
    using install_handlers_ok [OF assms] by blast
  then show ?thesis
    by (auto simp: deliver_def audit_command_listener_def restart_listener_def log_level_listener_def constraints_listener_def
        HandleAuditCommand_def handleRestart_def handleLogLevelChange_def agent_HandleConstraints_def triggerAuditCommand_def
        no_answer_def split: sum.splits prod.splits Option.bind_splits)
qed

definition demo_add :: "string \<Rightarrow> listener \<Rightarrow> (string \<rightharpoonup> listener) \<Rightarrow> string + (string \<rightharpoonup> listener)" where
  "demo_add kind l reg = (if reg kind = None then Inr (reg(kind \<mapsto> l)) else Inl ''already registered'')"

definition demo_codec :: "(unit, string) packet_codec" where
  "demo_codec = \<lparr>pc_Constraints = (\<lambda>_. Inl ''bad''), pc_Restart = (\<lambda>_. Inr \<lparr>rs_Status = 0\<rparr>),
     pc_LogLevel = (\<lambda>b. Inr \<lparr>ll_Level = b\<rparr>), pc_response = Inr []\<rparr>"

definition demo_world :: "(string, unit, unit, nat) agent_world" where
  "demo_world = \<lparr>aw_auditor = (opa_New, []), aw_agent = agent_New,
     aw_logger = \<lparr>lg_level = InfoLevel, lg_accountID = None, lg_clusterID = None\<rparr>\<rparr>"

definition demo_handlers :: "(unit, (string, unit, unit, nat) agent_world, string \<rightharpoonup> listener) gateway_handlers" where
  "demo_handlers = \<lparr>gh_addConstraints = None, gh_handleAuditCommand = None, gh_triggerRestart = None, gh_changeLogLevel = None,
     gh_listeners = Map.empty\<rparr>"

theorem server_packets_reach_handlers_witness:
  "\<exists>g'. install_handlers demo_add demo_core 1 2 demo_handlers = Some g' \<and>
    deliver (\<lambda>reg. reg) demo_codec g' PacketKindLogLevel ''debug'' demo_world =
      Some (demo_world\<lparr>aw_logger := \<lparr>lg_level = DebugLevel, lg_accountID = Some 1, lg_clusterID = Some 2\<rparr>\<rparr>, Inr None) \<and>
    deliver (\<lambda>reg. reg) demo_codec g' PacketKindConstraintsRequest [] demo_world = Some (demo_world, Inl ''bad'')"
proof -
  have laws: "registry_laws demo_add (\<lambda>reg. reg)" by (auto simp: registry_laws_def demo_add_def)
  have free: "\<forall>k \<in> {PacketKindAuditCommand, PacketKindConstraintsRequest, PacketKindRestart, PacketKindLogLevel}.
      (\<lambda>reg. reg) (gh_listeners demo_handlers) k = None" by (simp add: demo_handlers_def)
  note effect = server_packets_reach_handlers [where lookup = "\<lambda>reg. reg" and g = demo_handlers, OF laws free, of demo_core 1 2 demo_codec _ demo_world]
  show ?thesis using effect [of "''debug''"] effect [of "[]"]
    by (auto simp: demo_codec_def demo_world_def ConfigureGlobalLogger_def no_answer_def)
qed

end
