(* ===== verification/Draining.thy ===== *)
theory Draining
  imports Main
begin

text \<open>
  Systems that come to rest. The locale \<open>draining\<close> is the contract of a step relation whose steps keep an
  invariant, get smaller in a well-founded order, and are possible until a final state is reached. Its lemmas
  say that such a system reaches a final state, has no infinite run, and stops in final states only. The pipe
  with a server that accepts its packages, the two workers between auditor and server, and the whole path of a
  result are instances.
\<close>

locale draining =
  fixes step :: "'s \<Rightarrow> 's \<Rightarrow> bool"
    and inv :: "'s \<Rightarrow> bool"
    and final :: "'s \<Rightarrow> bool"
    and order :: "('s \<times> 's) set"
  assumes step_inv: "inv s \<Longrightarrow> step s s' \<Longrightarrow> inv s'"
    and step_order: "inv s \<Longrightarrow> step s s' \<Longrightarrow> (s', s) \<in> order"
    and wf_order: "wf order"
    and progress: "inv s \<Longrightarrow> \<not> final s \<Longrightarrow> \<exists>s'. step s s'"
begin

lemma steps_inv: "step\<^sup>*\<^sup>* s s' \<Longrightarrow> inv s \<Longrightarrow> inv s'"
  by (induction rule: rtranclp_induct) (auto intro: step_inv)

lemma reaches_final: "inv s \<Longrightarrow> \<exists>s'. step\<^sup>*\<^sup>* s s' \<and> final s' \<and> inv s'"
proof (induction s rule: wf_induct_rule [OF wf_order])
  case (1 s)
  show ?case
  proof (cases "final s")
    case False
    then obtain s1 where "step s s1" using progress 1(2) by blast
    moreover from this obtain s' where "step\<^sup>*\<^sup>* s1 s'" "final s'" "inv s'" using 1 step_order step_inv by blast
    ultimately show ?thesis by (meson converse_rtranclp_into_rtranclp)
  qed (use 1(2) in blast)
qed

lemma no_infinite_run:
  assumes "inv s"
  shows "\<not> (\<exists>run. run 0 = s \<and> (\<forall>i :: nat. step (run i) (run (Suc i))))"
proof
  assume "\<exists>run. run 0 = s \<and> (\<forall>i :: nat. step (run i) (run (Suc i)))"
  then obtain run where run: "run 0 = s" "\<And>i :: nat. step (run i) (run (Suc i))" by blast
  have "inv (run i)" for i by (induction i) (use run assms step_inv in auto)
  then have "(run (Suc i), run i) \<in> order" for i using run(2) step_order by blast
  then show False using wf_order unfolding wf_iff_no_infinite_down_chain by blast
qed

lemma stops_final: "inv s \<Longrightarrow> step\<^sup>*\<^sup>* s s' \<Longrightarrow> (\<nexists>s''. step s' s'') \<Longrightarrow> final s' \<and> inv s'"
  using steps_inv progress by blast

end

end
