(* ===== verification/Audit_Pipeline.thy ===== *)
theory Audit_Pipeline
  imports Agent_Flow Draining
begin

text \<open>
  The channels between the audit worker and the gateway: \<open>auditEvents\<close> of \<open>auditor/auditor.go\<close>, which is
  unbuffered, and \<open>auditResultChan\<close> of \<open>gateway/magalix-gateway.go\<close>, which holds 50 results.

  The goroutines that want to send an event are blocked until the audit worker receives; the worker is
  blocked in \<open>SendAuditResults\<close> while the channel of results is full; the gateway's worker empties it. The
  state holds the blocked senders, the auditor, the results the auditor still has to put into the channel,
  the channel, and the buffer of the gateway's worker with the packages it piped. \<open>pl_results\<close> is history:
  all results of all rounds, in order. A round of the auditor is one step up to its sends.
\<close>

subsection \<open>The system\<close>

definition auditResultChan_capacity :: nat where "auditResultChan_capacity = 50"

record ('pol, 'par, 'obj) pipeline =
  pl_waiting :: "'obj AuditEvent list"
  pl_auditor :: "('pol, 'par) OpaAuditor \<times> bool"
  pl_out :: "'obj AuditResult list"
  pl_chan :: "'obj AuditResult list"
  pl_worker :: "'obj AuditResult list \<times> 'obj PacketAuditResultRequest Package list"
  pl_results :: "'obj AuditResult list"

definition pipeline_init :: "('pol, 'par, 'obj) pipeline" where
  "pipeline_init = \<lparr>pl_waiting = [], pl_auditor = (opa_New, False), pl_out = [], pl_chan = [], pl_worker = ([], []), pl_results = []\<rparr>"

text \<open>What the surroundings do: an event arrives, the server sends constraints, the gateway's timer fires.\<close>

inductive pl_env :: "('pol, 'par, 'obj, 'v) opa_core \<Rightarrow> (string \<Rightarrow> string) \<Rightarrow> (nat \<Rightarrow> int) \<Rightarrow> ('pol, 'par, 'obj) pipeline \<Rightarrow>
    ('pol, 'par, 'obj) pipeline \<Rightarrow> bool" for env tmpl d where
  arrive: "pl_env env tmpl d s (s\<lparr>pl_waiting := pl_waiting s @ [e]\<rparr>)"
| constraints: "good_batch env tmpl cs \<Longrightarrow> int (GetConstraintsSize (fst (pl_auditor s)) + length cs) < 2 ^ 63 \<Longrightarrow>
    addConstraints env cs (fst (pl_auditor s), pl_waiting s) = Some ((a', waiting'), errs) \<Longrightarrow>
    pl_env env tmpl d s (s\<lparr>pl_auditor := (a', snd (pl_auditor s)), pl_waiting := waiting'\<rparr>)"
| timer: "SendAuditResultsWorker_step (recorder d) now now' TimerFired (pl_worker s) = Some w \<Longrightarrow>
    pl_env env tmpl d s (s\<lparr>pl_worker := w\<rparr>)"

text \<open>What the two workers do.\<close>

inductive pl_work :: "('pol, 'par, 'obj, 'v) opa_core \<Rightarrow> (nat \<Rightarrow> int) \<Rightarrow> ('pol, 'par, 'obj) pipeline \<Rightarrow>
    ('pol, 'par, 'obj) pipeline \<Rightarrow> bool" for env d where
  handle: "pl_out s = [] \<Longrightarrow> k < length (pl_waiting s) \<Longrightarrow>
    choices_ok (fst (pl_auditor s)) (event_ids (pl_waiting s ! k)) ch \<Longrightarrow>
    handle_event env listed ch (pl_auditor s) (pl_waiting s ! k) = Some (st', sent) \<Longrightarrow>
    pl_work env d s (s\<lparr>pl_waiting := remove_nth k (pl_waiting s), pl_auditor := st', pl_out := send_all sent [],
      pl_results := pl_results s @ send_all sent []\<rparr>)"
| put: "pl_out s = r # rs \<Longrightarrow> length (pl_chan s) < auditResultChan_capacity \<Longrightarrow>
    pl_work env d s (s\<lparr>pl_out := rs, pl_chan := pl_chan s @ [r]\<rparr>)"
| receive: "pl_chan s = r # rs \<Longrightarrow>
    SendAuditResultsWorker_step (recorder d) now now' (ResultReceived r) (pl_worker s) = Some w \<Longrightarrow>
    pl_work env d s (s\<lparr>pl_chan := rs, pl_worker := w\<rparr>)"

inductive pl_reach :: "('pol, 'par, 'obj, 'v) opa_core \<Rightarrow> (string \<Rightarrow> string) \<Rightarrow> (nat \<Rightarrow> int) \<Rightarrow> ('pol, 'par, 'obj) pipeline \<Rightarrow> bool"
  for env tmpl d where
  init: "pl_reach env tmpl d pipeline_init"
| env_step: "pl_reach env tmpl d s \<Longrightarrow> pl_env env tmpl d s s' \<Longrightarrow> pl_reach env tmpl d s'"
| work_step: "pl_reach env tmpl d s \<Longrightarrow> pl_work env d s s' \<Longrightarrow> pl_reach env tmpl d s'"

definition piped :: "('pol, 'par, 'obj) pipeline \<Rightarrow> 'obj PacketAuditResultItem list" where
  "piped s = concat (map batch_items (snd (pl_worker s)))"

definition drained :: "('pol, 'par, 'obj) pipeline \<Rightarrow> bool" where
  "drained s \<longleftrightarrow> pl_waiting s = [] \<and> pl_out s = [] \<and> pl_chan s = []"

subsection \<open>Invariant\<close>

definition pl_inv :: "(string \<Rightarrow> string) \<Rightarrow> ('pol, 'par, 'obj) pipeline \<Rightarrow> bool" where
  "pl_inv tmpl s \<longleftrightarrow> opa_inv tmpl (fst (pl_auditor s)) \<and> length (pl_chan s) \<le> auditResultChan_capacity \<and>
     length (fst (pl_worker s)) < auditResultsBatchSize \<and> (\<forall>pkg \<in> set (snd (pl_worker s)). good_audit_package pkg) \<and>
     piped s @ map ToPacket (fst (pl_worker s) @ pl_chan s @ pl_out s) = map ToPacket (pl_results s)"

lemma pl_env_inv:
  assumes "pl_env env tmpl d s s'" "pl_inv tmpl s"
  shows "pl_inv tmpl s'"
  using assms(1)
proof (cases rule: pl_env.cases)
  case (constraints cs a' waiting' errs)
  have "opa_inv tmpl a'"
    using HandleConstraints_ok [of tmpl "fst (pl_auditor s)" env cs] constraints(2-4) assms(2)
    by (auto simp: addConstraints_def pl_inv_def split: Option.bind_splits)
  then show ?thesis using assms(2) constraints(1) by (simp add: pl_inv_def piped_def)
next
  case (timer now now' w)
  obtain b sent where w0: "pl_worker s = (b, sent)" by (cases "pl_worker s")
  then have "length b < auditResultsBatchSize" using assms(2) by (simp add: pl_inv_def)
  from worker_step_recorder [OF this, of d now now' TimerFired sent] timer(2) w0 assms(2) show ?thesis
    unfolding timer(1) by (auto simp: pl_inv_def piped_def)
qed (use assms(2) in \<open>simp add: pl_inv_def piped_def\<close>)

lemma pl_work_inv:
  assumes "pl_work env d s s'" "pl_inv tmpl s" "string_msgs env"
  shows "pl_inv tmpl s'"
  using assms(1)
proof (cases rule: pl_work.cases)
  case (handle k ch listed st' sent)
  obtain a b where ab: "pl_auditor s = (a, b)" by (cases "pl_auditor s")
  have inv: "opa_inv tmpl a" using assms(2) ab by (simp add: pl_inv_def)
  have ch: "choices_ok a (event_ids (pl_waiting s ! k)) ch" using handle(4) ab by simp
  have "same_policies a (fst st')"
    using handle_event_total [OF inv assms(3) ch, of listed b] handle(5) ab by auto
  then have "opa_inv tmpl (fst st')" using inv opa_inv_same by blast
  then show ?thesis using assms(2) handle(1,2) by (simp add: pl_inv_def piped_def)
next
  case (put r rs)
  then show ?thesis using assms(2) by (simp add: pl_inv_def piped_def)
next
  case (receive r rs now now' w)
  obtain b sent where w0: "pl_worker s = (b, sent)" by (cases "pl_worker s")
  then have b: "length b < auditResultsBatchSize" using assms(2) by (simp add: pl_inv_def)
  from worker_step_recorder [OF this, of d now now' "ResultReceived r" sent] receive(3) w0 obtain b' new where
    w: "w = (b', sent @ new)" "length b' < auditResultsBatchSize" "\<forall>pkg \<in> set new. good_audit_package pkg"
    "concat (map batch_items new) @ map ToPacket b' = map ToPacket (b @ [r])" by auto
  have "piped s @ map ToPacket (b @ [r]) @ map ToPacket (rs @ pl_out s) = map ToPacket (pl_results s)"
    using assms(2) receive(2) w0 by (simp add: pl_inv_def)
  then show ?thesis
    unfolding receive(1) w(4) [symmetric] using assms(2) w(1-3) w0 receive(2) by (auto simp: pl_inv_def piped_def)
qed

lemma pl_reach_inv:
  assumes "pl_reach env tmpl d s" "string_msgs env"
  shows "pl_inv tmpl s"
  using assms(1)
proof (induction rule: pl_reach.induct)
  case init
  then show ?case by (simp add: pl_inv_def pipeline_init_def piped_def opa_inv_New auditResultsBatchSize_def)
next
  case (env_step s s')
  then show ?case using pl_env_inv by blast
next
  case (work_step s s')
  then show ?case using pl_work_inv assms(2) by blast
qed

subsection \<open>Progress\<close>

text \<open>As long as an event or a result is on its way, one of the two workers can go on.\<close>

lemma pl_progress:
  assumes "pl_inv tmpl s" "string_msgs env" "\<not> drained s"
  shows "\<exists>s'. pl_work env d s s'"
proof (cases "pl_chan s")
  case (Cons r rs)
  obtain b sent where w0: "pl_worker s = (b, sent)" by (cases "pl_worker s")
  then have "length b < auditResultsBatchSize" using assms(1) by (simp add: pl_inv_def)
  from worker_step_recorder [OF this, of d 0 0 "ResultReceived r" sent] obtain w where
    "SendAuditResultsWorker_step (recorder d) 0 0 (ResultReceived r) (pl_worker s) = Some w" by (auto simp: w0)
  from pl_work.receive [OF Cons this] show ?thesis by blast
next
  case chan: Nil
  show ?thesis
  proof (cases "pl_out s")
    case (Cons r rs)
    from pl_work.put [OF this] chan show ?thesis by (auto simp: auditResultChan_capacity_def)
  next
    case out: Nil
    obtain a b where ab: "pl_auditor s = (a, b)" by (cases "pl_auditor s")
    have k: "0 < length (pl_waiting s)" using assms(3) chan out by (simp add: drained_def)
    let ?e = "pl_waiting s ! 0"
    obtain order where "range_order (getConstraints (event_ids ?e) (oa_constraints a)) order"
      using finite_distinct_list [of "fmdom' (getConstraints (event_ids ?e) (oa_constraints a))"] by (auto simp: range_order_def)
    then have ch: "choices_ok a (event_ids ?e) (\<lambda>_. (order, \<lambda>_. []))" by (simp add: choices_ok_def)
    have "opa_inv tmpl a" using assms(1) ab by (simp add: pl_inv_def)
    from handle_event_total [OF this assms(2) ch, of "[]" b] obtain st' sent where
      "handle_event env [] (\<lambda>_. (order, \<lambda>_. [])) (a, b) ?e = Some (st', sent)" by blast
    then have "handle_event env [] (\<lambda>_. (order, \<lambda>_. [])) (pl_auditor s) ?e = Some (st', sent)" by (simp only: ab)
    moreover have "choices_ok (fst (pl_auditor s)) (event_ids ?e) (\<lambda>_. (order, \<lambda>_. []))" using ch ab by simp
    ultimately show ?thesis by (meson pl_work.handle [OF out k])
  qed
qed

text \<open>Without new events the workers come to an end: a round consumes an event, every other step moves a
  result towards the gateway.\<close>

definition pl_measure :: "(('pol, 'par, 'obj) pipeline \<times> ('pol, 'par, 'obj) pipeline) set" where
  "pl_measure = measures [\<lambda>s. length (pl_waiting s), \<lambda>s. 2 * length (pl_out s) + length (pl_chan s)]"

lemma pl_work_decreases: "pl_work env d s s' \<Longrightarrow> (s', s) \<in> pl_measure"
  by (induction rule: pl_work.induct) (auto simp: pl_measure_def)

lemma wf_pl_measure: "wf pl_measure"
  by (simp add: pl_measure_def)

lemma pl_work_wf:
  fixes env :: "('pol, 'par, 'obj, 'v) opa_core"
  shows "wfP (\<lambda>s' s. pl_work env d s s')"
  using wf_pl_measure unfolding wfp_def by (rule wf_subset) (auto intro: pl_work_decreases)

interpretation pl: draining "pl_work env d" "\<lambda>s. pl_inv tmpl s \<and> string_msgs env" drained pl_measure for env d tmpl
proof (unfold_locales, goal_cases)
  case (1 s s')
  then show ?case using pl_work_inv by blast
next
  case (4 s)
  then show ?case using pl_progress by blast
qed (use pl_work_decreases wf_pl_measure in auto)

subsection \<open>Properties\<close>

text \<open>Between the auditor and the gateway nothing is lost, duplicated, reordered or stuck. In every state
  that any interleaving of senders, constraints, timer and workers leads to, what was piped, followed by the
  gateway's buffer, the channel and what the auditor still has to send, is exactly the results of all rounds in
  order; the channel holds at most 50 of them, a package between 1 and 1000. While an event or a result is on its way a worker can take
  a step (no deadlock), no infinite run consists of such steps only, and once they are used up one tick of the
  gateway's timer has piped everything.\<close>

theorem audit_pipeline_drains:
  assumes "pl_reach env tmpl d s" and "string_msgs env"
  shows "length (pl_chan s) \<le> 50 \<and> (\<forall>pkg \<in> set (snd (pl_worker s)). good_audit_package pkg) \<and>
    piped s @ map ToPacket (fst (pl_worker s) @ pl_chan s @ pl_out s) = map ToPacket (pl_results s) \<and>
    (drained s \<or> (\<exists>s'. pl_work env d s s')) \<and> wfP (\<lambda>s' s. pl_work env d s s') \<and>
    (\<exists>s' w. (pl_work env d)\<^sup>*\<^sup>* s s' \<and> drained s' \<and>
      SendAuditResultsWorker_step (recorder d) now now' TimerFired (pl_worker s') = Some w \<and> fst w = [] \<and>
      concat (map batch_items (snd w)) = map ToPacket (pl_results s'))"
proof -
  have inv: "pl_inv tmpl s" using pl_reach_inv [OF assms] .
  obtain s' where s': "(pl_work env d)\<^sup>*\<^sup>* s s'" "drained s'" "pl_inv tmpl s'"
    using pl.reaches_final [of tmpl s env d] inv assms(2) by blast
  obtain b sent where w0: "pl_worker s' = (b, sent)" by (cases "pl_worker s'")
  with s'(3) have b: "length b < auditResultsBatchSize"
    "concat (map batch_items sent) @ map ToPacket b = map ToPacket (pl_results s')"
    using s'(2) by (auto simp: pl_inv_def piped_def drained_def)
  from worker_step_recorder [OF b(1), of d now now' TimerFired sent] obtain new where
    w: "SendAuditResultsWorker_step (recorder d) now now' TimerFired (pl_worker s') = Some ([], sent @ new)"
    "concat (map batch_items new) = map ToPacket b" by (auto simp: w0)
  have "concat (map batch_items (sent @ new)) = map ToPacket (pl_results s')" using w(2) b(2) by simp
  then have "\<exists>s' w. (pl_work env d)\<^sup>*\<^sup>* s s' \<and> drained s' \<and>
      SendAuditResultsWorker_step (recorder d) now now' TimerFired (pl_worker s') = Some w \<and> fst w = [] \<and>
      concat (map batch_items (snd w)) = map ToPacket (pl_results s')" using s' w(1) by fastforce
  then show ?thesis
    using inv pl_progress [OF inv assms(2), of d] pl_work_wf [of env d] by (auto simp: pl_inv_def auditResultChan_capacity_def)
qed

theorem audit_pipeline_drains_witness:
  "\<exists>s' w. (pl_work demo_core (\<lambda>_. 0))\<^sup>*\<^sup>* (pipeline_init\<lparr>pl_waiting := [Command, EntitiesSync]\<rparr>) s' \<and> drained s' \<and>
    SendAuditResultsWorker_step (recorder (\<lambda>_. 0)) 1 1 TimerFired (pl_worker s') = Some w \<and> fst w = [] \<and>
    concat (map batch_items (snd w)) = map ToPacket (pl_results s')"
proof -
  let ?s = "pipeline_init\<lparr>pl_waiting := [Command, EntitiesSync]\<rparr>"
  from pl_reach.env_step [OF pl_reach.init pl_env.arrive [where e = Command], of demo_core "\<lambda>_. ''t''" "\<lambda>_. 0"]
  have "pl_reach demo_core (\<lambda>_. ''t'') (\<lambda>_. 0) (pipeline_init\<lparr>pl_waiting := [Command]\<rparr>)" by (simp add: pipeline_init_def)
  from pl_reach.env_step [OF this pl_env.arrive [where e = EntitiesSync]]
  have "pl_reach demo_core (\<lambda>_. ''t'') (\<lambda>_. 0) ?s" by (simp add: pipeline_init_def)
  from audit_pipeline_drains [OF this string_msgs_demo, of 1 1] show ?thesis by blast
qed

end
