(* ===== verification/Gateway_Pipe.thy ===== *)
theory Gateway_Pipe
  imports Gateway
begin

text \<open>
  The gateway's worker on the pipe of the client: \<open>SendAuditResultsWorker\<close> of \<open>gateway/governance.go\<close> running
  beside the workers of \<open>client/pipe.go\<close>, in every interleaving, with the other users of the same pipe.

  \<open>Package.Data\<close> is an \<open>interface{}\<close>: here the packet of the gateway or something else (the logs). The call of
  \<open>Pipe\<close> adds its package in one step; the broadcast that follows is a step of its own. The state is the
  buffer of the gateway's worker and the pipe; the last argument of \<open>gp_reach\<close> is history, the results that the
  worker has received.
\<close>

subsection \<open>The system\<close>

datatype ('obj, 'x) payload = AuditPayload "'obj PacketAuditResultRequest" | OtherPayload 'x

definition with_data :: "('d \<Rightarrow> 'e) \<Rightarrow> 'd Package \<Rightarrow> 'e Package" where
  "with_data f pack = \<lparr>pk_Kind = pk_Kind pack, pk_ExpiryTime = pk_ExpiryTime pack, pk_ExpiryCount = pk_ExpiryCount pack,
     pk_Priority = pk_Priority pack, pk_Retries = pk_Retries pack, pk_retries = pk_retries pack, pk_index = pk_index pack,
     pk_time = pk_time pack, pk_Data = f (pk_Data pack)\<rparr>"

definition audit_sender :: "go_time \<Rightarrow> go_time \<Rightarrow> ('obj PacketAuditResultRequest, ('obj, 'x) payload Pipe) pipe_sender" where
  "audit_sender t now pack p = pipe_send_add t now (with_data AuditPayload pack) p"

definition other_event :: "('obj, 'x) payload pipe_event \<Rightarrow> bool" where
  "other_event e = (case e of SendAdd t now pack \<Rightarrow> (case pk_Data pack of AuditPayload _ \<Rightarrow> False | OtherPayload _ \<Rightarrow> True) | _ \<Rightarrow> True)"

inductive gp_reach :: "nat \<Rightarrow> 'obj AuditResult list \<times> ('obj, 'x) payload Pipe \<Rightarrow> 'obj AuditResult list \<Rightarrow> bool" for n where
  start: "NewPipe m = Some p \<Longrightarrow> gp_reach n ([], pipe_Start p n) []"
| worker: "gp_reach n g rs \<Longrightarrow> SendAuditResultsWorker_step (audit_sender t t') now now' e g = Some g' \<Longrightarrow>
    gp_reach n g' (rs @ received [(now, now', e)])"
| pipe: "gp_reach n (b, p) rs \<Longrightarrow> enabled p e \<Longrightarrow> other_event e \<Longrightarrow> exec_event p e = Some p' \<Longrightarrow> gp_reach n (b, p') rs"

subsection \<open>The pipe keeps what it carries\<close>

fun payload_items :: "('obj, 'x) payload \<Rightarrow> 'obj PacketAuditResultItem list" where
  "payload_items (AuditPayload packet) = pr_Items packet"
| "payload_items (OtherPayload x) = []"

text \<open>The data of all packages ever handed to the pipe, in the order of the calls.\<close>

definition carried_data :: "'d Pipe \<Rightarrow> 'd list" where
  "carried_data p = map (\<lambda>a. pk_Data (st_mem (pi_storage p) a)) [0..<pi_next p]"

lemma contents_data: "contents s' = (contents s)(a := f (contents s a)) \<Longrightarrow> (\<And>x. pk_Data (f x) = pk_Data x) \<Longrightarrow>
    pk_Data (st_mem s' b) = pk_Data (st_mem s b)"
  by (metis contents_of_sel(8) fun_upd_apply)

lemma store_Add_data:
  assumes "store_inv s" "a \<notin> pending s" "store_Add t0 now s (Some a) = Some (s', n)"
  shows "pk_Data (st_mem s' b) = pk_Data (st_mem s b)"
proof -
  have "spec_Add t0 now a (view s) = (view s', n)" using store_Add_view [OF assms(1,2), of t0 now] assms(3) by auto
  from spec_Add_kinds(2) [OF this] have "contents s' = (contents s)(a := stamp t0 (contents s a))" by simp
  then show ?thesis by (rule contents_data) (simp add: stamp_def)
qed

lemma store_Pop_data:
  assumes "store_inv s" "store_Pop now s = Some (s', r)"
  shows "pk_Data (st_mem s' b) = pk_Data (st_mem s b)"
proof -
  have "spec_Pop now (view s) r (view s')" using store_Pop_view [OF assms(1), of now] assms(2) by auto
  then have "contents s' = contents s \<or> (\<exists>a. contents s' = (contents s)(a := attempt (contents s a)))"
    by (auto simp: spec_Pop_def spec_attempt_def spec_remove_def spec_expire_def view_def Let_def split: option.splits if_splits)
  then show ?thesis
  proof (elim disjE exE)
    assume "contents s' = contents s"
    then show ?thesis by (rule contents_of_eqD)
  next
    fix a assume "contents s' = (contents s)(a := attempt (contents s a))"
    then show ?thesis by (rule contents_data) simp
  qed
qed

lemma pipe_add_data:
  assumes "pipe_inv n p" "at_pc p i (Sending a)" "pipe_add t0 now (set_worker p i AtLock) a = Some (p', ret)"
  shows "carried_data p' = carried_data p"
proof -
  have acc: "accounted p" "store_inv (pi_storage p)" using assms(1) by (auto simp: pipe_inv_def)
  have "a \<notin> pending (pi_storage p)" using accounted_parts(1) [OF acc(1) in_flight_sending [OF assms(2)]] by simp
  then show ?thesis
    using assms(3) store_Add_data [OF acc(2)] by (auto simp: carried_data_def pipe_add_def split: Option.bind_splits)
qed

lemma pipe_send_add_data:
  assumes "pipe_inv n p" "pipe_send_add t now pack p = Some (p', ret)"
  shows "carried_data p' = carried_data p @ [pk_Data pack]"
proof -
  let ?a = "pi_next p" and ?s = "pi_storage p"
  let ?s1 = "?s\<lparr>st_mem := (st_mem ?s)(?a := pack\<lparr>pk_time := t\<rparr>)\<rparr>"
  have acc: "accounted p" "store_inv ?s" using assms(1) by (auto simp: pipe_inv_def)
  have fresh: "?a \<notin> pending ?s" using accounted_parts(2) [OF acc(1)] by blast
  then have "store_inv ?s1" using store_inv_outside acc(2) by blast
  then have "pk_Data (st_mem s' b) = pk_Data (st_mem ?s1 b)" if "store_Add t now ?s1 (Some ?a) = Some (s', k)" for s' k b
    using store_Add_data [of ?s1 ?a, OF _ _ that] fresh by simp
  then show ?thesis
    using assms(2) by (fastforce simp: carried_data_def pipe_send_add_def pipe_add_def Let_def split: Option.bind_splits)
qed

lemma exec_event_data:
  assumes "pipe_inv n p" "enabled p e" "exec_event p e = Some p'"
  shows "carried_data p' = carried_data p @ (case e of SendAdd t now pack \<Rightarrow> [pk_Data pack] | _ \<Rightarrow> [])"
proof (cases e)
  case (SendAdd t now pack)
  then show ?thesis using pipe_send_add_data [OF assms(1)] assms(3) by auto
next
  case (Pop i now)
  have "store_inv (pi_storage p)" using assms(1) by (simp add: pipe_inv_def)
  then show ?thesis
    using Pop assms(3) store_Pop_data by (fastforce simp: carried_data_def split: Option.bind_splits)
next
  case (SendErr i t0 now)
  then obtain a where a: "at_pc p i (Sending a)" using assms(2) by auto
  then have "pi_workers p ! i = Sending a" by (simp add: at_pc_def)
  then show ?thesis using SendErr assms(3) pipe_add_data [OF assms(1) a] by auto
qed (use assms(3) in \<open>auto simp: carried_data_def split: worker_pc.splits\<close>)

subsection \<open>The worker on the pipe\<close>

lemma batch_on_pipe:
  assumes "pipe_inv n p"
  shows "\<exists>p'. SendAuditResultsBatch (audit_sender t t') now now' rs p = Some p' \<and> pipe_inv n p' \<and>
    carried_data p' = carried_data p @ [AuditPayload \<lparr>pr_Items = map ToPacket rs, pr_Timestamp = now\<rparr>]"
proof -
  let ?pack = "with_data AuditPayload (audit_package now now' rs)"
  obtain p' ret where p': "pipe_send_add t t' ?pack p = Some (p', ret)" "pipe_inv n p'" using SendAdd_inv [OF assms] by blast
  moreover have "pk_Data ?pack = AuditPayload \<lparr>pr_Items = map ToPacket rs, pr_Timestamp = now\<rparr>"
    by (simp add: with_data_def audit_package_def new_package_def)
  ultimately show ?thesis
    using pipe_send_add_data [OF assms p'(1)] by (simp add: SendAuditResultsBatch_def client_Pipe_def audit_sender_def)
qed

text \<open>The worker does the same as on a sender that records its calls.\<close>

lemma worker_step_on_pipe:
  assumes "pipe_inv n p" "length b < auditResultsBatchSize"
  shows "\<exists>b' p'. SendAuditResultsWorker_step (audit_sender t t') now now' e (b, p) = Some (b', p') \<and> pipe_inv n p' \<and>
    length b' < auditResultsBatchSize \<and>
    concat (map payload_items (carried_data p')) @ map ToPacket b' =
      concat (map payload_items (carried_data p)) @ map ToPacket (b @ received [(now, now', e)])"
proof -
  have full: "\<exists>p'. SendAuditResultsBatch (audit_sender t t') now now' rs p = Some p' \<and> pipe_inv n p' \<and>
      concat (map payload_items (carried_data p')) = concat (map payload_items (carried_data p)) @ map ToPacket rs" for rs
    using batch_on_pipe [OF assms(1), of t t' now now' rs] by auto
  show ?thesis
  proof (cases e)
    case (ResultReceived r)
    then show ?thesis using full [of "b @ [r]"] assms by (auto simp: Let_def)
  next
    case TimerFired
    then show ?thesis using full [of b] assms by (cases "b = []") auto
  qed
qed

definition gp_inv :: "nat \<Rightarrow> 'obj AuditResult list \<times> ('obj, 'x) payload Pipe \<Rightarrow> 'obj AuditResult list \<Rightarrow> bool" where
  "gp_inv n g rs \<longleftrightarrow> pipe_inv n (snd g) \<and> length (fst g) < auditResultsBatchSize \<and>
     concat (map payload_items (carried_data (snd g))) @ map ToPacket (fst g) = map ToPacket rs"

lemma gp_reach_inv: "gp_reach n g rs \<Longrightarrow> gp_inv n g rs"
proof (induction rule: gp_reach.induct)
  case (start m p)
  then show ?case
    using pipe_inv_start [OF start, of n]
    by (auto simp: gp_inv_def carried_data_def NewPipe_def pipe_Start_def auditResultsBatchSize_def split: Option.bind_splits)
next
  case (worker g rs t t' now now' e g')
  obtain b p where g: "g = (b, p)" by (cases g)
  then have "pipe_inv n p" "length b < auditResultsBatchSize" using worker.IH by (auto simp: gp_inv_def)
  from worker_step_on_pipe [OF this, of t t' now now' e] worker.IH worker.hyps(2) g show ?case
    by (auto simp: gp_inv_def)
next
  case (pipe b p rs e p')
  have inv: "pipe_inv n p" using pipe.IH by (simp add: gp_inv_def)
  have "pipe_inv n p'" using exec_event_inv [OF inv pipe.hyps(2)] pipe.hyps(4) by auto
  moreover have "concat (map payload_items (carried_data p')) = concat (map payload_items (carried_data p))"
    using exec_event_data [OF inv pipe.hyps(2,4)] pipe.hyps(3)
    by (cases e) (auto simp: other_event_def split: payload.splits)
  ultimately show ?case using pipe.IH by (simp add: gp_inv_def)
qed

subsection \<open>Properties\<close>

text \<open>C17: Every audit result that the gateway has received is, in order, either still in its buffer or in exactly
  one package of the pipe, and each of these packages is in exactly one place: waiting in the store, in the
  hands of a worker, delivered, or dropped because it expired. This holds in every interleaving of the gateway's
  worker, the pipe's workers, their failing or succeeding sends and the other users of the pipe; and the
  gateway's worker can always go on.\<close>

theorem gateway_results_accounted:
  assumes "gp_reach n (b, p) rs"
  shows "concat (map payload_items (carried_data p)) @ map ToPacket b = map ToPacket rs \<and>
    (\<forall>a < length (carried_data p). count (mset_set (pending (pi_storage p)) + in_flight p + mset (pi_sent p) + mset_set (pi_dropped p)) a = 1) \<and>
    SendAuditResultsWorker_step (audit_sender t t') now now' e (b, p) \<noteq> None"
proof -
  have inv: "pipe_inv n p" "length b < auditResultsBatchSize"
    "concat (map payload_items (carried_data p)) @ map ToPacket b = map ToPacket rs"
    using gp_reach_inv [OF assms] by (auto simp: gp_inv_def)
  have "mset_set (pending (pi_storage p)) + in_flight p + mset (pi_sent p) + mset_set (pi_dropped p) = mset_set {..<pi_next p}"
    using inv(1) by (simp add: pipe_inv_def accounted_def)
  then have "\<forall>a < length (carried_data p). count (mset_set (pending (pi_storage p)) + in_flight p + mset (pi_sent p) + mset_set (pi_dropped p)) a = 1"
    by (simp add: carried_data_def)
  then show ?thesis using inv(3) worker_step_on_pipe [OF inv(1,2), of t t' now now' e] by auto
qed

theorem gateway_results_accounted_witness:
  "\<exists>(p :: (unit, unit) payload Pipe) p'. gp_reach 10 ([demo_result], p) [demo_result] \<and>
    SendAuditResultsWorker_step (audit_sender 1 1) 1 1 TimerFired ([demo_result], p) = Some ([], p') \<and>
    concat (map payload_items (carried_data p')) = [ToPacket demo_result]"
proof -
  obtain p :: "(unit, unit) payload Pipe" where "NewPipe (\<lambda>_. undefined) = Some p"
    by (simp add: NewPipe_def NewDefaultPipeStore_empty)
  from gp_reach.worker [OF gp_reach.start [OF this, of 10], of 1 1 0 0 "ResultReceived demo_result"]
  have r: "gp_reach 10 ([demo_result], pipe_Start p 10) [demo_result]" by (simp add: auditResultsBatchSize_def)
  obtain g where g: "SendAuditResultsWorker_step (audit_sender 1 1) 1 1 TimerFired ([demo_result], pipe_Start p 10) = Some g"
    using gateway_results_accounted [OF r, of 1 1 1 1 TimerFired] by auto
  then obtain p' where p': "g = ([], p')" by (auto split: Option.bind_splits)
  from gp_reach.worker [OF r g] have "gp_reach 10 ([], p') [demo_result]" by (simp add: p')
  from gateway_results_accounted [OF this, of 1 1 1 1 TimerFired] show ?thesis using r g p' by auto
qed

end
