(* ===== verification/Full_Audit.thy ===== *)
theory Full_Audit
  imports Auditor_Loop
begin

text \<open>
  What a round of the auditor that audits everything leaves in the cache of results
  (\<open>auditAllResourcesAndSendData\<close> of \<open>auditor/auditor.go\<close>), and why the informers' initial burst of events after
  it sends nothing: \<open>EntitiesWatcher.Start\<close> reports the cache sync first and adds its event handlers afterwards,
  and an informer then reports every object it has as added.
\<close>

text \<open>The cache holds the current status of the entity for every constraint among \<open>ids\<close> that matches it.\<close>

definition cache_current :: "('pol, 'par, 'obj, 'v) opa_core \<Rightarrow> string list \<Rightarrow> ('pol, 'par) OpaAuditor \<Rightarrow> 'obj Unstructured \<Rightarrow> bool" where
  "cache_current env ids a x \<longleftrightarrow> (\<forall>cid c. fmlookup (getConstraints ids (oa_constraints a)) cid = Some c \<and> matchEntity x (co_Match c) \<longrightarrow>
     cache_Get cid (getResourceKey x) (oa_cache a) = Some (eval_status (evaluate env a x c)))"

text \<open>The initial burst: every listed entity is reported as changed, in any order.\<close>

fun entity_changes :: "('pol, 'par, 'obj, 'v) opa_core \<Rightarrow> 'obj Unstructured list list \<Rightarrow> (nat \<Rightarrow> choices) \<Rightarrow> nat \<Rightarrow> 'obj Unstructured list \<Rightarrow>
    ('pol, 'par) OpaAuditor \<times> bool \<Rightarrow> ((('pol, 'par) OpaAuditor \<times> bool) \<times> 'obj AuditResult list list) option" where
  "entity_changes env listed chs k [] st = Some (st, [])"
| "entity_changes env listed chs k (x # xs) st = do {
     (st1, sent1) \<leftarrow> handle_event env listed (chs k) st (EntityChange x);
     (st2, sent2) \<leftarrow> entity_changes env listed chs (Suc k) xs st1;
     Some (st2, sent1 @ sent2) }"

subsection \<open>One entity\<close>

lemma cache_current_keep:
  assumes "same_policies a a'" "\<And>cid. cache_Get cid (getResourceKey x) (oa_cache a') = cache_Get cid (getResourceKey x) (oa_cache a)"
  shows "cache_current env ids a' x = cache_current env ids a x"
  using assms by (simp add: cache_current_def same_policies_def)

lemma audit_updates_cache:
  assumes "opa_inv tmpl a" "string_msgs env" "range_order (getConstraints ids (oa_constraints a)) order"
  shows "\<exists>rs errs a1. Audit env a x ids trig order uuids = Some (rs, errs) \<and> UpdateCache a rs = Some a1 \<and> same_policies a a1 \<and>
    (audited env x \<longrightarrow> cache_current env ids a1 x) \<and>
    (\<forall>cid key. key \<noteq> getResourceKey x \<longrightarrow> cache_Get cid key (oa_cache a1) = cache_Get cid key (oa_cache a))"
proof -
  obtain rs errs where rs: "Audit env a x ids trig order uuids = Some (rs, errs)" "audit_results x rs"
    using Audit_total [OF assms] by blast
  from UpdateCache_get [OF rs(2), of a] obtain a1 where a1: "UpdateCache a rs = Some a1" "same_policies a a1"
    "\<forall>r \<in> set rs. cache_Get (the (ar_ConstraintID r)) (getResourceKey x) (oa_cache a1) = Some (ar_Status r)"
    "\<forall>cid key. key \<noteq> getResourceKey x \<longrightarrow> cache_Get cid key (oa_cache a1) = cache_Get cid key (oa_cache a)"
    by (auto simp: same_policies_def)
  have "cache_current env ids a1 x" if "audited env x"
  proof -
    from that have own: "un_OwnerReferences x = []"
      and par: "\<forall>p. ew_GetParents env (un_Namespace x) (un_Kind x) (un_Name x) = Some (Some p) \<longrightarrow> un_Kind x \<noteq> ''Pod'' \<and> un_Kind x \<noteq> ''ReplicaSet''"
      by (auto simp: audited_def)
    have hit: "\<exists>r \<in> set rs. ar_ConstraintID r = Some cid \<and> ar_Status r = eval_status (evaluate env a x c)"
      if "fmlookup (getConstraints ids (oa_constraints a)) cid = Some c" "matchEntity x (co_Match c)" for cid c
      using Audit_results_gen [OF assms own par, of trig uuids] rs(1) that by auto
    then show ?thesis using a1(2,3) by (fastforce simp: cache_current_def same_policies_def)
  qed
  then show ?thesis using rs(1) a1 by blast
qed

text \<open>An entity whose current statuses are cached has nothing new to report.\<close>

lemma current_change_silent:
  assumes inv: "opa_inv tmpl a" and msgs: "string_msgs env" and ch: "choices_ok a [] ch"
    and cur: "audited env x \<longrightarrow> cache_current env [] a x"
  shows "\<exists>a'. handle_event env listed ch (a, True) (EntityChange x) = Some ((a', True), [[]]) \<and> same_policies a a' \<and> oa_cache a' = oa_cache a"
proof -
  have ord: "range_order (getConstraints [] (oa_constraints a)) (fst (ch 0))" using ch by (simp add: choices_ok_def)
  obtain rs errs where rs: "Audit env a x [] ''entity-change'' (fst (ch 0)) (snd (ch 0)) = Some (rs, errs)" "audit_results x rs"
    using Audit_total [OF inv msgs ord] by blast
  have none: "\<not> is_news a x r" if r: "r \<in> set rs" for r
  proof -
    have aud: "audited env x" using rs(1) r by (auto simp: audited_def Audit_def Let_def split: if_splits)
    obtain cid where cid: "ar_ConstraintID r = Some cid" using audit_results_ids [OF rs(2)] r by fastforce
    from aud have own: "un_OwnerReferences x = []"
      and par: "\<forall>p. ew_GetParents env (un_Namespace x) (un_Kind x) (un_Name x) = Some (Some p) \<longrightarrow> un_Kind x \<noteq> ''Pod'' \<and> un_Kind x \<noteq> ''ReplicaSet''"
      by (auto simp: audited_def)
    have "\<exists>c. fmlookup (getConstraints [] (oa_constraints a)) cid = Some c \<and> matchEntity x (co_Match c) \<and>
        ar_Status r = eval_status (evaluate env a x c)"
      using Audit_results_gen [OF inv msgs ord own par, of "''entity-change''" "snd (ch 0)"] rs(1) r cid by auto
    then show ?thesis using cur aud cid by (auto simp: cache_current_def is_news_def)
  qed
  then have "filter (is_news a x) rs = []" by simp
  moreover have "news a x rs = Some (filter (is_news a x) rs)"
    using news_filter [OF audit_results_ids [OF rs(2)], of a x] by (simp add: check_is_news)
  ultimately have "news a x rs = Some []" by simp
  then show ?thesis
    using rs(1) by (auto simp: handle_event_def auditResource_def UpdateCache_def same_policies_def)
qed

subsection \<open>All entities\<close>

lemma audit_resources_current:
  assumes msgs: "string_msgs env"
  shows "opa_inv tmpl a \<Longrightarrow> choices_ok a ids ch \<Longrightarrow> distinct (map getResourceKey xs) \<Longrightarrow>
    \<exists>a' sent'. audit_resources env ids trig ch k xs a sent = Some (a', sent') \<and> same_policies a a' \<and>
      (\<forall>x \<in> set xs. audited env x \<longrightarrow> cache_current env ids a' x) \<and>
      (\<forall>cid key. key \<notin> getResourceKey ` set xs \<longrightarrow> cache_Get cid key (oa_cache a') = cache_Get cid key (oa_cache a))"
proof (induction xs arbitrary: a k sent)
  case (Cons x xs)
  have ord: "range_order (getConstraints ids (oa_constraints a)) (fst (ch k))" using Cons.prems(2) by (simp add: choices_ok_def)
  from audit_updates_cache [OF Cons.prems(1) msgs ord, of x trig "snd (ch k)"] obtain rs errs a1 where
    1: "Audit env a x ids trig (fst (ch k)) (snd (ch k)) = Some (rs, errs)" "UpdateCache a rs = Some a1" "same_policies a a1"
      "audited env x \<longrightarrow> cache_current env ids a1 x"
      "\<forall>cid key. key \<noteq> getResourceKey x \<longrightarrow> cache_Get cid key (oa_cache a1) = cache_Get cid key (oa_cache a)" by blast
  have "opa_inv tmpl a1" "choices_ok a1 ids ch" "distinct (map getResourceKey xs)"
    using Cons.prems opa_inv_same [OF 1(3)] choices_same [OF 1(3)] by auto
  from Cons.IH [OF this, of "Suc k" "sent @ [rs]"] obtain a' sent' where
    2: "audit_resources env ids trig ch (Suc k) xs a1 (sent @ [rs]) = Some (a', sent')" "same_policies a1 a'"
      "\<forall>y \<in> set xs. audited env y \<longrightarrow> cache_current env ids a' y"
      "\<forall>cid key. key \<notin> getResourceKey ` set xs \<longrightarrow> cache_Get cid key (oa_cache a') = cache_Get cid key (oa_cache a1)" by blast
  have "getResourceKey x \<notin> getResourceKey ` set xs" using Cons.prems(3) by simp
  then have "cache_current env ids a' x = cache_current env ids a1 x" using cache_current_keep [OF 2(2)] 2(4) by blast
  then show ?case using 1 2 same_policies_trans [OF 1(3) 2(2)] by (auto simp: auditResource_def)
qed simp

lemma burst_silent:
  assumes msgs: "string_msgs env" and ch: "\<And>k. choices_ok a0 [] (chs k)"
  shows "opa_inv tmpl a \<Longrightarrow> same_policies a0 a \<Longrightarrow> \<forall>x \<in> set xs. audited env x \<longrightarrow> cache_current env [] a x \<Longrightarrow>
    \<exists>a'. entity_changes env listed chs k xs (a, True) = Some ((a', True), replicate (length xs) [])"
proof (induction xs arbitrary: a k)
  case (Cons x xs)
  have "choices_ok a [] (chs k)" using ch [of k] choices_same [OF Cons.prems(2)] by blast
  moreover have "audited env x \<longrightarrow> cache_current env [] a x" using Cons.prems(3) by simp
  ultimately obtain a1 where a1: "handle_event env listed (chs k) (a, True) (EntityChange x) = Some ((a1, True), [[]])"
    "same_policies a a1" "oa_cache a1 = oa_cache a" using current_change_silent [OF Cons.prems(1) msgs] by blast
  have "cache_current env [] a1 y = cache_current env [] a y" for y by (rule cache_current_keep [OF a1(2)]) (simp add: a1(3))
  then have cur: "\<forall>y \<in> set xs. audited env y \<longrightarrow> cache_current env [] a1 y" using Cons.prems(3) by simp
  have "opa_inv tmpl a1" "same_policies a0 a1"
    using Cons.prems(1) opa_inv_same [OF a1(2)] same_policies_trans [OF Cons.prems(2) a1(2)] by auto
  from Cons.IH [OF this cur, of "Suc k"] a1(1) show ?case by auto
qed simp

subsection \<open>Properties\<close>

text \<open>C21: After a round that audits everything (on the report of the cache sync, on a command, or on the ticker)
  the cache holds, for every listed entity that is audited at all and every matching constraint, the current
  status; so when the informers then report listed entities as added or changed, with the content they were
  listed with, in any order and any number, not a single result is sent again.\<close>

theorem full_audit_silences_burst:
  assumes "opa_inv tmpl a" and "string_msgs env" and "choices_ok a [] ch" and "\<And>k. choices_ok a [] (chs k)"
    and "distinct (map getResourceKey (concat listed))" and "e \<in> {EntitiesSync, Command, Tick}"
    and "b \<or> e = EntitiesSync" and "set burst \<subseteq> set (concat listed)"
  shows "\<exists>a1 sent a2. handle_event env listed ch (a, b) e = Some ((a1, True), sent) \<and>
    (\<forall>x \<in> set (concat listed). audited env x \<longrightarrow> cache_current env [] a1 x) \<and>
    entity_changes env listed' chs 0 burst (a1, True) = Some ((a2, True), replicate (length burst) [])"
proof -
  obtain a1 sent where a1: "audit_resources env [] (event_type e) ch 0 (concat listed) a [] = Some (a1, sent)" "same_policies a a1"
    "\<forall>x \<in> set (concat listed). audited env x \<longrightarrow> cache_current env [] a1 x"
    using audit_resources_current [OF assms(2,1,3,5), of "event_type e" 0 "[]"] by blast
  have "handle_event env listed ch (a, b) e = Some ((a1, True), sent)"
    using a1(1) assms(6,7) by (auto simp: handle_event_def auditAllResourcesAndSendData_def)
  moreover have "opa_inv tmpl a1" using assms(1) opa_inv_same [OF a1(2)] by blast
  moreover have "\<forall>x \<in> set burst. audited env x \<longrightarrow> cache_current env [] a1 x" using a1(3) assms(8) by blast
  ultimately show ?thesis
    using burst_silent [where k = 0 and listed = listed' and xs = burst and chs = chs, OF assms(2) assms(4) _ a1(2)] a1(3) by blast
qed

theorem full_audit_silences_burst_witness:
  "\<exists>a1 sent a2. handle_event demo_core [[demo_entity]] (\<lambda>_. ([''c''], \<lambda>_. [])) (demo_auditor, False) EntitiesSync = Some ((a1, True), sent) \<and>
    entity_changes demo_core [] (\<lambda>_ _. ([''c''], \<lambda>_. [])) 0 [demo_entity, demo_entity] (a1, True) = Some ((a2, True), [[], []])"
proof -
  have ok: "choices_ok demo_auditor [] (\<lambda>_. ([''c''], \<lambda>_. []))" by (simp add: choices_ok_def range_order_def getConstraints_def)
  have "\<exists>a1 sent a2. handle_event demo_core [[demo_entity]] (\<lambda>_. ([''c''], \<lambda>_. [])) (demo_auditor, False) EntitiesSync = Some ((a1, True), sent) \<and>
      (\<forall>x \<in> set (concat [[demo_entity]]). audited demo_core x \<longrightarrow> cache_current demo_core [] a1 x) \<and>
      entity_changes demo_core [] (\<lambda>_ _. ([''c''], \<lambda>_. [])) 0 [demo_entity, demo_entity] (a1, True) =
        Some ((a2, True), replicate (length [demo_entity, demo_entity]) [])"
    by (rule full_audit_silences_burst [OF opa_inv_demo string_msgs_demo ok ok]) simp_all
  then show ?thesis by (auto simp: numeral_2_eq_2)
qed

end
