(* ===== verification/Auditor_Race.thy ===== *)
theory Auditor_Race
  imports Auditor_Loop
begin

text \<open>
  \<open>UpdateConstraint\<close> of \<open>auditor/opa-auditor/opa-auditor.go\<close> as its two writes. The method runs in the goroutine
  of the listener for constraints, the audit worker in its own, and no lock protects the maps they share, so a
  round of the worker may come between the write of the constraint and the write of its template.
\<close>

subsection \<open>The two writes\<close>

text \<open>The first half: what is read, and the write of the constraint. \<open>None\<close>: nothing to do.\<close>

definition UpdateConstraint_first :: "('pol, 'par) OpaAuditor \<Rightarrow> 'par AgentConstraint \<Rightarrow> ('pol, 'par) OpaAuditor option" where
  "UpdateConstraint_first a c =
     (case fmlookup (oa_constraints a) (ac_Id c) of
        None \<Rightarrow> Some (add_constraint c a)
      | Some old \<Rightarrow> if ac_UpdatedAt c > co_UpdatedAt old then Some (add_constraint c a) else None)"

text \<open>The second half, with the two lookups made before: the write of the template into the state it finds.\<close>

definition UpdateConstraint_second :: "('pol, 'par, 'obj, 'v) opa_core \<Rightarrow> bool \<Rightarrow> 'pol Template option \<Rightarrow> 'par AgentConstraint \<Rightarrow>
    ('pol, 'par) OpaAuditor \<Rightarrow> (('pol, 'par) OpaAuditor \<times> (string + bool)) option" where
  "UpdateConstraint_second env cFound t c a1 =
     (let tId = ac_TemplateId c in
      if \<not> cFound \<and> t \<noteq> None
      then Some (set_template tId ((the t)\<lparr>tp_UsageCount := wrap64 (tp_UsageCount (the t) + 1)\<rparr>) a1, Inr True)
      else
        (case opa_Parse env (ac_Code c) PolicyQuery of
           Inl err \<Rightarrow> Some (a1, Inl err)
         | Inr policy \<Rightarrow>
             if \<not> cFound then Some (set_template tId (stored_template c policy 1) a1, Inr True)
             else (case t of
                 None \<Rightarrow> None
               | Some t' \<Rightarrow> Some (set_template tId (stored_template c policy (tp_UsageCount t')) a1, Inr True))))"

lemma UpdateConstraint_splits:
  "UpdateConstraint env a c =
     (case UpdateConstraint_first a c of
        None \<Rightarrow> Some (a, Inr False)
      | Some a1 \<Rightarrow> UpdateConstraint_second env (fmlookup (oa_constraints a) (ac_Id c) \<noteq> None) (fmlookup (oa_templates a) (ac_TemplateId c)) c a1)"
  by (auto simp: UpdateConstraint_def UpdateConstraint_first_def UpdateConstraint_second_def Let_def split: option.splits sum.splits)

subsection \<open>A round in between\<close>

lemma constraint_without_template_panics:
  assumes "fmlookup (oa_constraints a) cid = Some c" "fmlookup (oa_templates a) (co_TemplateId c) = None"
    and "choices_ok a [] ch" "matchEntity resource (co_Match c)" "un_OwnerReferences resource = []"
    and "\<forall>p. ew_GetParents env (un_Namespace resource) (un_Kind resource) (un_Name resource) = Some (Some p) \<longrightarrow>
      un_Kind resource \<noteq> ''Pod'' \<and> un_Kind resource \<noteq> ''ReplicaSet''"
  shows "handle_event env listed ch (a, True) (EntityChange resource) = None"
proof -
  let ?cs = "List.map_filter (fmlookup (getConstraints [] (oa_constraints a))) (fst (ch 0))"
  obtain pn pk where unf: "Audit env a resource [] ''entity-change'' (fst (ch 0)) (snd (ch 0)) =
      audit_loop env a resource ''entity-change'' pn pk (snd (ch 0)) ?cs [] []" using audit_unfold [OF assms(5,6)] by blast
  have "fmlookup (getConstraints [] (oa_constraints a)) cid = Some c" using assms(1) by (simp add: getConstraints_def)
  moreover from this have "cid \<in> set (fst (ch 0))"
    using assms(3) by (auto simp: choices_ok_def range_order_def fmlookup_dom'_iff)
  ultimately have "c \<in> set ?cs" by (auto simp: set_map_filter_iff)
  then have "audit_loop env a resource ''entity-change'' pn pk (snd (ch 0)) ?cs [] [] = None"
    using assms(4) by (rule audit_loop_panics) (simp add: audit_constraint_def assms(2))
  then show ?thesis using unf by (simp add: handle_event_def auditResource_def)
qed

subsection \<open>Properties\<close>

text \<open>C27: A constraint with a new template is added in two writes, and between them the worker must not run: before
  the update every change of an entity is handled and after it too, but in the state in between a change of any
  ownerless entity that matches the new constraint panics, whatever the order in which the worker visits the
  constraints.\<close>

theorem audit_between_writes_panics:
  assumes "opa_inv tmpl a" and "string_msgs env" and "good_batch env tmpl [c]" and "int (GetConstraintsSize a + 1) < 2 ^ 63"
    and "ac_DeletedAt c = None" and "fmlookup (oa_constraints a) (ac_Id c) = None" and "fmlookup (oa_templates a) (ac_TemplateId c) = None"
    and "matchEntity resource (ac_Match c)" and "un_OwnerReferences resource = []"
    and "\<forall>p. ew_GetParents env (un_Namespace resource) (un_Kind resource) (un_Name resource) = Some (Some p) \<longrightarrow>
      un_Kind resource \<noteq> ''Pod'' \<and> un_Kind resource \<noteq> ''ReplicaSet''"
  shows "\<exists>a1 a2. UpdateConstraint_first a c = Some a1 \<and> UpdateConstraint_second env False None c a1 = Some (a2, Inr True) \<and>
    UpdateConstraint env a c = Some (a2, Inr True) \<and>
    (\<forall>ch. choices_ok a [] ch \<longrightarrow> handle_event env listed ch (a, True) (EntityChange resource) \<noteq> None) \<and>
    (\<forall>ch. choices_ok a1 [] ch \<longrightarrow> handle_event env listed ch (a1, True) (EntityChange resource) = None) \<and>
    (\<forall>ch. choices_ok a2 [] ch \<longrightarrow> handle_event env listed ch (a2, True) (EntityChange resource) \<noteq> None)"
proof -
  let ?a1 = "add_constraint c a"
  obtain policy where pol: "opa_Parse env (ac_Code c) PolicyQuery = Inr policy"
    using assms(3,5) by (auto simp: good_batch_def)
  let ?a2 = "set_template (ac_TemplateId c) (stored_template c policy 1) ?a1"
  have first: "UpdateConstraint_first a c = Some ?a1" using assms(6) by (simp add: UpdateConstraint_first_def)
  have second: "UpdateConstraint_second env False None c ?a1 = Some (?a2, Inr True)"
    using pol by (simp add: UpdateConstraint_second_def Let_def)
  have all: "UpdateConstraint env a c = Some (?a2, Inr True)" using UpdateConstraint_splits [of env a c] first second assms(6,7) by simp
  obtain a3 where a3: "UpdateConstraints env a [c] = Some a3" "opa_inv tmpl (fst a3)"
    using UpdateConstraints_loop_ok [OF assms(1,3), of "[]" fmempty] assms(4) by (auto simp: UpdateConstraints_def)
  have "same_policies ?a2 (fst a3)" using a3(1) all assms(5) by (auto simp: UpdateConstraints_def same_policies_def)
  then have "opa_inv tmpl ?a2" using a3(2) opa_inv_same by blast
  then have after: "handle_event env listed ch (?a2, True) (EntityChange resource) \<noteq> None" if "choices_ok ?a2 [] ch" for ch
    using handle_event_total [OF _ assms(2), of tmpl ?a2 "EntityChange resource" ch listed True] that by auto
  have before: "handle_event env listed ch (a, True) (EntityChange resource) \<noteq> None" if "choices_ok a [] ch" for ch
    using handle_event_total [OF assms(1,2), of "EntityChange resource" ch listed True] that by auto
  have "handle_event env listed ch (?a1, True) (EntityChange resource) = None" if "choices_ok ?a1 [] ch" for ch
    by (rule constraint_without_template_panics [OF _ _ that _ assms(9,10), where cid = "ac_Id c" and c = "stored_constraint c"])
      (use assms(7,8) in \<open>simp_all add: add_constraint_def stored_constraint_def\<close>)
  then show ?thesis using first second all before after by blast
qed

theorem audit_between_writes_panics_witness:
  "\<exists>a1. UpdateConstraint_first demo_auditor (demo_constraint ''d'' ''u'' ''deny'' 2) = Some a1 \<and>
    handle_event demo_core [] (\<lambda>_. ([''c'', ''d''], \<lambda>_. [])) (a1, True) (EntityChange demo_entity) = None"
proof -
  let ?c = "demo_constraint ''d'' ''u'' ''deny'' 2" and ?tmpl = "\<lambda>cid. if cid = ''d'' then ''u'' else ''t''"
  have inv: "opa_inv ?tmpl demo_auditor" using opa_inv_demo by (simp add: opa_inv_def split: if_splits)
  have c: "ac_DeletedAt ?c = None" "good_batch demo_core ?tmpl [?c]" "int (GetConstraintsSize demo_auditor + 1) < 2 ^ 63"
    "fmlookup (oa_constraints demo_auditor) (ac_Id ?c) = None" "fmlookup (oa_templates demo_auditor) (ac_TemplateId ?c) = None"
    by (simp_all add: good_batch_def demo_constraint_def demo_core_def GetConstraintsSize_def fcard.rep_eq demo_auditor_def set_template_def
        add_constraint_def opa_New_def)
  have m: "matchEntity demo_entity (ac_Match ?c)" "un_OwnerReferences demo_entity = []"
    "\<forall>p. ew_GetParents demo_core (un_Namespace demo_entity) (un_Kind demo_entity) (un_Name demo_entity) = Some (Some p) \<longrightarrow>
      un_Kind demo_entity \<noteq> ''Pod'' \<and> un_Kind demo_entity \<noteq> ''ReplicaSet''"
    by (simp_all add: demo_audit_defs matchEntity_def)
  obtain a1 where a1: "UpdateConstraint_first demo_auditor ?c = Some a1"
    "\<forall>ch. choices_ok a1 [] ch \<longrightarrow> handle_event demo_core [] ch (a1, True) (EntityChange demo_entity) = None"
    using audit_between_writes_panics [OF inv string_msgs_demo c(2,3,1,4,5) m, of "[]"] by blast
  have "choices_ok a1 [] (\<lambda>_. ([''c'', ''d''], \<lambda>_. []))"
    using a1(1) c(4) by (auto simp: UpdateConstraint_first_def choices_ok_def range_order_def getConstraints_def add_constraint_def demo_constraint_def)
  then show ?thesis using a1 by blast
qed

end
