(* ===== verification/Auditor_Worker.thy ===== *)
theory Auditor_Worker
  imports Agent_Flow
begin

text \<open>
  The audit worker of \<open>auditor/auditor.go\<close> as a whole: \<open>NewAuditor\<close>, \<open>SetAuditResultHandler\<close> and the loop of
  \<open>Start\<close> over everything its \<open>select\<close> receives, until the context is done.

  The handler for results may be nil until it is set; it acts on a state \<open>'s\<close>, and its error is only logged.
  With each event come the entities that the watcher lists at that moment and the choices of \<open>Auditor_Loop\<close>.
\<close>

subsection \<open>Construction\<close>

type_synonym ('obj, 's) AuditResultHandler = "'obj AuditResult list \<Rightarrow> 's \<Rightarrow> 's \<times> string option"

record ('pol, 'par, 'obj, 's) Auditor =
  au_opa :: "('pol, 'par) OpaAuditor"
  au_sendAuditResult :: "('obj, 's) AuditResultHandler option"

text \<open>The new auditor \<open>h\<close> registers itself with the watcher.\<close>

definition NewAuditor :: "'h \<Rightarrow> ('h, 'obj) EntitiesWatcher \<Rightarrow> ('pol, 'par, 'obj, 's) Auditor \<times> ('h, 'obj) EntitiesWatcher" where
  "NewAuditor h ew = (\<lparr>au_opa = opa_New, au_sendAuditResult = None\<rparr>, AddResourceEventsHandler h ew)"

definition auditor_SetAuditResultHandler :: "('obj, 's) AuditResultHandler \<Rightarrow> ('pol, 'par, 'obj, 's) Auditor \<Rightarrow> ('pol, 'par, 'obj, 's) Auditor" where
  "auditor_SetAuditResultHandler handler a = a\<lparr>au_sendAuditResult := Some handler\<rparr>"

subsection \<open>The loop\<close>

datatype 'obj select_input = GotEvent "'obj Unstructured list list" choices "'obj AuditEvent" | CtxCancelled

text \<open>The calls of the handler that a round makes; a nil handler panics at the first call.\<close>

fun call_handler :: "('obj, 's) AuditResultHandler option \<Rightarrow> 'obj AuditResult list list \<Rightarrow> 's \<Rightarrow> 's option" where
  "call_handler handler [] st = Some st"
| "call_handler handler (results # rest) st = do {
     h \<leftarrow> handler;
     call_handler handler rest (fst (h results st)) }"

text \<open>The state of the loop is the policy auditor and the local variable \<open>entitiesSynced\<close>; the last component
  of the result says whether the loop returned.\<close>

fun auditor_loop :: "('pol, 'par, 'obj, 'v) opa_core \<Rightarrow> ('obj, 's) AuditResultHandler option \<Rightarrow> 'obj select_input list \<Rightarrow>
    ('pol, 'par) OpaAuditor \<times> bool \<Rightarrow> 's \<Rightarrow> ((('pol, 'par) OpaAuditor \<times> bool) \<times> 's \<times> bool) option" where
  "auditor_loop env handler [] a st = Some (a, st, False)"
| "auditor_loop env handler (CtxCancelled # inputs) a st = Some (a, st, True)"
| "auditor_loop env handler (GotEvent listed ch e # inputs) a st = do {
     (a1, sent) \<leftarrow> handle_event env listed ch a e;
     st1 \<leftarrow> call_handler handler sent st;
     auditor_loop env handler inputs a1 st1 }"

definition auditor_worker :: "('pol, 'par, 'obj, 'v) opa_core \<Rightarrow> 'obj select_input list \<Rightarrow> ('pol, 'par, 'obj, 's) Auditor \<Rightarrow> 's \<Rightarrow>
    (('pol, 'par, 'obj, 's) Auditor \<times> 's \<times> bool) option" where
  "auditor_worker env inputs a st = do {
     ((opa, synced), st', returned) \<leftarrow> auditor_loop env (au_sendAuditResult a) inputs (au_opa a, False) st;
     Some (a\<lparr>au_opa := opa\<rparr>, st', returned) }"

subsection \<open>Lemmas\<close>

lemma NewAuditor_registers: "NewAuditor h ew = (a, ew') \<Longrightarrow> set (ew_handlers ew') = insert h (set (ew_handlers ew)) \<and> au_sendAuditResult a = None"
  by (auto simp: NewAuditor_def AddResourceEventsHandler_def)

text \<open>With the handler of the agent the calls put the results into the channel, in order.\<close>

lemma call_handler_agent: "call_handler (Some (handleAuditResult SendAuditResults)) sent ch = Some (send_all sent ch)"
  by (induction sent arbitrary: ch) auto

lemma call_handler_nil: "call_handler None sent st = (if sent = [] then Some st else None)"
  by (cases sent) auto

text \<open>The rounds of the events up to a cancellation, and what they send.\<close>

fun before_cancel :: "'obj select_input list \<Rightarrow> 'obj select_input list" where
  "before_cancel [] = []"
| "before_cancel (CtxCancelled # inputs) = []"
| "before_cancel (GotEvent listed ch e # inputs) = GotEvent listed ch e # before_cancel inputs"

lemma auditor_loop_before_cancel:
  "auditor_loop env handler inputs a st =
     map_option (\<lambda>(a', st', _). (a', st', CtxCancelled \<in> set inputs)) (auditor_loop env handler (before_cancel inputs) a st)"
proof (induction inputs arbitrary: a st rule: before_cancel.induct)
  case (3 listed ch e inputs)
  show ?case by (simp add: 3 split: Option.bind_splits)
qed simp_all

text \<open>As long as the iteration orders are possible ones, the loop neither panics nor stops by itself.\<close>

fun inputs_ok :: "('pol, 'par) OpaAuditor \<Rightarrow> 'obj select_input list \<Rightarrow> bool" where
  "inputs_ok a [] = True"
| "inputs_ok a (CtxCancelled # inputs) = True"
| "inputs_ok a (GotEvent listed ch e # inputs) = (choices_ok a (event_ids e) ch \<and> inputs_ok a inputs)"

lemma inputs_same: "same_policies a a' \<Longrightarrow> inputs_ok a' inputs = inputs_ok a inputs"
  by (induction inputs rule: before_cancel.induct) (auto simp: choices_same)

lemma auditor_loop_total:
  assumes "string_msgs env"
  shows "opa_inv tmpl a \<Longrightarrow> inputs_ok a inputs \<Longrightarrow>
    \<exists>a' b' new. auditor_loop env (Some (handleAuditResult SendAuditResults)) inputs (a, b) st = Some ((a', b'), st @ new, CtxCancelled \<in> set inputs) \<and>
      same_policies a a'"
proof (induction inputs arbitrary: a b st rule: before_cancel.induct)
  case (3 listed ch e inputs)
  have ch: "choices_ok a (event_ids e) ch" using 3(3) by simp
  from handle_event_total [OF 3(2) assms ch, of listed b] obtain a1 b1 sent where
    1: "handle_event env listed ch (a, b) e = Some ((a1, b1), sent)" "same_policies a a1" by blast
  have "opa_inv tmpl a1" "inputs_ok a1 inputs" using 3(2,3) opa_inv_same [OF 1(2)] inputs_same [OF 1(2)] by auto
  from 3(1) [OF this, of b1 "st @ concat sent"] obtain a' b' new where
    "auditor_loop env (Some (handleAuditResult SendAuditResults)) inputs (a1, b1) (st @ concat sent) =
      Some ((a', b'), (st @ concat sent) @ new, CtxCancelled \<in> set inputs)" "same_policies a1 a'" by blast
  then show ?case using 1 same_policies_trans [OF 1(2)] by (auto simp: call_handler_agent send_all_concat)
qed auto

text \<open>Without a handler the first round that audits an entity panics.\<close>

lemma nil_handler_panics:
  "handle_event env listed ch (opa, False) e = Some (a1, results # sent) \<Longrightarrow> au_sendAuditResult a = None \<Longrightarrow> au_opa a = opa \<Longrightarrow>
    auditor_worker env (GotEvent listed ch e # inputs) a st = None"
  by (simp add: auditor_worker_def)

end
