(* ===== verification/Client_Connect.thy ===== *)
theory Client_Connect
  imports Client_Session Gateway_Pipe
begin

text \<open>
  \<open>Connect\<close> of \<open>client/connect.go\<close> and \<open>PipeStatus\<close> of \<open>client/client.go\<close>: the pipes get their workers, the
  hooks are set, the listener and a group of two goroutines are started, and \<open>Connect\<close> waits for the group.

  The group holds the goroutine of \<open>sign.Notify\<close>, which runs a callback for each SIGHUP until the callback
  returns false, and the watchdog, which ends with the context. \<open>connect_event\<close> is what reaches one of them;
  the outcome of the wait in a ping is in the event, as in \<open>Client_Session\<close>.
\<close>

subsection \<open>Starting\<close>

record 'd connection =
  cn_pipe :: "'d Pipe"
  cn_pipeStatus :: "'d Pipe"
  cn_hooks :: bool
  cn_listening :: bool

text \<open>The client as \<open>newClient\<close> leaves it: two pipes without workers.\<close>

definition new_connection :: "'d mem \<Rightarrow> 'd mem \<Rightarrow> 'd connection option" where
  "new_connection m m' = do {
     pipe \<leftarrow> NewPipe m;
     pipeStatus \<leftarrow> NewPipe m';
     Some \<lparr>cn_pipe = pipe, cn_pipeStatus = pipeStatus, cn_hooks = False, cn_listening = False\<rparr> }"

definition Connect_start :: "'d connection \<Rightarrow> 'd connection" where
  "Connect_start c = c\<lparr>cn_hooks := True, cn_listening := True, cn_pipe := pipe_Start (cn_pipe c) 10,
     cn_pipeStatus := pipe_Start (cn_pipeStatus c) 1\<rparr>"

text \<open>The number of dropped packages is only logged.\<close>

definition PipeStatus :: "go_time \<Rightarrow> go_time \<Rightarrow> 'd Package \<Rightarrow> 'd connection \<Rightarrow> 'd connection option" where
  "PipeStatus t now pack c = do {
     (p, i) \<leftarrow> pipe_Send t now pack (cn_pipeStatus c);
     Some (c\<lparr>cn_pipeStatus := p\<rparr>) }"

subsection \<open>Waiting\<close>

datatype connect_event = SIGHUP bool | WatchdogTicks bool | ContextDone

record 'w group =
  gr_client :: "Client \<times> 'w"
  gr_notify :: bool
  gr_watchdog :: bool

definition Connect_group :: "Client \<times> 'w \<Rightarrow> 'w group" where
  "Connect_group st = \<lparr>gr_client = st, gr_notify = True, gr_watchdog = True\<rparr>"

text \<open>The callback, with the value it returns. The ping loop makes at most \<open>2^63 - 1\<close> attempts.\<close>

definition sighup_callback :: "'w remote \<Rightarrow> bool \<Rightarrow> Client \<times> 'w \<Rightarrow> (Client \<times> 'w) \<times> bool" where
  "sighup_callback net connection st =
     (case on_SIGHUP net connection st of Inr (st', _, _) \<Rightarrow> (st', True) | Inl _ \<Rightarrow> (st, True))"

fun group_step :: "'w remote \<Rightarrow> connect_event \<Rightarrow> 'w group \<Rightarrow> 'w group" where
  "group_step net (SIGHUP connection) g =
     (if gr_notify g then
        (case sighup_callback net connection (gr_client g) of (st, continue) \<Rightarrow> g\<lparr>gr_client := st, gr_notify := continue\<rparr>)
      else g)"
| "group_step net (WatchdogTicks connection) g =
     (if gr_watchdog g then g\<lparr>gr_client := fst (StartWatchdog net [WatchdogTick connection] (gr_client g))\<rparr> else g)"
| "group_step net ContextDone g =
     (if gr_watchdog g then g\<lparr>gr_watchdog := \<not> snd (StartWatchdog net [WatchdogDone] (gr_client g))\<rparr> else g)"

definition group_run :: "'w remote \<Rightarrow> connect_event list \<Rightarrow> 'w group \<Rightarrow> 'w group" where
  "group_run net es g = fold (group_step net) es g"

text \<open>\<open>eg.Wait()\<close> returns when both goroutines have.\<close>

definition Connect_returned :: "'w group \<Rightarrow> bool" where
  "Connect_returned g \<longleftrightarrow> \<not> gr_notify g \<and> \<not> gr_watchdog g"

subsection \<open>Lemmas\<close>

lemma group_step_notify: "gr_notify g \<Longrightarrow> gr_notify (group_step net e g)"
  by (cases e) (auto simp: sighup_callback_def split: sum.splits prod.splits)

lemma group_step_watchdog: "gr_watchdog (group_step net e g) \<longleftrightarrow> gr_watchdog g \<and> e \<noteq> ContextDone"
  by (cases e) (auto simp: sighup_callback_def split: sum.splits prod.splits)

lemma group_run_notify: "gr_notify g \<Longrightarrow> gr_notify (group_run net es g)"
  by (induction es arbitrary: g) (auto simp: group_run_def group_step_notify)

lemma group_run_watchdog: "gr_watchdog (group_run net es g) \<longleftrightarrow> gr_watchdog g \<and> ContextDone \<notin> set es"
  by (induction es arbitrary: g) (auto simp: group_run_def group_step_watchdog)

text \<open>The status pipe works without a panic, with drops ignored.\<close>

lemma PipeStatus_total: "pipe_inv n (cn_pipeStatus c) \<Longrightarrow> \<exists>c'. PipeStatus t now pack c = Some c' \<and> pipe_inv n (cn_pipeStatus c')"
  using pipe_Send_total [of n "cn_pipeStatus c" t now pack] by (auto simp: PipeStatus_def)

subsection \<open>Properties\<close>

text \<open>\<open>Connect\<close> gives the main pipe ten workers and the status pipe one, so that the first can never strand
  a package while the second can; and it does not return: whatever signals, ticks and cancellations occur, the
  watchdog ends with the context but the goroutine that waits for signals never does.\<close>

theorem Connect_starts_and_stays:
  assumes "new_connection m m' = Some c"
  shows "pipe_reach 10 (cn_pipe (Connect_start c)) \<and> pipe_reach 1 (cn_pipeStatus (Connect_start c)) \<and>
    (gr_watchdog (group_run net es (Connect_group st)) \<longleftrightarrow> ContextDone \<notin> set es) \<and>
    \<not> Connect_returned (group_run net es (Connect_group st))"
proof -
  obtain p p' where "NewPipe m = Some p" "NewPipe m' = Some p'" "cn_pipe c = p" "cn_pipeStatus c = p'"
    using assms by (auto simp: new_connection_def split: Option.bind_splits)
  then have "pipe_reach 10 (cn_pipe (Connect_start c)) \<and> pipe_reach 1 (cn_pipeStatus (Connect_start c))"
    using pipe_reach.start by (auto simp: Connect_start_def)
  then show ?thesis
    using group_run_notify [of "Connect_group st" net es] group_run_watchdog [of net es "Connect_group st"]
    by (auto simp: Connect_returned_def Connect_group_def)
qed

theorem Connect_starts_and_stays_witness:
  "\<exists>c. new_connection demo_mem demo_mem = Some c \<and> pipe_reach 10 (cn_pipe (Connect_start c)) \<and>
    \<not> Connect_returned (group_run (demo_remote 1024) [SIGHUP True, ContextDone, SIGHUP True] (Connect_group (demo_client, [])))"
proof -
  obtain c where c: "new_connection demo_mem demo_mem = Some c"
    by (simp add: new_connection_def NewPipe_def NewDefaultPipeStore_empty)
  from Connect_starts_and_stays [OF this] show ?thesis using c by blast
qed

end
