(* ===== verification/Pipe_Drain.thy ===== *)
theory Pipe_Drain
  imports Pipe_Workers Draining
begin

text \<open>
  What becomes of the packages of \<open>client/pipe.go\<close> when the server accepts what it is sent: \<open>pipe_work\<close> are the
  steps of the workers and the outstanding broadcasts, without new calls of \<open>Send\<close> and without failing sends.
  The pipe is an instance of \<open>draining\<close>: these steps come to an end with all workers asleep. \<open>timely_work T\<close> are
  those in which every package is popped by time \<open>T\<close>. The store hands out a package that has expired too, and
  counts it as dropped; a package that expires no earlier than \<open>T\<close> is popped in time.
\<close>

definition delivering :: "'d pipe_event \<Rightarrow> bool" where
  "delivering e = (case e of SendAdd t now pack \<Rightarrow> False | SendErr i t0 now \<Rightarrow> False | _ \<Rightarrow> True)"

definition pipe_work :: "'d Pipe \<Rightarrow> 'd Pipe \<Rightarrow> bool" where
  "pipe_work p p' \<longleftrightarrow> (\<exists>e. delivering e \<and> enabled p e \<and> exec_event p e = Some p')"

definition timely_work :: "go_time \<Rightarrow> 'd Pipe \<Rightarrow> 'd Pipe \<Rightarrow> bool" where
  "timely_work T p p' \<longleftrightarrow> (\<exists>e. delivering e \<and> (\<forall>i now. e = Pop i now \<longrightarrow> now \<le> T) \<and> enabled p e \<and> exec_event p e = Some p')"

definition unexpired :: "go_time \<Rightarrow> 'd Pipe \<Rightarrow> bool" where
  "unexpired T p \<longleftrightarrow> (\<forall>a \<in> pending (pi_storage p). \<not> time_expired T (st_mem (pi_storage p) a))"

definition asleep :: "'d Pipe \<Rightarrow> bool" where
  "asleep p \<longleftrightarrow> set (pi_workers p) \<subseteq> {Waiting} \<and> pi_casts p = 0"

subsection \<open>The order\<close>

text \<open>How far a worker is from sleep.\<close>

fun awakeness :: "worker_pc \<Rightarrow> nat" where
  "awakeness Waiting = 0"
| "awakeness GotNil = 1"
| "awakeness Locked = 2"
| "awakeness AtLock = 3"
| "awakeness Relocked = 4"
| "awakeness Woken = 5"
| "awakeness (Sending a) = 4"
| "awakeness (Got a) = 5"

definition total_awakeness :: "'d Pipe \<Rightarrow> nat" where
  "total_awakeness p = sum_list (map awakeness (pi_workers p))"

definition pipe_order :: "('d Pipe \<times> 'd Pipe) set" where
  "pipe_order = measures [pi_casts, \<lambda>p. card (pending (pi_storage p)), total_awakeness]"

lemma wf_pipe_order: "wf pipe_order"
  by (simp add: pipe_order_def)

lemma total_awakeness_less:
  assumes "i < length (pi_workers p)" "awakeness pc < awakeness (pi_workers p ! i)"
  shows "total_awakeness (set_worker p i pc) < total_awakeness p"
proof -
  have "pi_workers p = take i (pi_workers p) @ pi_workers p ! i # drop (Suc i) (pi_workers p)"
    using assms(1) by (rule id_take_nth_drop)
  then have "total_awakeness p = sum_list (map awakeness (take i (pi_workers p))) + awakeness (pi_workers p ! i) +
      sum_list (map awakeness (drop (Suc i) (pi_workers p)))"
    unfolding total_awakeness_def by (metis (no_types, lifting) list.simps(9) map_append sum_list.Cons sum_list.append add.assoc)
  then show ?thesis using assms by (simp add: total_awakeness_def upd_conv_take_nth_drop)
qed

lemma total_awakeness_simps [simp]:
  "total_awakeness (p\<lparr>pi_lock := l\<rparr>) = total_awakeness p" "total_awakeness (p\<lparr>pi_storage := s\<rparr>) = total_awakeness p"
  "total_awakeness (p\<lparr>pi_sent := x\<rparr>) = total_awakeness p"
  by (simp_all add: total_awakeness_def)

lemma Pop_pending:
  assumes "store_inv s" "store_Pop now s = Some (s', r)"
  shows "pending s' = pending s - set_option r" "set_option r \<subseteq> pending s"
proof -
  have "pending s' = pending s - set_option r \<and> set_option r \<subseteq> pending s"
  proof (cases r)
    case None
    then have "view s' = view s" "store_inv s'" using ps.Pop_None_pend [OF assms(1)] assms(2) by blast+
    then have "pending s' = pending s" using assms(1) by (metis pend_view)
    then show ?thesis using None by simp
  next
    case (Some a)
    then show ?thesis using ps.Pop_pend(1-3) [OF assms(1), of now s' a] assms by simp
  qed
  then show "pending s' = pending s - set_option r" "set_option r \<subseteq> pending s" by blast+
qed

text \<open>A step of one worker that touches neither the store nor the broadcasts brings it closer to sleep.\<close>

lemma pipe_orderI:
  assumes "at_pc p i pc" "awakeness pc' < awakeness pc" "pi_workers p' = (pi_workers p)[i := pc']"
    "pi_casts p' = pi_casts p" "pi_storage p' = pi_storage p"
  shows "(p', p) \<in> pipe_order"
proof -
  have "total_awakeness (set_worker p i pc') < total_awakeness p"
    using assms(1,2) by (intro total_awakeness_less) (auto simp: at_pc_def)
  then show ?thesis using assms(3-5) by (simp add: pipe_order_def total_awakeness_def)
qed

lemma pipe_work_order:
  assumes "pipe_inv n p" "pipe_work p p'"
  shows "(p', p) \<in> pipe_order"
proof -
  obtain e where e: "delivering e" "enabled p e" "exec_event p e = Some p'" using assms(2) by (auto simp: pipe_work_def)
  show ?thesis
  proof (cases e)
    case (Pop i now)
    then obtain st r where r: "store_Pop now (pi_storage p) = Some (st, r)"
      and p': "p' = (set_worker p i (case r of None \<Rightarrow> GotNil | Some a \<Rightarrow> Got a))\<lparr>pi_storage := st\<rparr>"
      using e(3) by (auto split: Option.bind_splits)
    have pend: "pending st = pending (pi_storage p) - set_option r" "set_option r \<subseteq> pending (pi_storage p)"
      using Pop_pending [OF _ r] assms(1) by (auto simp: pipe_inv_def)
    show ?thesis
    proof (cases r)
      case None
      then have "total_awakeness (set_worker p i GotNil) < total_awakeness p"
        using Pop e(2) by (intro total_awakeness_less) (auto simp: at_pc_def)
      then show ?thesis using pend p' None by (simp add: pipe_order_def total_awakeness_def)
    next
      case (Some a)
      then have "card (pending st) < card (pending (pi_storage p))" using pend by (simp add: card_Diff1_less del: card_Diff_insert)
      then show ?thesis using p' by (simp add: pipe_order_def)
    qed
  next
    case (Lock i)
    then have "at_pc p i (pi_workers p ! i)" "pi_workers p ! i = AtLock \<or> pi_workers p ! i = Woken" using e(2) by (auto simp: at_pc_def)
    then show ?thesis
      using Lock e(3) by (intro pipe_orderI [of p i "pi_workers p ! i" "if at_pc p i AtLock then Locked else Relocked"]) (auto simp: at_pc_def)
  next
    case (Unlock i)
    then obtain pc where "at_pc p i pc" "pc = Relocked \<or> (\<exists>a. pc = Got a)" using e(2) by auto
    then show ?thesis
      using Unlock e(3) by (intro pipe_orderI [of p i pc "case pc of Got a \<Rightarrow> Sending a | _ \<Rightarrow> AtLock"]) (auto simp: at_pc_def)
  next
    case (SendOk i)
    then obtain a where "at_pc p i (Sending a)" using e(2) by auto
    then show ?thesis using SendOk e(3) by (intro pipe_orderI [of p i "Sending a" AtLock]) (auto simp: at_pc_def)
  next
    case (Wait i)
    then show ?thesis using e(2,3) by (intro pipe_orderI [of p i GotNil Waiting]) auto
  qed (use e in \<open>auto simp: delivering_def pipe_order_def\<close>)
qed

subsection \<open>The pipe drains\<close>

lemma pipe_work_inv: "pipe_inv n p \<Longrightarrow> pipe_work p p' \<Longrightarrow> pipe_inv n p'"
  using exec_event_inv by (fastforce simp: pipe_work_def)

lemma timely_work_progress:
  assumes "pipe_inv n p" "\<not> asleep p"
  shows "\<exists>p'. timely_work T p p'"
proof -
  have ex: "\<exists>p'. timely_work T p p'" if "delivering e" "\<forall>i now. e = Pop i now \<longrightarrow> now \<le> T" "enabled p e" for e
    using that exec_event_inv [OF assms(1), of e] by (auto simp: timely_work_def)
  show ?thesis
  proof (cases "pi_casts p = 0")
    case True
    then obtain i where "enabled p (Lock i) \<or> enabled p (Pop i T) \<or> enabled p (Wait i) \<or> enabled p (Unlock i) \<or> enabled p (SendOk i)"
      using worker_can_step [OF assms(1), of T] assms(2) by (auto simp: asleep_def)
    moreover have "delivering (Lock i)" "delivering (Pop i T)" "delivering (Wait i)" "delivering (Unlock i)" "delivering (SendOk i)"
      by (simp_all add: delivering_def)
    ultimately show ?thesis using ex [of "Lock i"] ex [of "Pop i T"] ex [of "Wait i"] ex [of "Unlock i"] ex [of "SendOk i"] by auto
  next
    case False
    then show ?thesis using ex [of SendBroadcast] by (simp add: delivering_def)
  qed
qed

lemma timely_is_work: "timely_work T p p' \<Longrightarrow> pipe_work p p'"
  by (auto simp: timely_work_def pipe_work_def)

lemma pipe_work_progress: "pipe_inv n p \<Longrightarrow> \<not> asleep p \<Longrightarrow> \<exists>p'. pipe_work p p'"
  using timely_work_progress timely_is_work by blast

interpretation pipe_drain: draining pipe_work "pipe_inv n" asleep pipe_order for n
  using pipe_work_inv pipe_work_order wf_pipe_order pipe_work_progress by unfold_locales blast+

text \<open>In time nothing is counted as dropped, and what is left stays unexpired.\<close>

lemma Pop_timely:
  assumes "store_inv s" "\<forall>a \<in> pending s. \<not> time_expired T (st_mem s a)" "now \<le> T" "store_Pop now s = Some (s', r)"
  shows "st_removed s' = st_removed s" "\<forall>a \<in> pending s'. \<not> time_expired T (st_mem s' a)"
proof -
  have pop: "spec_Pop now (view s) r (view s')" "store_inv s'" using ps.Pop [OF assms(1), of now] assms(4) by auto
  have "st_removed s' = st_removed s \<and> (\<forall>a \<in> pending s'. \<not> time_expired T (st_mem s' a))"
  proof (cases r)
    case None
    then have "view s' = view s" using pop(1) by (simp add: spec_Pop_def)
    then have "st_removed s' = st_removed s" "contents s' = contents s" by (auto simp: view_def)
    moreover have "pending s' = pending s" using Pop_pending [OF assms(1,4)] None by simp
    ultimately show ?thesis using assms(2) by (metis time_expired_contents)
  next
    case (Some a)
    have a: "a \<in> pending s" "pending s' = pending s - {a}" using Pop_pending [OF assms(1,4)] Some by auto
    have "\<not> time_expired now (st_mem s a)" using assms(2,3) a(1) by (auto simp: time_expired_def split: option.splits)
    then have v: "view s' = spec_attempt a (spec_remove a (view s))" using pop(1) Some by (simp add: spec_Pop_def spec_expire_def)
    have "sv_removed (view s') = sv_removed (view s)" unfolding v by (simp add: spec_attempt_def spec_remove_def Let_def)
    moreover have "sv_contents (view s') b = sv_contents (view s) b" if "b \<noteq> a" for b using that unfolding v by simp
    ultimately have "st_removed s' = st_removed s" "\<And>b. b \<noteq> a \<Longrightarrow> contents s' b = contents s b" by simp_all
    then show ?thesis using a assms(2) by (metis Diff_iff singletonI time_expired_contents)
  qed
  then show "st_removed s' = st_removed s" "\<forall>a \<in> pending s'. \<not> time_expired T (st_mem s' a)" by blast+
qed

lemma timely_work_keeps:
  assumes "pipe_inv n p" "unexpired T p" "timely_work T p p'"
  shows "unexpired T p'" "st_removed (pi_storage p') = st_removed (pi_storage p)"
proof -
  obtain e where e: "delivering e" "\<forall>i now. e = Pop i now \<longrightarrow> now \<le> T" "exec_event p e = Some p'"
    using assms(3) by (auto simp: timely_work_def)
  have "unexpired T p' \<and> st_removed (pi_storage p') = st_removed (pi_storage p)"
  proof (cases e)
    case (Pop i now)
    then obtain s' r where "store_Pop now (pi_storage p) = Some (s', r)" "pi_storage p' = s'"
      using e(3) by (auto split: Option.bind_splits)
    moreover have "store_inv (pi_storage p)" using assms(1) by (simp add: pipe_inv_def)
    ultimately show ?thesis using Pop_timely [of "pi_storage p" T now] assms(2) e(2) Pop unfolding unexpired_def by blast
  qed (use e assms(2) in \<open>auto simp: delivering_def unexpired_def split: worker_pc.splits\<close>)
  then show "unexpired T p'" "st_removed (pi_storage p') = st_removed (pi_storage p)" by blast+
qed

interpretation timely: draining "timely_work T" "\<lambda>p. pipe_inv n p \<and> unexpired T p" asleep pipe_order for T n
proof unfold_locales
  show "pipe_inv n p' \<and> unexpired T p'" if "pipe_inv n p \<and> unexpired T p" "timely_work T p p'" for p p' :: "'d Pipe"
    using that timely_work_keeps(1) [of n p T p'] pipe_work_inv [OF _ timely_is_work] by blast
qed (use pipe_work_order timely_is_work wf_pipe_order timely_work_progress in blast)+

lemma timely_works:
  "(timely_work T)\<^sup>*\<^sup>* p p' \<Longrightarrow> pipe_inv n p \<Longrightarrow> unexpired T p \<Longrightarrow>
    pipe_work\<^sup>*\<^sup>* p p' \<and> st_removed (pi_storage p') = st_removed (pi_storage p)"
proof (induction rule: rtranclp_induct)
  case (step p1 p2)
  then have "pipe_inv n p1 \<and> unexpired T p1" using timely.steps_inv by blast
  then show ?case using step timely_work_keeps(2) [of n p1 T p2] timely_is_work [OF step(2)] by (auto intro: rtranclp.rtrancl_into_rtrancl)
qed simp

text \<open>What these steps leave alone: no package is added or dropped, and what was sent stays sent.\<close>

lemma pipe_work_keeps:
  assumes "pipe_work p p'"
  shows "pi_next p' = pi_next p \<and> pi_dropped p' = pi_dropped p \<and> (\<exists>new. pi_sent p' = pi_sent p @ new)"
proof -
  obtain e where e: "delivering e" "exec_event p e = Some p'" using assms by (auto simp: pipe_work_def)
  then show ?thesis by (cases e) (auto simp: delivering_def split: Option.bind_splits worker_pc.splits)
qed

lemma pipe_works_keep:
  "pipe_work\<^sup>*\<^sup>* p p' \<Longrightarrow> pi_next p' = pi_next p \<and> pi_dropped p' = pi_dropped p \<and> (\<exists>new. pi_sent p' = pi_sent p @ new)"
proof (induction rule: rtranclp_induct)
  case (step p1 p2)
  then show ?case using pipe_work_keeps [OF step(2)] by fastforce
qed simp

lemma pipe_work_awake: "pipe_inv n p \<Longrightarrow> 2 \<le> n \<Longrightarrow> awake p \<Longrightarrow> pipe_work p p' \<Longrightarrow> awake p'"
  using awake_step by (auto simp: pipe_work_def)

lemma pipe_works_reach: "pipe_work\<^sup>*\<^sup>* p p' \<Longrightarrow> pipe_reach n p \<Longrightarrow> pipe_reach n p'"
  by (induction rule: rtranclp_induct) (auto simp: pipe_work_def intro: pipe_reach.step)

text \<open>A sleeping pipe with two workers or more holds no package.\<close>

lemma asleep_empty:
  assumes "awake p" "asleep p"
  shows "pending (pi_storage p) = {}" "in_flight p = {#}"
proof -
  have all: "pi_workers p ! j = Waiting" if "j < length (pi_workers p)" for j
    using assms(2) that by (auto simp: asleep_def dest!: subsetD [OF _ nth_mem])
  then have "\<not> (\<exists>j < length (pi_workers p). pi_workers p ! j \<notin> {Waiting, GotNil})" by auto
  then show "pending (pi_storage p) = {}" using assms by (auto simp: awake_def asleep_def)
  have "carried pc = []" if "pc \<in> set (pi_workers p)" for pc using assms(2) that by (auto simp: asleep_def)
  then show "in_flight p = {#}" by (auto simp: in_flight_def)
qed

subsection \<open>Properties\<close>

text \<open>C7: A pipe with two workers or more comes to rest when the server accepts what it is sent: from every state
  that senders, workers and failing sends can lead to, the steps of the workers come to an end, whatever their
  order and times. If the packages are popped by a time \<open>T\<close> at which none of the pending ones has expired, they end
  only when every package that was pending or with a worker has been sent, once; the store has dropped none of
  them and counted none as dropped.\<close>

theorem pipe_delivers_all:
  fixes p :: "'d Pipe"
  assumes "pipe_reach n p" and "2 \<le> n" and "\<forall>a \<in> pending (pi_storage p). \<not> time_expired T (st_mem (pi_storage p) a)"
  shows "\<not> (\<exists>run. run 0 = p \<and> (\<forall>i :: nat. pipe_work (run i) (run (Suc i)))) \<and>
    (\<exists>p'. (timely_work T)\<^sup>*\<^sup>* p p' \<and> asleep p') \<and>
    (\<forall>p'. (timely_work T)\<^sup>*\<^sup>* p p' \<and> (\<nexists>p''. timely_work T p' p'') \<longrightarrow>
      mset (pi_sent p') = mset (pi_sent p) + mset_set (pending (pi_storage p)) + in_flight p \<and>
      pi_dropped p' = pi_dropped p \<and> st_removed (pi_storage p') = st_removed (pi_storage p) \<and>
      pending (pi_storage p') = {} \<and> asleep p')"
proof -
  have inv: "pipe_inv n p" "unexpired T p" using pipe_reach_inv [OF assms(1)] assms(3) by (simp_all add: unexpired_def)
  have "mset (pi_sent p') = mset (pi_sent p) + mset_set (pending (pi_storage p)) + in_flight p \<and>
      pi_dropped p' = pi_dropped p \<and> st_removed (pi_storage p') = st_removed (pi_storage p) \<and>
      pending (pi_storage p') = {} \<and> asleep p'"
    if steps: "(timely_work T)\<^sup>*\<^sup>* p p'" and stop: "\<nexists>p''. timely_work T p' p''" for p' :: "'d Pipe"
  proof -
    have run: "pipe_work\<^sup>*\<^sup>* p p'" "st_removed (pi_storage p') = st_removed (pi_storage p)" using timely_works [OF steps inv] by blast+
    have fin: "asleep p'" "pipe_inv n p'" using timely.stops_final [OF conjI [OF inv] steps stop] by auto
    have aw: "awake p'" using awake_reach [OF pipe_works_reach [OF run(1) assms(1)] assms(2)] .
    have "accounted p" "accounted p'" using inv(1) fin(2) by (auto simp: pipe_inv_def)
    then have "mset (pi_sent p') + mset_set (pi_dropped p) =
        mset (pi_sent p) + mset_set (pending (pi_storage p)) + in_flight p + mset_set (pi_dropped p)"
      using pipe_works_keep [OF run(1)] asleep_empty [OF aw fin(1)] by (simp add: accounted_def ac_simps)
    then have "mset (pi_sent p') = mset (pi_sent p) + mset_set (pending (pi_storage p)) + in_flight p" by simp
    then show ?thesis using fin(1) asleep_empty [OF aw fin(1)] pipe_works_keep [OF run(1)] run(2) by simp
  qed
  then show ?thesis using pipe_drain.no_infinite_run [OF inv(1)] timely.reaches_final [OF conjI [OF inv]] by blast
qed

theorem pipe_delivers_all_witness:
  "\<exists>p p' :: unit Pipe. pipe_reach 2 p \<and> 0 \<in> pending (pi_storage p) \<and> (timely_work 5)\<^sup>*\<^sup>* p p' \<and> 0 \<in> set (pi_sent p') \<and> asleep p'"
proof -
  have r0: "pipe_reach 2 (sleepers demo_mem 2 0)" by (rule sleepers_start)
  obtain p where p: "exec_event (sleepers demo_mem 2 0) (SendAdd 1 1 (demo_mem 0)) = Some p" "0 \<in> pending (pi_storage p)"
    "pk_ExpiryTime (st_mem (pi_storage p) 0) = None" "pi_next p = 1" using SendAdd_to_empty [of "sleepers demo_mem 2 0" demo_mem "demo_mem 0"] by (auto simp: sleepers_def)
  have r: "pipe_reach 2 p" using pipe_reach.step [OF r0 _ p(1)] by simp
  have fresh: "\<forall>a \<in> pending (pi_storage p). \<not> time_expired 5 (st_mem (pi_storage p) a)"
  proof
    fix a assume "a \<in> pending (pi_storage p)"
    moreover have "accounted p" using pipe_reach_inv [OF r] by (simp add: pipe_inv_def)
    ultimately have "a = 0" using accounted_parts(2) [of p a] p(4) by simp
    then show "\<not> time_expired 5 (st_mem (pi_storage p) a)" using p(3) by (simp add: time_expired_def)
  qed
  obtain p' where p': "(timely_work 5)\<^sup>*\<^sup>* p p'" "asleep p'" using pipe_delivers_all [OF r _ fresh] by auto
  have "\<nexists>p''. timely_work 5 p' p''"
  proof
    assume "\<exists>p''. timely_work 5 p' p''"
    then obtain e where "delivering e" "enabled p' e" by (auto simp: timely_work_def)
    then show False using p'(2) by (cases e) (auto simp: asleep_def delivering_def at_pc_def dest!: subsetD [OF _ nth_mem])
  qed
  then have "mset (pi_sent p') = mset (pi_sent p) + mset_set (pending (pi_storage p)) + in_flight p"
    using pipe_delivers_all [OF r _ fresh] p'(1) by simp
  then have "0 \<in># mset (pi_sent p')" using p(2) by simp
  then show ?thesis using r p(2) p' by auto
qed

end
