(* ===== verification/Delivery.thy ===== *)
theory Delivery
  imports Audit_Pipeline Gateway_Pipe Pipe_Drain
begin

text \<open>
  The whole path of an audit result: from the events that wait for the audit worker, through its channel and
  the gateway's worker, into the pipe of the client and out to the server.

  The state is a \<open>pipeline\<close> and the \<open>Pipe\<close> of the client. The gateway's worker runs on a sender that hands its
  package to the pipe and remembers it, so that a run of the whole system is a run of \<open>Audit_Pipeline\<close> and one
  of the pipe at the same time. \<open>dv_work\<close> are the steps of the agent's own workers with a server that accepts
  what it is sent, and the gateway's timer when there is something in the buffer; \<open>dv_env\<close> is everything else:
  events, constraints, other users of the pipe, sends that fail.
\<close>

subsection \<open>The system\<close>

definition remembering_sender :: "go_time \<Rightarrow> go_time \<Rightarrow>
    ('obj PacketAuditResultRequest, 'obj PacketAuditResultRequest Package list \<times> ('obj, 'x) payload Pipe) pipe_sender" where
  "remembering_sender t now pack st = (case st of (pkgs, p) \<Rightarrow> do {
     (p', ret) \<leftarrow> audit_sender t now pack p;
     Some ((pkgs @ [pack], p'), ret) })"

type_synonym ('pol, 'par, 'obj, 'x) delivery = "('pol, 'par, 'obj) pipeline \<times> ('obj, 'x) payload Pipe"

text \<open>A round of the gateway's worker in the whole system.\<close>

definition gateway_round :: "go_time \<Rightarrow> go_time \<Rightarrow> go_time \<Rightarrow> go_time \<Rightarrow> 'obj worker_event \<Rightarrow>
    ('pol, 'par, 'obj, 'x) delivery \<Rightarrow> ('pol, 'par, 'obj, 'x) delivery option" where
  "gateway_round t t' now now' e g = (case g of (s, p) \<Rightarrow> do {
     (buffer, pkgs, p') \<leftarrow> SendAuditResultsWorker_step (remembering_sender t t') now now' e
       (fst (pl_worker s), snd (pl_worker s), p);
     Some (s\<lparr>pl_worker := (buffer, pkgs)\<rparr>, p') })"

inductive dv_env :: "('pol, 'par, 'obj, 'v) opa_core \<Rightarrow> (string \<Rightarrow> string) \<Rightarrow> ('pol, 'par, 'obj, 'x) delivery \<Rightarrow>
    ('pol, 'par, 'obj, 'x) delivery \<Rightarrow> bool" for env tmpl where
  event: "dv_env env tmpl (s, p) (s\<lparr>pl_waiting := pl_waiting s @ [e]\<rparr>, p)"
| constraints: "good_batch env tmpl cs \<Longrightarrow> int (GetConstraintsSize (fst (pl_auditor s)) + length cs) < 2 ^ 63 \<Longrightarrow>
    addConstraints env cs (fst (pl_auditor s), pl_waiting s) = Some ((a', waiting'), errs) \<Longrightarrow>
    dv_env env tmpl (s, p) (s\<lparr>pl_auditor := (a', snd (pl_auditor s)), pl_waiting := waiting'\<rparr>, p)"
| pipe_event: "enabled p e \<Longrightarrow> other_event e \<Longrightarrow> exec_event p e = Some p' \<Longrightarrow> dv_env env tmpl (s, p) (s, p')"

inductive dv_work :: "('pol, 'par, 'obj, 'v) opa_core \<Rightarrow> ('pol, 'par, 'obj, 'x) delivery \<Rightarrow>
    ('pol, 'par, 'obj, 'x) delivery \<Rightarrow> bool" for env where
  handle: "pl_out s = [] \<Longrightarrow> k < length (pl_waiting s) \<Longrightarrow>
    choices_ok (fst (pl_auditor s)) (event_ids (pl_waiting s ! k)) ch \<Longrightarrow>
    handle_event env listed ch (pl_auditor s) (pl_waiting s ! k) = Some (st', sent) \<Longrightarrow>
    dv_work env (s, p) (s\<lparr>pl_waiting := remove_nth k (pl_waiting s), pl_auditor := st', pl_out := send_all sent [],
      pl_results := pl_results s @ send_all sent []\<rparr>, p)"
| put: "pl_out s = r # rs \<Longrightarrow> length (pl_chan s) < auditResultChan_capacity \<Longrightarrow>
    dv_work env (s, p) (s\<lparr>pl_out := rs, pl_chan := pl_chan s @ [r]\<rparr>, p)"
| receive: "pl_chan s = r # rs \<Longrightarrow> gateway_round t t' now now' (ResultReceived r) (s\<lparr>pl_chan := rs\<rparr>, p) = Some g \<Longrightarrow>
    dv_work env (s, p) g"
| tick: "fst (pl_worker s) \<noteq> [] \<Longrightarrow> gateway_round t t' now now' TimerFired (s, p) = Some g \<Longrightarrow> dv_work env (s, p) g"
| deliver: "pipe_work p p' \<Longrightarrow> dv_work env (s, p) (s, p')"

inductive dv_reach :: "('pol, 'par, 'obj, 'v) opa_core \<Rightarrow> (string \<Rightarrow> string) \<Rightarrow> nat \<Rightarrow> ('pol, 'par, 'obj, 'x) delivery \<Rightarrow> bool"
  for env tmpl n where
  init: "NewPipe m = Some p \<Longrightarrow> dv_reach env tmpl n (pipeline_init, pipe_Start p n)"
| env_step: "dv_reach env tmpl n g \<Longrightarrow> dv_env env tmpl g g' \<Longrightarrow> dv_reach env tmpl n g'"
| work_step: "dv_reach env tmpl n g \<Longrightarrow> dv_work env g g' \<Longrightarrow> dv_reach env tmpl n g'"

subsection \<open>The two halves\<close>

lemma batch_both:
  assumes "pipe_inv n p"
  shows "\<exists>p'. SendAuditResultsBatch (remembering_sender t t') now now' rs (pkgs, p) = Some (pkgs @ [audit_package now now' rs], p') \<and>
    SendAuditResultsBatch (audit_sender t t') now now' rs p = Some p'"
proof -
  obtain p' where "SendAuditResultsBatch (audit_sender t t') now now' rs p = Some p'" using batch_on_pipe [OF assms] by blast
  then show ?thesis
    by (auto simp: SendAuditResultsBatch_def client_Pipe_def remembering_sender_def split: Option.bind_splits option.splits)
qed

lemma worker_step_both:
  assumes "pipe_inv n p" "length b < auditResultsBatchSize"
  shows "\<exists>b' pkgs' p'. SendAuditResultsWorker_step (remembering_sender t t') now now' e (b, pkgs, p) = Some (b', pkgs', p') \<and>
    SendAuditResultsWorker_step (recorder d) now now' e (b, pkgs) = Some (b', pkgs') \<and>
    SendAuditResultsWorker_step (audit_sender t t') now now' e (b, p) = Some (b', p')"
proof (cases e)
  case (ResultReceived r)
  then show ?thesis using batch_both [OF assms(1), of t t' now now' "b @ [r]" pkgs] by (auto simp: Let_def)
next
  case TimerFired
  then show ?thesis using batch_both [OF assms(1), of t t' now now' b pkgs] by auto
qed

lemma worker_step_adds:
  assumes "SendAuditResultsWorker_step (audit_sender t t') now now' e (b, p) = Some (b', p')"
  shows "p' = p \<or> (\<exists>pack. exec_event p (SendAdd t t' pack) = Some p')"
proof -
  have "\<exists>pack. exec_event p (SendAdd t t' pack) = Some p'" if "SendAuditResultsBatch (audit_sender t t') now now' rs p = Some p'" for rs
    using that by (auto simp: SendAuditResultsBatch_def client_Pipe_def audit_sender_def split: Option.bind_splits)
  then show ?thesis using assms by (cases e) (auto simp: Let_def split: if_splits Option.bind_splits)
qed

subsection \<open>Invariant\<close>

definition dv_inv :: "(string \<Rightarrow> string) \<Rightarrow> nat \<Rightarrow> ('pol, 'par, 'obj, 'x) delivery \<Rightarrow> bool" where
  "dv_inv tmpl n g \<longleftrightarrow> (case g of (s, p) \<Rightarrow> 2 \<le> n \<and> pl_inv tmpl s \<and> pipe_inv n p \<and> awake p \<and>
     concat (map payload_items (carried_data p)) = piped s)"

lemma gateway_round_total:
  assumes "pipe_inv n p" "2 \<le> n" "awake p" "length (fst (pl_worker s)) < auditResultsBatchSize"
    "concat (map payload_items (carried_data p)) = piped s"
  shows "\<exists>w p'. gateway_round t t' now now' e (s, p) = Some (s\<lparr>pl_worker := w\<rparr>, p') \<and>
    SendAuditResultsWorker_step (recorder d) now now' e (pl_worker s) = Some w \<and> pipe_inv n p' \<and> awake p' \<and>
    concat (map payload_items (carried_data p')) = concat (map batch_items (snd w))"
proof -
  obtain b pkgs where w0: "pl_worker s = (b, pkgs)" by (cases "pl_worker s")
  have b: "length b < auditResultsBatchSize" using assms(4) w0 by simp
  obtain b' pkgs' p' where step: "SendAuditResultsWorker_step (remembering_sender t t') now now' e (b, pkgs, p) = Some (b', pkgs', p')"
    "SendAuditResultsWorker_step (recorder d) now now' e (b, pkgs) = Some (b', pkgs')"
    "SendAuditResultsWorker_step (audit_sender t t') now now' e (b, p) = Some (b', p')"
    using worker_step_both [OF assms(1) b] by blast
  have inv': "pipe_inv n p'" and pipe: "concat (map payload_items (carried_data p')) @ map ToPacket b' =
      concat (map payload_items (carried_data p)) @ map ToPacket (b @ received [(now, now', e)])"
    using worker_step_on_pipe [OF assms(1) b, of t t' now now' e] step(3) by auto
  have rec: "concat (map batch_items pkgs') @ map ToPacket b' =
      concat (map batch_items pkgs) @ map ToPacket (b @ received [(now, now', e)])"
    using worker_step_recorder [OF b, of d now now' e pkgs] step(2) by auto
  from pipe rec assms(5) have "concat (map payload_items (carried_data p')) = concat (map batch_items pkgs')"
    by (simp add: w0 piped_def del: map_append) (metis append_same_eq)
  moreover have "awake p'"
    using worker_step_adds [OF step(3)] assms(3) awake_step [OF assms(1-3), of "SendAdd t t' _"] by auto
  ultimately show ?thesis using step(1,2) inv' by (auto simp: gateway_round_def w0)
qed

lemma dv_work_inv:
  assumes "dv_work env g g'" "dv_inv tmpl n g" "string_msgs env"
  shows "dv_inv tmpl n g'"
  using assms(1)
proof (cases rule: dv_work.cases)
  case (handle s k ch listed st' sent p)
  then have "pl_inv tmpl (fst g')" using pl_work_inv [OF pl_work.handle [OF handle(3-6)]] assms(2,3) by (auto simp: dv_inv_def)
  then show ?thesis using handle assms(2) by (simp add: dv_inv_def piped_def)
next
  case (put s r rs p)
  then have "pl_inv tmpl (fst g')" using pl_work_inv [OF pl_work.put [OF put(3,4)]] assms(2,3) by (auto simp: dv_inv_def)
  then show ?thesis using put assms(2) by (simp add: dv_inv_def piped_def)
next
  case (receive s r rs t t' now now' p)
  let ?s = "s\<lparr>pl_chan := rs\<rparr>"
  have inv: "2 \<le> n" "pl_inv tmpl s" "pipe_inv n p" "awake p" "concat (map payload_items (carried_data p)) = piped ?s"
    "length (fst (pl_worker ?s)) < auditResultsBatchSize"
    using assms(2) receive(1) by (auto simp: dv_inv_def piped_def pl_inv_def)
  from gateway_round_total [OF inv(3,1,4,6,5), of t t' now now' "ResultReceived r" "\<lambda>_. 0"] receive(3) obtain w p' where
    w: "g' = (?s\<lparr>pl_worker := w\<rparr>, p')" "SendAuditResultsWorker_step (recorder (\<lambda>_. 0)) now now' (ResultReceived r) (pl_worker s) = Some w"
    "pipe_inv n p'" "awake p'" "concat (map payload_items (carried_data p')) = concat (map batch_items (snd w))" by auto
  then show ?thesis using pl_work_inv [OF pl_work.receive [OF receive(2) w(2)] inv(2) assms(3)] inv(1) by (simp add: dv_inv_def piped_def)
next
  case (tick s t t' now now' p)
  have inv: "2 \<le> n" "pl_inv tmpl s" "pipe_inv n p" "awake p" "concat (map payload_items (carried_data p)) = piped s"
    "length (fst (pl_worker s)) < auditResultsBatchSize"
    using assms(2) tick(1) by (auto simp: dv_inv_def pl_inv_def)
  from gateway_round_total [OF inv(3,1,4,6,5), of t t' now now' TimerFired "\<lambda>_. 0"] tick(3) obtain w p' where
    w: "g' = (s\<lparr>pl_worker := w\<rparr>, p')" "SendAuditResultsWorker_step (recorder (\<lambda>_. 0)) now now' TimerFired (pl_worker s) = Some w"
    "pipe_inv n p'" "awake p'" "concat (map payload_items (carried_data p')) = concat (map batch_items (snd w))" by auto
  then show ?thesis using pl_env_inv [OF pl_env.timer [OF w(2), where env = env and tmpl = tmpl] inv(2)] inv(1) by (simp add: dv_inv_def piped_def)
next
  case (deliver p p' s)
  then obtain e where e: "delivering e" "enabled p e" "exec_event p e = Some p'" by (auto simp: pipe_work_def)
  have inv: "pipe_inv n p" "2 \<le> n" "awake p" using assms(2) deliver(1) by (auto simp: dv_inv_def)
  have "carried_data p' = carried_data p" using exec_event_data [OF inv(1) e(2,3)] e(1) by (cases e) (auto simp: delivering_def)
  then show ?thesis using deliver assms(2) pipe_work_inv [OF inv(1)] pipe_work_awake [OF inv] by (simp add: dv_inv_def)
qed

lemma dv_env_inv:
  assumes "dv_env env tmpl g g'" "dv_inv tmpl n g"
  shows "dv_inv tmpl n g'"
  using assms(1)
proof (cases rule: dv_env.cases)
  case (event s p e)
  then show ?thesis using assms(2) by (simp add: dv_inv_def pl_inv_def piped_def)
next
  case (constraints cs s a' waiting' errs p)
  have "pl_inv tmpl s" using assms(2) constraints(1) by (simp add: dv_inv_def)
  from pl_env_inv [OF pl_env.constraints [OF constraints(3-5), of "\<lambda>_. 0"] this] show ?thesis
    using assms(2) constraints(1,2) by (simp add: dv_inv_def piped_def)
next
  case (pipe_event p e p' s)
  have inv: "pipe_inv n p" "2 \<le> n" "awake p" using assms(2) pipe_event(1) by (auto simp: dv_inv_def)
  have "concat (map payload_items (carried_data p')) = concat (map payload_items (carried_data p))"
    using exec_event_data [OF inv(1) pipe_event(3,5)] pipe_event(4) by (cases e) (auto simp: other_event_def split: payload.splits)
  then show ?thesis
    using assms(2) pipe_event exec_event_inv [OF inv(1) pipe_event(3)] awake_step [OF inv pipe_event(3,5)] by (auto simp: dv_inv_def)
qed

lemma dv_reach_inv:
  assumes "dv_reach env tmpl n g" "string_msgs env" "2 \<le> n"
  shows "dv_inv tmpl n g"
  using assms(1)
proof (induction rule: dv_reach.induct)
  case (init m p)
  have "pipe_reach n (pipe_Start p n)" using init by (rule pipe_reach.start)
  moreover have "carried_data (pipe_Start p n) = []" using init by (auto simp: carried_data_def NewPipe_def pipe_Start_def split: Option.bind_splits)
  ultimately show ?case
    using pipe_reach_inv awake_reach assms(3) by (auto simp: dv_inv_def pl_inv_def piped_def pipeline_init_def opa_inv_New auditResultsBatchSize_def)
next
  case (env_step g g')
  then show ?case using dv_env_inv by blast
next
  case (work_step g g')
  then show ?case using dv_work_inv assms(2) by blast
qed

subsection \<open>The path drains\<close>

definition dv_done :: "('pol, 'par, 'obj, 'x) delivery \<Rightarrow> bool" where
  "dv_done g \<longleftrightarrow> (case g of (s, p) \<Rightarrow> drained s \<and> fst (pl_worker s) = [] \<and> asleep p)"

definition dv_order :: "(('pol, 'par, 'obj, 'x) delivery \<times> ('pol, 'par, 'obj, 'x) delivery) set" where
  "dv_order = measures [\<lambda>(s, p). length (pl_waiting s), \<lambda>(s, p). 2 * length (pl_out s) + length (pl_chan s),
     \<lambda>(s, p). length (fst (pl_worker s)), \<lambda>(s, p). pi_casts p, \<lambda>(s, p). card (pending (pi_storage p)), \<lambda>(s, p). total_awakeness p]"

lemma gateway_round_state:
  assumes "gateway_round t t' now now' e (s, p) = Some g"
  shows "\<exists>w p'. g = (s\<lparr>pl_worker := w\<rparr>, p') \<and> (e = TimerFired \<longrightarrow> fst w = [])"
  using assms by (cases e) (auto simp: gateway_round_def Let_def split: Option.bind_splits if_splits)

lemma dv_work_order: "dv_work env g g' \<Longrightarrow> dv_inv tmpl n g \<Longrightarrow> (g', g) \<in> dv_order"
proof (induction rule: dv_work.induct)
  case (deliver p p' s)
  then have "(p', p) \<in> pipe_order" using pipe_work_order by (auto simp: dv_inv_def)
  then show ?case by (auto simp: dv_order_def pipe_order_def)
qed (auto simp: dv_order_def dest!: gateway_round_state)

lemma dv_progress:
  assumes "dv_inv tmpl n g" "string_msgs env" "\<not> dv_done g"
  shows "\<exists>g'. dv_work env g g'"
proof -
  obtain s p where g: "g = (s, p)" by (cases g)
  have inv: "2 \<le> n" "pl_inv tmpl s" "pipe_inv n p" "awake p" "concat (map payload_items (carried_data p)) = piped s"
    "length (fst (pl_worker s)) < auditResultsBatchSize"
    using assms(1) g by (auto simp: dv_inv_def pl_inv_def)
  consider (pipeline) "\<not> drained s" | (buffer) "fst (pl_worker s) \<noteq> []" | (pipe) "\<not> asleep p"
    using assms(3) g by (auto simp: dv_done_def)
  then show ?thesis
  proof cases
    case pipeline
    then obtain s' where "pl_work env (\<lambda>_. 0) s s'" using pl_progress [OF inv(2) assms(2)] by blast
    then show ?thesis
    proof (cases rule: pl_work.cases)
      case (receive r rs now now' w)
      let ?s = "s\<lparr>pl_chan := rs\<rparr>"
      have "concat (map payload_items (carried_data p)) = piped ?s" "length (fst (pl_worker ?s)) < auditResultsBatchSize"
        using inv by (simp_all add: piped_def)
      from gateway_round_total [OF inv(3,1,4) this(2,1)] dv_work.receive [OF receive(2)] show ?thesis unfolding g by blast
    qed (use g dv_work.handle dv_work.put in blast)+
  next
    case buffer
    then show ?thesis using gateway_round_total [OF inv(3,1,4,6,5)] dv_work.tick unfolding g by blast
  next
    case pipe
    then show ?thesis using pipe_work_progress [OF inv(3)] dv_work.deliver unfolding g by blast
  qed
qed

interpretation dv: draining "dv_work env" "\<lambda>g. dv_inv tmpl n g \<and> string_msgs env" dv_done dv_order for env tmpl n
proof (unfold_locales, goal_cases)
  case (1 g g')
  then show ?case using dv_work_inv by blast
next
  case (2 g g')
  then show ?case using dv_work_order by blast
next
  case 3
  then show ?case by (simp add: dv_order_def)
next
  case (4 g)
  then show ?case using dv_progress by blast
qed

subsection \<open>Properties\<close>

text \<open>C6: Audit results reach the server. Take any state that events, constraints, other users of the pipe, failing
  sends and the agent's workers can lead to. If from then on nothing new arrives and the server accepts what it
  is sent, the workers do not run for ever, and they stop only when no event, result, buffered item or package is
  left on the way: the packages handed to the pipe then hold exactly the results of all rounds, in order, and each
  of these packages was sent exactly once or had expired and was dropped.\<close>

theorem results_reach_server:
  assumes "dv_reach env tmpl n g" and "string_msgs env" and "2 \<le> n"
  shows "\<not> (\<exists>run. run 0 = g \<and> (\<forall>i :: nat. dv_work env (run i) (run (Suc i)))) \<and>
    (\<exists>g'. (dv_work env)\<^sup>*\<^sup>* g g' \<and> dv_done g') \<and>
    (\<forall>s p. (dv_work env)\<^sup>*\<^sup>* g (s, p) \<and> (\<nexists>g''. dv_work env (s, p) g'') \<longrightarrow>
      drained s \<and> asleep p \<and> concat (map payload_items (carried_data p)) = map ToPacket (pl_results s) \<and>
      mset (pi_sent p) + mset_set (pi_dropped p) = mset_set {..<length (carried_data p)})"
proof -
  have inv: "dv_inv tmpl n g \<and> string_msgs env" using dv_reach_inv [OF assms] assms(2) by blast
  have "drained s \<and> asleep p \<and> concat (map payload_items (carried_data p)) = map ToPacket (pl_results s) \<and>
      mset (pi_sent p) + mset_set (pi_dropped p) = mset_set {..<length (carried_data p)}"
    if "(dv_work env)\<^sup>*\<^sup>* g (s, p)" "\<nexists>g''. dv_work env (s, p) g''" for s p
  proof -
    have fin: "dv_done (s, p)" "dv_inv tmpl n (s, p)" using dv.stops_final [OF inv that] by auto
    then have "asleep p" "awake p" "accounted p" by (auto simp: dv_done_def dv_inv_def pipe_inv_def)
    then have "mset (pi_sent p) + mset_set (pi_dropped p) = mset_set {..<length (carried_data p)}"
      using asleep_empty [of p] by (simp add: accounted_def carried_data_def)
    then show ?thesis using fin by (auto simp: dv_done_def dv_inv_def drained_def pl_inv_def)
  qed
  then show ?thesis using dv.no_infinite_run [OF inv] dv.reaches_final [OF inv] by blast
qed

theorem results_reach_server_witness:
  "\<exists>(p0 :: (unit, nat) payload Pipe) s p. dv_reach demo_core (\<lambda>_. ''t'') 10 (pipeline_init\<lparr>pl_waiting := [Command]\<rparr>, p0) \<and>
    pending (pi_storage p0) = {0} \<and> (dv_work demo_core)\<^sup>*\<^sup>* (pipeline_init\<lparr>pl_waiting := [Command]\<rparr>, p0) (s, p) \<and> drained s \<and> asleep p"
proof -
  let ?m = "\<lambda>a. with_data (\<lambda>_. OtherPayload 7) (demo_mem a)" and ?pack = "with_data (\<lambda>_. OtherPayload 7) (demo_mem 0)"
  let ?q = "sleepers ?m 10 0 :: (unit, nat) payload Pipe"
  obtain q :: "(unit, nat) payload Pipe" where "NewPipe ?m = Some q" "pipe_Start q 10 = ?q"
    by (simp add: NewPipe_def NewDefaultPipeStore_empty pipe_Start_def sleepers_def)
  then have r0: "dv_reach demo_core (\<lambda>_. ''t'') 10 (pipeline_init, ?q)" by (metis dv_reach.init)
  obtain p0 where p0: "exec_event ?q (SendAdd 1 1 ?pack) = Some p0" "0 \<in> pending (pi_storage p0)" "pi_next p0 = 1"
    using SendAdd_to_empty [of ?q ?m ?pack] by (auto simp: sleepers_def with_data_def)
  have "other_event (SendAdd 1 1 ?pack)" by (simp add: other_event_def with_data_def)
  then have r1: "dv_reach demo_core (\<lambda>_. ''t'') 10 (pipeline_init, p0)"
    using dv_reach.env_step [OF r0 dv_env.pipe_event [OF _ _ p0(1)]] by simp
  from dv_reach.env_step [OF this dv_env.event [where e = Command]]
  have r: "dv_reach demo_core (\<lambda>_. ''t'') 10 (pipeline_init\<lparr>pl_waiting := [Command]\<rparr>, p0)" by (simp add: pipeline_init_def)
  obtain g where g: "(dv_work demo_core)\<^sup>*\<^sup>* (pipeline_init\<lparr>pl_waiting := [Command]\<rparr>, p0) g" "dv_done g"
    using results_reach_server [OF r string_msgs_demo] by auto
  have "pipe_inv 10 p0" using dv_reach_inv [OF r string_msgs_demo] by (simp add: dv_inv_def)
  then have "pending (pi_storage p0) \<subseteq> {0}"
    using accounted_parts(2) [of p0] p0(3) by (auto simp: pipe_inv_def)
  then have "pending (pi_storage p0) = {0}" using p0(2) by blast
  then show ?thesis using r g by (cases g) (auto simp: dv_done_def)
qed

end
