(* ===== verification/Entities_Start.thy ===== *)
theory Entities_Start
  imports Kuber_Informers Agent_Flow Draining
begin

text \<open>
  \<open>EntitiesWatcher.Start\<close> of \<open>entities/entities.go\<close> beside the goroutines it works with: the informers that call
  \<open>OnAdd\<close>, \<open>OnUpdate\<close> and \<open>OnDelete\<close>, the worker of the deltas, and the audit worker, which receives from an
  unbuffered channel and so lets a handler go on only while it runs.

  The state starts after the first loop of \<open>Start\<close>, which \<open>Kuber_Informers\<close> has. A call of a handler is two
  sends: of a delta to the queue, which holds 1024, and of the event to the auditor. \<open>main\<close> registers one handler,
  the auditor. Each informer delivers its notifications one after the other; \<open>er_history\<close> and \<open>er_received\<close> are
  history: what the informer of a resource was notified of, and what the auditor received, with the resource it
  came from. \<open>ew_step\<close> are the steps of the program, \<open>ew_env\<close> those of the cluster and the end of the context.
\<close>

subsection \<open>The system\<close>

definition deltasBufferChanSize :: nat where "deltasBufferChanSize = 1024"

text \<open>The two things that a handler of the watcher sends.\<close>

fun call_delta :: "go_time \<Rightarrow> ('j \<Rightarrow> 'j Unstructured) \<Rightarrow> 'j handler_call \<Rightarrow> 'j Delta" where
  "call_delta now meta (OnAdd obj) = \<lparr>dl_Kind = EntityDeltaKindUpsert, dl_Data = meta obj, dl_Timestamp = now\<rparr>"
| "call_delta now meta (OnUpdate oldObj newObj) = \<lparr>dl_Kind = EntityDeltaKindUpsert, dl_Data = meta newObj, dl_Timestamp = now\<rparr>"
| "call_delta now meta (OnDelete obj) = \<lparr>dl_Kind = EntityDeltaKindDelete, dl_Data = meta obj, dl_Timestamp = now\<rparr>"

fun call_event :: "('j \<Rightarrow> 'j Unstructured) \<Rightarrow> 'j handler_call \<Rightarrow> 'j AuditEvent" where
  "call_event meta (OnAdd obj) = OnResourceAdd (meta obj)"
| "call_event meta (OnUpdate oldObj newObj) = OnResourceUpdate (meta oldObj) (meta newObj)"
| "call_event meta (OnDelete obj) = OnResourceDelete (meta obj)"

lemma watcher_call_parts:
  "ew_deltasQueue (fst (watcher_call now meta c ew)) = ew_deltasQueue ew @ [call_delta now meta c]"
  "snd (watcher_call now meta c ew) = map (\<lambda>h. (h, call_event meta c)) (ew_handlers ew)"
  by (cases c; simp add: ew_OnAdd_def ew_OnUpdate_def ew_OnDelete_def Let_def)+

datatype start_pc = Syncing | Telling | Adding "GroupVersionResourceKind list" | Working | WatcherReturned
datatype auditor_pc = NotStarted | Receiving | AuditorReturned
datatype 'j call_pc = Idle | AtQueue "'j handler_call" | AtHandler "'j handler_call"

record 'j ew_run =
  er_pc :: start_pc
  er_cancelled :: bool
  er_auditor :: auditor_pc
  er_informers :: "GroupVersionResourceKind \<Rightarrow> 'j call_pc \<times> 'j handler_call list"
  er_registered :: "GroupVersionResourceKind set"
  er_queue :: "'j Delta list"
  er_received :: "(GroupVersionResourceKind option \<times> 'j AuditEvent) list"
  er_history :: "GroupVersionResourceKind \<Rightarrow> 'j handler_call list"

definition ew_init :: "'j ew_run" where
  "ew_init = \<lparr>er_pc = Syncing, er_cancelled = False, er_auditor = NotStarted, er_informers = (\<lambda>_. (Idle, [])), er_registered = {},
     er_queue = [], er_received = [], er_history = (\<lambda>_. [])\<rparr>"

abbreviation set_informer :: "'j ew_run \<Rightarrow> GroupVersionResourceKind \<Rightarrow> 'j call_pc \<times> 'j handler_call list \<Rightarrow> 'j ew_run" where
  "set_informer s g i \<equiv> s\<lparr>er_informers := (er_informers s)(g := i)\<rparr>"

inductive ew_step :: "('j \<Rightarrow> 'j Unstructured) \<Rightarrow> GroupVersionResourceKind list \<Rightarrow> 'j ew_run \<Rightarrow> 'j ew_run \<Rightarrow> bool" for meta rs where
  wait_ends: "er_pc s = Syncing \<Longrightarrow> ew_step meta rs s (s\<lparr>er_pc := Telling\<rparr>)"
| tell: "er_pc s = Telling \<Longrightarrow> er_auditor s = Receiving \<Longrightarrow> distinct order \<Longrightarrow> set order = set rs \<Longrightarrow>
    ew_step meta rs s (s\<lparr>er_pc := Adding order, er_received := er_received s @ [(None, OnCacheSync)]\<rparr>)"
| add: "er_pc s = Adding (g # gs) \<Longrightarrow> ew_step meta rs s (s\<lparr>er_pc := Adding gs, er_registered := insert g (er_registered s)\<rparr>)"
| work: "er_pc s = Adding [] \<Longrightarrow> ew_step meta rs s (s\<lparr>er_pc := Working\<rparr>)"
| auditor_starts: "er_auditor s = NotStarted \<Longrightarrow> ew_step meta rs s (s\<lparr>er_auditor := Receiving\<rparr>)"
| call: "g \<in> er_registered s \<Longrightarrow> er_informers s g = (Idle, c # cs) \<Longrightarrow> ew_step meta rs s (set_informer s g (AtQueue c, cs))"
| enqueue: "er_informers s g = (AtQueue c, cs) \<Longrightarrow> length (er_queue s) < deltasBufferChanSize \<Longrightarrow>
    ew_step meta rs s ((set_informer s g (AtHandler c, cs))\<lparr>er_queue := er_queue s @ [call_delta now meta c]\<rparr>)"
| hand_over: "er_informers s g = (AtHandler c, cs) \<Longrightarrow> er_auditor s = Receiving \<Longrightarrow>
    ew_step meta rs s ((set_informer s g (Idle, cs))\<lparr>er_received := er_received s @ [(Some g, call_event meta c)]\<rparr>)"
| dequeue: "er_pc s = Working \<Longrightarrow> er_queue s = d # ds \<Longrightarrow> ew_step meta rs s (s\<lparr>er_queue := ds\<rparr>)"

inductive ew_env :: "GroupVersionResourceKind list \<Rightarrow> 'j ew_run \<Rightarrow> 'j ew_run \<Rightarrow> bool" for rs where
  notified: "g \<in> set rs \<Longrightarrow> er_informers s g = (pc, cs) \<Longrightarrow>
    ew_env rs s ((set_informer s g (pc, cs @ [c]))\<lparr>er_history := (er_history s)(g := er_history s g @ [c])\<rparr>)"
| cancel: "ew_env rs s (s\<lparr>er_cancelled := True\<rparr>)"
| auditor_returns: "er_cancelled s \<Longrightarrow> er_auditor s = Receiving \<Longrightarrow> ew_env rs s (s\<lparr>er_auditor := AuditorReturned\<rparr>)"
| start_returns: "er_cancelled s \<Longrightarrow> er_pc s = Working \<Longrightarrow> ew_env rs s (s\<lparr>er_pc := WatcherReturned\<rparr>)"

inductive ew_reach :: "('j \<Rightarrow> 'j Unstructured) \<Rightarrow> GroupVersionResourceKind list \<Rightarrow> 'j ew_run \<Rightarrow> bool" for meta rs where
  init: "ew_reach meta rs ew_init"
| step: "ew_reach meta rs s \<Longrightarrow> ew_step meta rs s s' \<Longrightarrow> ew_reach meta rs s'"
| env: "ew_reach meta rs s \<Longrightarrow> ew_env rs s s' \<Longrightarrow> ew_reach meta rs s'"

subsection \<open>Invariant\<close>

fun calls_left :: "'j call_pc \<times> 'j handler_call list \<Rightarrow> 'j handler_call list" where
  "calls_left (Idle, cs) = cs"
| "calls_left (AtQueue c, cs) = c # cs"
| "calls_left (AtHandler c, cs) = c # cs"

definition events_from :: "GroupVersionResourceKind \<Rightarrow> 'j ew_run \<Rightarrow> 'j AuditEvent list" where
  "events_from g s = map snd (filter (\<lambda>x. fst x = Some g) (er_received s))"

text \<open>What \<open>Start\<close> has done at each of its points: nothing is received and no handler is registered before the
  report of the sync, which is received first and once.\<close>

definition start_ok :: "GroupVersionResourceKind list \<Rightarrow> 'j ew_run \<Rightarrow> bool" where
  "start_ok rs s \<longleftrightarrow>
     (if er_pc s \<in> {Syncing, Telling} then er_received s = [] \<and> er_registered s = {}
      else (\<exists>rest. er_received s = (None, OnCacheSync) # rest \<and> None \<notin> fst ` set rest)) \<and>
     (case er_pc s of Adding gs \<Rightarrow> er_registered s \<union> set gs = set rs | Working \<Rightarrow> er_registered s = set rs
      | WatcherReturned \<Rightarrow> er_registered s = set rs | _ \<Rightarrow> True)"

definition informers_ok :: "('j \<Rightarrow> 'j Unstructured) \<Rightarrow> 'j ew_run \<Rightarrow> bool" where
  "informers_ok meta s \<longleftrightarrow>
     (\<forall>g. (g \<notin> er_registered s \<longrightarrow> fst (er_informers s g) = Idle) \<and>
       events_from g s @ map (call_event meta) (calls_left (er_informers s g)) = map (call_event meta) (er_history s g))"

definition ew_inv :: "('j \<Rightarrow> 'j Unstructured) \<Rightarrow> GroupVersionResourceKind list \<Rightarrow> 'j ew_run \<Rightarrow> bool" where
  "ew_inv meta rs s \<longleftrightarrow> start_ok rs s \<and> informers_ok meta s \<and> length (er_queue s) \<le> deltasBufferChanSize \<and>
     (er_auditor s = AuditorReturned \<longrightarrow> er_cancelled s) \<and> (er_pc s = WatcherReturned \<longrightarrow> er_cancelled s)"

lemma events_from_simps [simp]:
  "events_from g (s\<lparr>er_pc := pc\<rparr>) = events_from g s" "events_from g (s\<lparr>er_registered := r\<rparr>) = events_from g s"
  "events_from g (s\<lparr>er_auditor := a\<rparr>) = events_from g s" "events_from g (s\<lparr>er_informers := i\<rparr>) = events_from g s"
  "events_from g (s\<lparr>er_queue := q\<rparr>) = events_from g s" "events_from g (s\<lparr>er_cancelled := b\<rparr>) = events_from g s"
  "events_from g (s\<lparr>er_history := h\<rparr>) = events_from g s"
  by (simp_all add: events_from_def)

lemma registered_watched: "start_ok rs s \<Longrightarrow> er_registered s \<subseteq> set rs"
  by (auto simp: start_ok_def split: start_pc.splits if_splits)

lemma busy_registered: "informers_ok meta s \<Longrightarrow> er_informers s g = (pc, cs) \<Longrightarrow> pc \<noteq> Idle \<Longrightarrow> g \<in> er_registered s"
  unfolding informers_ok_def by (metis fst_conv)

lemma start_ok_step: "ew_step meta rs s s' \<Longrightarrow> informers_ok meta s \<Longrightarrow> start_ok rs s \<Longrightarrow> start_ok rs s'"
proof (induction rule: ew_step.induct)
  case (hand_over s g c cs)
  then have "g \<in> er_registered s" using busy_registered by blast
  then show ?case using hand_over by (auto simp: start_ok_def split: start_pc.splits if_splits)
qed (auto simp: start_ok_def split: start_pc.splits if_splits)

lemma informers_ok_step: "ew_step meta rs s s' \<Longrightarrow> informers_ok meta s \<Longrightarrow> informers_ok meta s'"
proof (induction rule: ew_step.induct)
  case (hand_over s g c cs)
  then have "events_from g s @ map (call_event meta) (c # cs) = map (call_event meta) (er_history s g)"
    unfolding informers_ok_def by (metis calls_left.simps(3))
  then show ?case using hand_over by (auto simp: informers_ok_def events_from_def)
next
  case (call g s c cs)
  then have "events_from g s @ map (call_event meta) (c # cs) = map (call_event meta) (er_history s g)"
    unfolding informers_ok_def by (metis calls_left.simps(1))
  then show ?case using call by (auto simp: informers_ok_def)
next
  case (enqueue s g c cs now)
  then have "events_from g s @ map (call_event meta) (c # cs) = map (call_event meta) (er_history s g)" "g \<in> er_registered s"
    using busy_registered [of meta s g] unfolding informers_ok_def by (metis calls_left.simps(2), blast)
  then show ?case using enqueue by (auto simp: informers_ok_def)
next
  case (tell s order)
  then show ?case by (auto simp: informers_ok_def events_from_def)
qed (auto simp: informers_ok_def)

lemma ew_step_inv: "ew_step meta rs s s' \<Longrightarrow> ew_inv meta rs s \<Longrightarrow> ew_inv meta rs s'"
  using start_ok_step [of meta rs s s'] informers_ok_step [of meta rs s s']
  by (auto simp: ew_inv_def elim!: ew_step.cases)

lemma ew_env_inv: "ew_env rs s s' \<Longrightarrow> ew_inv meta rs s \<Longrightarrow> ew_inv meta rs s'"
proof (induction rule: ew_env.induct)
  case (notified g s pc cs c)
  have "calls_left (pc, cs @ [c]) = calls_left (pc, cs) @ [c]" by (cases pc) auto
  moreover have "events_from g s @ map (call_event meta) (calls_left (pc, cs)) = map (call_event meta) (er_history s g)"
    "g \<notin> er_registered s \<longrightarrow> pc = Idle"
    using notified unfolding ew_inv_def informers_ok_def by (metis fst_conv)+
  ultimately show ?case using notified by (auto simp: ew_inv_def informers_ok_def start_ok_def split: start_pc.splits)
qed (auto simp: ew_inv_def informers_ok_def start_ok_def split: start_pc.splits)

lemma ew_reach_inv: "ew_reach meta rs s \<Longrightarrow> ew_inv meta rs s"
proof (induction rule: ew_reach.induct)
  case init
  then show ?case by (simp add: ew_inv_def start_ok_def informers_ok_def ew_init_def events_from_def)
qed (auto intro: ew_step_inv ew_env_inv)

subsection \<open>The start-up drains\<close>

definition ew_settled :: "GroupVersionResourceKind list \<Rightarrow> 'j ew_run \<Rightarrow> bool" where
  "ew_settled rs s \<longleftrightarrow> er_pc s = Working \<and> er_auditor s = Receiving \<and> (\<forall>g \<in> set rs. er_informers s g = (Idle, [])) \<and> er_queue s = []"

fun start_rank :: "nat \<Rightarrow> start_pc \<Rightarrow> nat" where
  "start_rank n Syncing = n + 3"
| "start_rank n Telling = n + 2"
| "start_rank n (Adding gs) = length gs + 1"
| "start_rank n _ = 0"

fun call_weight :: "'j call_pc \<times> 'j handler_call list \<Rightarrow> nat" where
  "call_weight (Idle, cs) = 3 * length cs"
| "call_weight (AtQueue c, cs) = 3 * length cs + 2"
| "call_weight (AtHandler c, cs) = 3 * length cs + 1"

definition ew_order :: "GroupVersionResourceKind list \<Rightarrow> ('j ew_run \<times> 'j ew_run) set" where
  "ew_order rs = measures [\<lambda>s. start_rank (length rs) (er_pc s), \<lambda>s. if er_auditor s = NotStarted then 1 else 0,
     \<lambda>s. \<Sum>g \<in> set rs. call_weight (er_informers s g), \<lambda>s. length (er_queue s)]"

lemma weight_decreases:
  assumes "g \<in> set rs" "call_weight i < call_weight (f g)"
  shows "(\<Sum>x \<in> set rs. call_weight ((f(g := i)) x)) < (\<Sum>x \<in> set rs. call_weight (f x))"
  using assms by (intro sum_strict_mono_ex1) auto

lemma ew_step_order:
  assumes "ew_step meta rs s s'" "ew_inv meta rs s" "distinct rs"
  shows "(s', s) \<in> ew_order rs"
proof -
  have reg: "er_registered s \<subseteq> set rs" using assms(2) registered_watched by (auto simp: ew_inv_def)
  have busy: "g \<in> set rs" if "er_informers s g = (pc, cs)" "pc \<noteq> Idle" for g pc cs
    using busy_registered [OF _ that] assms(2) reg by (auto simp: ew_inv_def)
  from assms(1) show ?thesis
  proof (cases rule: ew_step.cases)
    case (tell order)
    have "length order = length rs" using tell assms(3) by (metis distinct_card)
    then show ?thesis using tell by (simp add: ew_order_def)
  next
    case (call g c cs)
    have "(\<Sum>x \<in> set rs. call_weight (((er_informers s)(g := (AtQueue c, cs))) x)) < (\<Sum>x \<in> set rs. call_weight (er_informers s x))"
      using call reg by (intro weight_decreases) auto
    then show ?thesis using call by (simp add: ew_order_def)
  next
    case (enqueue g c cs now)
    have "(\<Sum>x \<in> set rs. call_weight (((er_informers s)(g := (AtHandler c, cs))) x)) < (\<Sum>x \<in> set rs. call_weight (er_informers s x))"
      using enqueue busy by (intro weight_decreases) auto
    then show ?thesis using enqueue by (simp add: ew_order_def)
  next
    case (hand_over g c cs)
    have "(\<Sum>x \<in> set rs. call_weight (((er_informers s)(g := (Idle, cs))) x)) < (\<Sum>x \<in> set rs. call_weight (er_informers s x))"
      using hand_over busy by (intro weight_decreases) auto
    then show ?thesis using hand_over by (simp add: ew_order_def)
  qed (auto simp: ew_order_def)
qed

lemma working_progress:
  assumes "ew_inv meta rs s" "er_pc s = Working" "er_auditor s = Receiving" "\<not> ew_settled rs s"
  shows "\<exists>s'. ew_step meta rs s s'"
proof (cases "er_queue s")
  case (Cons d ds)
  then show ?thesis using ew_step.dequeue [OF assms(2)] by blast
next
  case Nil
  then have room: "length (er_queue s) < deltasBufferChanSize" by (simp add: deltasBufferChanSize_def)
  obtain g where g: "g \<in> set rs" "er_informers s g \<noteq> (Idle, [])" using assms(2-4) Nil by (auto simp: ew_settled_def)
  obtain pc cs where i: "er_informers s g = (pc, cs)" by (cases "er_informers s g")
  show ?thesis
  proof (cases pc)
    case Idle
    then obtain c cs' where "cs = c # cs'" using g(2) i by (cases cs) auto
    moreover have "g \<in> er_registered s" using assms(1,2) g(1) by (simp add: ew_inv_def start_ok_def)
    ultimately show ?thesis using ew_step.call [of g s c cs'] i Idle by blast
  next
    case (AtQueue c)
    then show ?thesis using ew_step.enqueue [of s g c cs] i room by blast
  next
    case (AtHandler c)
    then show ?thesis using ew_step.hand_over [of s g c cs] i assms(3) by blast
  qed
qed

lemma ew_progress:
  assumes "ew_inv meta rs s" "\<not> er_cancelled s" "distinct rs" "\<not> ew_settled rs s"
  shows "\<exists>s'. ew_step meta rs s s'"
proof (cases "er_auditor s")
  case NotStarted
  then show ?thesis using ew_step.auditor_starts by blast
next
  case Receiving
  show ?thesis
  proof (cases "er_pc s")
    case Syncing
    then show ?thesis using ew_step.wait_ends by blast
  next
    case Telling
    then show ?thesis using ew_step.tell [OF Telling Receiving assms(3)] by blast
  next
    case (Adding gs)
    then show ?thesis using ew_step.add [of s] ew_step.work [of s] by (cases gs) blast+
  next
    case Working
    then show ?thesis using working_progress [OF assms(1) Working Receiving assms(4)] by blast
  qed (use assms(1,2) in \<open>simp add: ew_inv_def\<close>)
qed (use assms(1,2) in \<open>simp add: ew_inv_def\<close>)

lemma ew_step_cancelled: "ew_step meta rs s s' \<Longrightarrow> er_cancelled s' = er_cancelled s"
  by (induction rule: ew_step.induct) auto

interpretation ews: draining "ew_step meta rs" "\<lambda>s. ew_inv meta rs s \<and> \<not> er_cancelled s \<and> distinct rs" "ew_settled rs" "ew_order rs"
  for meta rs
proof (unfold_locales, goal_cases)
  case (1 s s')
  then show ?case using ew_step_inv ew_step_cancelled by blast
next
  case (2 s s')
  then show ?case using ew_step_order by blast
next
  case 3
  then show ?case by (simp add: ew_order_def)
next
  case (4 s)
  then show ?case using ew_progress by blast
qed

lemma ew_steps_history: "(ew_step meta rs)\<^sup>*\<^sup>* s s' \<Longrightarrow> er_history s' = er_history s"
proof (induction rule: rtranclp_induct)
  case (step s1 s2)
  then show ?case by (auto elim!: ew_step.cases)
qed simp

text \<open>Once the auditor has returned before it was told, \<open>Start\<close> stays where it is.\<close>

lemma telling_for_ever:
  assumes "ew_step meta rs s s' \<or> ew_env rs s s'" "er_pc s = Telling" "er_auditor s = AuditorReturned"
  shows "er_pc s' = Telling \<and> er_auditor s' = AuditorReturned"
  using assms by (auto elim!: ew_step.cases ew_env.cases)

subsection \<open>Properties\<close>

text \<open>C19: While the agent is not stopped, its start-up comes to rest with every watched resource reported. In every
  interleaving of \<open>Start\<close>, the informers, the deltas worker and the audit worker the goroutines do not block one
  another for ever, although the queue of deltas is bounded and the auditor's channel has no buffer; they stop
  only when the queue is empty and no informer has a notification left; and then the auditor has been told of the
  sync first, and exactly once, and afterwards of every notification, those of a resource in their order.\<close>

theorem start_up_reports_everything:
  fixes s :: "'j ew_run"
  assumes "ew_reach meta (resources_for_version v version) s" and "\<not> er_cancelled s"
  shows "\<not> (\<exists>run. run 0 = s \<and> (\<forall>i :: nat. ew_step meta (resources_for_version v version) (run i) (run (Suc i)))) \<and>
    (\<exists>s'. (ew_step meta (resources_for_version v version))\<^sup>*\<^sup>* s s' \<and> ew_settled (resources_for_version v version) s') \<and>
    (\<forall>s'. (ew_step meta (resources_for_version v version))\<^sup>*\<^sup>* s s' \<and> (\<nexists>s''. ew_step meta (resources_for_version v version) s' s'') \<longrightarrow>
      er_queue s' = [] \<and> (\<exists>rest. er_received s' = (None, EntitiesSync) # rest \<and> None \<notin> fst ` set rest) \<and>
      (\<forall>g \<in> set (resources_for_version v version). events_from g s' = map (call_event meta) (er_history s g)))"
proof -
  let ?rs = "resources_for_version v version"
  have "distinct ?rs" using resource_kinds_distinct [of v version] by (simp add: distinct_map)
  then have inv: "ew_inv meta ?rs s \<and> \<not> er_cancelled s \<and> distinct ?rs" using ew_reach_inv [OF assms(1)] assms(2) by blast
  have "er_queue s' = [] \<and> (\<exists>rest. er_received s' = (None, EntitiesSync) # rest \<and> None \<notin> fst ` set rest) \<and>
      (\<forall>g \<in> set ?rs. events_from g s' = map (call_event meta) (er_history s g))"
    if run: "(ew_step meta ?rs)\<^sup>*\<^sup>* s s'" and stop: "\<nexists>s''. ew_step meta ?rs s' s''" for s' :: "'j ew_run"
  proof -
    have fin: "ew_settled ?rs s'" "ew_inv meta ?rs s'" using ews.stops_final [OF inv run stop] by auto
    have "events_from g s' = map (call_event meta) (er_history s g)" if "g \<in> set ?rs" for g
      using fin that ew_steps_history [OF run] unfolding ew_inv_def informers_ok_def ew_settled_def
      by (metis append_Nil2 calls_left.simps(1) list.simps(8))
    moreover have "\<exists>rest. er_received s' = (None, EntitiesSync) # rest \<and> None \<notin> fst ` set rest"
      using fin by (auto simp: ew_inv_def start_ok_def ew_settled_def OnCacheSync_def)
    ultimately show ?thesis using fin(1) by (simp add: ew_settled_def)
  qed
  then show ?thesis using ews.no_infinite_run [OF inv] ews.reaches_final [OF inv] by blast
qed

theorem start_up_reports_everything_witness:
  "\<exists>s s'. ew_reach (\<lambda>_ :: unit. demo_entity) (resources_for_version demo_versions 18) s \<and> er_history s (Pods demo_versions) = [OnAdd ()] \<and>
    (ew_step (\<lambda>_. demo_entity) (resources_for_version demo_versions 18))\<^sup>*\<^sup>* s s' \<and> ew_settled (resources_for_version demo_versions 18) s'"
proof -
  let ?rs = "resources_for_version demo_versions 18" and ?g = "Pods demo_versions"
  let ?s = "(set_informer (ew_init :: unit ew_run) ?g (Idle, [] @ [OnAdd ()]))\<lparr>er_history := (er_history ew_init)(?g := er_history ew_init ?g @ [OnAdd ()])\<rparr>"
  have "?g \<in> set ?rs" by (simp add: resources_for_version_def watchedResources_def)
  then have r: "ew_reach (\<lambda>_. demo_entity) ?rs ?s"
    by (rule ew_reach.env [OF ew_reach.init ew_env.notified]) (simp add: ew_init_def)
  have "\<not> er_cancelled ?s" "er_history ?s ?g = [OnAdd ()]" by (simp_all add: ew_init_def)
  with start_up_reports_everything [OF r] r show ?thesis by blast
qed

text \<open>C20: Stopping the agent while it waits for the caches leaves \<open>Start\<close> behind: the audit worker returns, and the
  report of the sync then waits for a receiver that never comes, so \<open>EntitiesWatcher.Start\<close>, and with it
  \<open>Agent.Start\<close>, never returns. A stop after the start-up lets it return.\<close>

theorem stop_during_sync_hangs:
  "(\<exists>s. ew_reach meta rs s \<and> er_cancelled s \<and>
      (\<forall>s'. (\<lambda>x y. ew_step meta rs x y \<or> ew_env rs x y)\<^sup>*\<^sup>* s s' \<longrightarrow> er_pc s' = Telling)) \<and>
    (\<forall>s. ew_reach meta rs s \<and> er_cancelled s \<and> er_pc s = Working \<longrightarrow> (\<exists>s'. ew_env rs s s' \<and> er_pc s' = WatcherReturned))"
proof -
  let ?s1 = "ew_init\<lparr>er_auditor := Receiving\<rparr>"
  let ?s2 = "?s1\<lparr>er_cancelled := True\<rparr>"
  let ?s3 = "?s2\<lparr>er_auditor := AuditorReturned\<rparr>"
  let ?s4 = "?s3\<lparr>er_pc := Telling\<rparr>"
  have "ew_reach meta rs ?s1" by (rule ew_reach.step [OF ew_reach.init ew_step.auditor_starts]) (simp add: ew_init_def)
  then have "ew_reach meta rs ?s2" by (rule ew_reach.env [OF _ ew_env.cancel])
  then have "ew_reach meta rs ?s3" by (rule ew_reach.env [OF _ ew_env.auditor_returns]) simp_all
  then have r: "ew_reach meta rs ?s4" by (rule ew_reach.step [OF _ ew_step.wait_ends]) (simp add: ew_init_def)
  have "er_pc s' = Telling \<and> er_auditor s' = AuditorReturned" if "(\<lambda>x y. ew_step meta rs x y \<or> ew_env rs x y)\<^sup>*\<^sup>* ?s4 s'" for s'
    using that
  proof (induction rule: rtranclp_induct)
    case (step y z)
    then show ?case using telling_for_ever by blast
  qed simp
  then have "ew_reach meta rs ?s4 \<and> er_cancelled ?s4 \<and>
      (\<forall>s'. (\<lambda>x y. ew_step meta rs x y \<or> ew_env rs x y)\<^sup>*\<^sup>* ?s4 s' \<longrightarrow> er_pc s' = Telling)" using r by simp
  moreover have "\<exists>s'. ew_env rs s s' \<and> er_pc s' = WatcherReturned" if "er_cancelled s" "er_pc s = Working" for s :: "'a ew_run"
    using ew_env.start_returns [OF that] by (metis ew_run.select_convs(1) ew_run.surjective ew_run.update_convs(1))
  ultimately show ?thesis by blast
qed

theorem stop_during_sync_hangs_witness:
  "\<exists>s. ew_reach (\<lambda>_ :: unit. demo_entity) (resources_for_version demo_versions 18) s \<and> er_cancelled s \<and> er_pc s = Telling"
proof -
  obtain s where "ew_reach (\<lambda>_ :: unit. demo_entity) (resources_for_version demo_versions 18) s" "er_cancelled s"
    "\<forall>s'. (\<lambda>x y. ew_step (\<lambda>_. demo_entity) (resources_for_version demo_versions 18) x y \<or>
      ew_env (resources_for_version demo_versions 18) x y)\<^sup>*\<^sup>* s s' \<longrightarrow> er_pc s' = Telling"
    using stop_during_sync_hangs [of "\<lambda>_. demo_entity" "resources_for_version demo_versions 18"] by blast
  then show ?thesis by blast
qed

end
