(* ===== verification/Gateway_Timing.thy ===== *)
theory Gateway_Timing
  imports Gateway
begin

text \<open>
  How long an audit result stays in the buffer of \<open>SendAuditResultsWorker\<close> (\<open>gateway/governance.go\<close>).

  The ticker fires every 20 seconds, counted from its last tick or from its last reset, which follows a full
  batch. \<open>tw_reach\<close> are the histories of a worker that is served in time: events arrive in the order of the clock,
  and none later than the tick that is due. The buffer carries the time of arrival of each result; \<open>left\<close> is
  history, the results that were handed to the pipe with the time that each spent in the buffer.
\<close>

definition auditResultsBatchExpiry :: go_duration where
  "auditResultsBatchExpiry = 20 * 10 ^ 9"

type_synonym 'obj timed_worker = "('obj AuditResult \<times> go_time) list \<times> 'obj PacketAuditResultRequest Package list \<times> go_time"

definition waits :: "go_time \<Rightarrow> ('obj AuditResult \<times> go_time) list \<Rightarrow> ('obj AuditResult \<times> go_duration) list" where
  "waits now buffer = map (\<lambda>(r, t). (r, now - t)) buffer"

inductive tw_reach :: "(nat \<Rightarrow> int) \<Rightarrow> go_time \<Rightarrow> go_time \<Rightarrow> 'obj timed_worker \<Rightarrow> ('obj AuditResult \<times> go_duration) list \<Rightarrow> bool"
  for d t0 where
  new_ticker: "tw_reach d t0 t0 ([], [], t0 + auditResultsBatchExpiry) []"
| buffered: "tw_reach d t0 now (buffer, pkgs, deadline) left \<Longrightarrow> now \<le> t \<Longrightarrow> t \<le> deadline \<Longrightarrow>
    SendAuditResultsWorker_step (recorder d) t t' (ResultReceived r) (map fst buffer, pkgs) = Some (b', pkgs') \<Longrightarrow> b' \<noteq> [] \<Longrightarrow>
    tw_reach d t0 t (buffer @ [(r, t)], pkgs', deadline) left"
| full_batch: "tw_reach d t0 now (buffer, pkgs, deadline) left \<Longrightarrow> now \<le> t \<Longrightarrow> t \<le> deadline \<Longrightarrow>
    SendAuditResultsWorker_step (recorder d) t t' (ResultReceived r) (map fst buffer, pkgs) = Some ([], pkgs') \<Longrightarrow>
    tw_reach d t0 t ([], pkgs', t + auditResultsBatchExpiry) (left @ waits t (buffer @ [(r, t)]))"
| tick: "tw_reach d t0 now (buffer, pkgs, deadline) left \<Longrightarrow>
    SendAuditResultsWorker_step (recorder d) deadline t' TimerFired (map fst buffer, pkgs) = Some (b', pkgs') \<Longrightarrow>
    tw_reach d t0 deadline ([], pkgs', deadline + auditResultsBatchExpiry) (left @ waits deadline buffer)"

subsection \<open>Invariant\<close>

definition tw_inv :: "go_time \<Rightarrow> 'obj timed_worker \<Rightarrow> ('obj AuditResult \<times> go_duration) list \<Rightarrow> bool" where
  "tw_inv now w left \<longleftrightarrow> (case w of (buffer, pkgs, deadline) \<Rightarrow>
     length buffer < auditResultsBatchSize \<and> now \<le> deadline \<and> deadline \<le> now + auditResultsBatchExpiry \<and>
     (\<forall>(r, t) \<in> set buffer. deadline - auditResultsBatchExpiry \<le> t \<and> t \<le> now) \<and>
     (\<forall>(r, wait) \<in> set left. 0 \<le> wait \<and> wait \<le> auditResultsBatchExpiry) \<and>
     concat (map batch_items pkgs) = map (ToPacket \<circ> fst) left)"

lemma fst_waits [simp]: "map (ToPacket \<circ> fst) (waits now buffer) = map ToPacket (map fst buffer)"
  by (simp add: waits_def split_beta)

lemma waits_bounded:
  assumes "\<forall>(r, t) \<in> set buffer. deadline - auditResultsBatchExpiry \<le> t \<and> t \<le> now" "now \<le> t'" "t' \<le> deadline"
  shows "\<forall>(r, wait) \<in> set (waits t' buffer). 0 \<le> wait \<and> wait \<le> auditResultsBatchExpiry"
  using assms by (fastforce simp: waits_def)

lemma tw_reach_inv: "tw_reach d t0 now w left \<Longrightarrow> tw_inv now w left"
proof (induction rule: tw_reach.induct)
  case new_ticker
  then show ?case by (simp add: tw_inv_def auditResultsBatchExpiry_def auditResultsBatchSize_def)
next
  case (buffered now buffer pkgs deadline left t t' r b' pkgs')
  then have "Suc (length buffer) < auditResultsBatchSize" "pkgs' = pkgs"
    using buffered.IH by (auto simp: tw_inv_def Let_def split: if_splits)
  then show ?case using buffered by (fastforce simp: tw_inv_def)
next
  case (full_batch now buffer pkgs deadline left t t' r pkgs')
  have "pkgs' = pkgs @ [audit_package t t' (map fst buffer @ [r])]"
    using full_batch.hyps(4) by (auto simp: Let_def split: if_splits)
  moreover have "\<forall>(r, wait) \<in> set (waits t (buffer @ [(r, t)])). 0 \<le> wait \<and> wait \<le> auditResultsBatchExpiry"
    using full_batch waits_bounded [of buffer deadline now t] by (auto simp: tw_inv_def waits_def auditResultsBatchExpiry_def)
  ultimately show ?case using full_batch by (auto simp: tw_inv_def auditResultsBatchSize_def auditResultsBatchExpiry_def)
next
  case (tick now buffer pkgs deadline left t' b' pkgs')
  have "concat (map batch_items pkgs') = concat (map batch_items pkgs) @ map ToPacket (map fst buffer)"
    using tick.hyps(2) by (auto split: if_splits)
  moreover have "\<forall>(r, wait) \<in> set (waits deadline buffer). 0 \<le> wait \<and> wait \<le> auditResultsBatchExpiry"
    using tick waits_bounded [of buffer deadline now deadline] by (auto simp: tw_inv_def)
  ultimately show ?case using tick by (auto simp: tw_inv_def auditResultsBatchSize_def auditResultsBatchExpiry_def)
qed

subsection \<open>Properties\<close>

text \<open>C18: With a worker that is served in time no audit result stays in the gateway for more than 20 seconds: each
  result in the packages handed to the pipe left the buffer within 20 seconds, whether with a full batch, which
  resets the ticker, or with a tick; what is in the buffer has not been there longer either; and the buffer
  never holds a full batch.\<close>

theorem audit_results_leave_in_time:
  assumes "tw_reach d t0 now (buffer, pkgs, deadline) left"
  shows "concat (map batch_items pkgs) = map (ToPacket \<circ> fst) left \<and>
    (\<forall>(r, wait) \<in> set left. 0 \<le> wait \<and> wait \<le> 20 * 10 ^ 9) \<and>
    (\<forall>(r, t) \<in> set buffer. 0 \<le> now - t \<and> now - t \<le> 20 * 10 ^ 9) \<and>
    length buffer < 1000 \<and> now \<le> deadline \<and> deadline \<le> now + 20 * 10 ^ 9"
proof -
  have "auditResultsBatchExpiry = 20 * 10 ^ 9" "auditResultsBatchSize = 1000"
    by (simp_all add: auditResultsBatchExpiry_def auditResultsBatchSize_def)
  then show ?thesis using tw_reach_inv [OF assms] unfolding tw_inv_def by auto
qed

theorem audit_results_leave_in_time_witness:
  "\<exists>pkgs. tw_reach (\<lambda>_. 0) 0 (20 * 10 ^ 9) ([], pkgs, 40 * 10 ^ 9) [(demo_result, 15 * 10 ^ 9)] \<and>
    concat (map batch_items pkgs) = [ToPacket demo_result] \<and> (15 * 10 ^ 9 :: int) \<le> 20 * 10 ^ 9"
proof -
  have b: "tw_reach (\<lambda>_. 0) 0 (5 * 10 ^ 9) ([(demo_result, 5 * 10 ^ 9)], [], 20 * 10 ^ 9) []"
    using tw_reach.buffered [OF tw_reach.new_ticker [of "\<lambda>_. 0" 0], of "5 * 10 ^ 9" _ demo_result]
    by (simp add: auditResultsBatchExpiry_def auditResultsBatchSize_def)
  obtain pkgs where r: "tw_reach (\<lambda>_. 0) 0 (20 * 10 ^ 9) ([], pkgs, 40 * 10 ^ 9) [(demo_result, 15 * 10 ^ 9)]"
    using tw_reach.tick [OF b] by (auto simp: auditResultsBatchExpiry_def waits_def)
  from audit_results_leave_in_time [OF r] show ?thesis using r by (intro exI [of _ pkgs]) auto
qed

end
