(* ===== verification/Client_Authorized.thy ===== *)
theory Client_Authorized
  imports Startup
begin

text \<open>
  The signal that the client is authorized: \<open>onConnect\<close> (\<open>client/connect.go\<close>) sets \<open>authorized\<close> and then sends on
  the channel \<open>connected\<close>, which has no buffer; \<open>WaitAuthorization\<close> (\<open>gateway/magalix-gateway.go\<close>) first tests
  \<open>authorized\<close> and receives from the channel only if it is not set. Nobody else receives from it.

  The goroutines are a step relation: each test, assignment and channel operation is one step. The connection may
  be lost at any moment (\<open>onDisconnect\<close> clears the flags), and after a run of \<open>onConnect\<close> has ended the next
  connection starts another one. The channel library calls the two hooks; nothing is assumed of it that would keep
  \<open>onDisconnect\<close> from running while \<open>onConnect\<close> does. \<open>sg_ever\<close> is history: some \<open>onConnect\<close> has authorized the client.
\<close>

datatype hook_pc = Authorizing | AtConnected | AfterConnected
datatype gate_pc = BeforeTest | AtSelect | GateReturned "string option"

record signal =
  sg_hook :: hook_pc
  sg_gate :: gate_pc
  sg_client :: Client
  sg_ever :: bool

definition signal_init :: "Client \<Rightarrow> signal" where
  "signal_init c = \<lparr>sg_hook = Authorizing, sg_gate = BeforeTest, sg_client = c\<lparr>cl_authorized := False\<rparr>, sg_ever = False\<rparr>"

inductive signal_step :: "signal \<Rightarrow> signal \<Rightarrow> bool" where
  authorize_ok: "sg_hook s = Authorizing \<Longrightarrow>
    signal_step s (s\<lparr>sg_hook := AtConnected, sg_client := (sg_client s)\<lparr>cl_authorized := True\<rparr>, sg_ever := True\<rparr>)"
| disconnected: "signal_step s (s\<lparr>sg_client := onDisconnect (sg_client s)\<rparr>)"
| reconnected: "sg_hook s = AfterConnected \<Longrightarrow>
    signal_step s (s\<lparr>sg_hook := Authorizing, sg_client := (sg_client s)\<lparr>cl_connected := True\<rparr>\<rparr>)"
| test_ready: "sg_gate s = BeforeTest \<Longrightarrow> IsReady (sg_client s) \<Longrightarrow>
    signal_step s (s\<lparr>sg_gate := GateReturned (WaitAuthorization (sg_client s) outcome)\<rparr>)"
| test_waits: "sg_gate s = BeforeTest \<Longrightarrow> \<not> IsReady (sg_client s) \<Longrightarrow> signal_step s (s\<lparr>sg_gate := AtSelect\<rparr>)"
| hand_signal: "sg_hook s = AtConnected \<Longrightarrow> sg_gate s = AtSelect \<Longrightarrow>
    signal_step s (s\<lparr>sg_hook := AfterConnected, sg_gate := GateReturned None\<rparr>)"
| gate_timeout: "sg_gate s = AtSelect \<Longrightarrow> signal_step s (s\<lparr>sg_gate := GateReturned (Some ''authorization timeout'')\<rparr>)"

inductive_cases signal_stepE: "signal_step s s'"

abbreviation signal_reach :: "Client \<Rightarrow> signal \<Rightarrow> bool" where
  "signal_reach c \<equiv> signal_step\<^sup>*\<^sup>* (signal_init c)"

text \<open>Nothing but an authorization sets the flag, gets \<open>onConnect\<close> to its send or lets the gateway report success.\<close>

definition signal_inv :: "signal \<Rightarrow> bool" where
  "signal_inv s \<longleftrightarrow> (cl_authorized (sg_client s) \<or> sg_hook s \<noteq> Authorizing \<or> sg_gate s = GateReturned None \<longrightarrow> sg_ever s)"

lemma signal_step_inv: "signal_step s s' \<Longrightarrow> signal_inv s \<Longrightarrow> signal_inv s'"
  by (auto simp: signal_inv_def IsReady_def onDisconnect_def elim!: signal_stepE)

lemma signal_reach_inv: "signal_reach c s \<Longrightarrow> signal_inv s"
proof (induction rule: rtranclp_induct)
  case base
  then show ?case by (simp add: signal_inv_def signal_init_def)
next
  case (step s1 s2)
  then show ?case using signal_step_inv by blast
qed

text \<open>A gate that has returned never receives.\<close>

lemma hook_stuck:
  assumes "signal_step\<^sup>*\<^sup>* s s'" "sg_hook s = AtConnected" "sg_gate s = GateReturned r"
  shows "sg_hook s' = AtConnected \<and> sg_gate s' = GateReturned r"
  using assms by (induction rule: rtranclp_induct) (auto elim!: signal_stepE)

text \<open>The order of steps in which the signal is lost: authorization, test, and then the send.\<close>

lemma signal_missed:
  "\<exists>s. signal_reach c s \<and> sg_hook s = AtConnected \<and> sg_gate s = GateReturned None"
proof -
  let ?s1 = "(signal_init c)\<lparr>sg_hook := AtConnected, sg_client := (sg_client (signal_init c))\<lparr>cl_authorized := True\<rparr>, sg_ever := True\<rparr>"
  let ?s2 = "?s1\<lparr>sg_gate := GateReturned (WaitAuthorization (sg_client ?s1) FromConnected)\<rparr>"
  have "signal_step (signal_init c) ?s1" by (rule signal_step.authorize_ok) (simp add: signal_init_def)
  moreover have "signal_step ?s1 ?s2" by (rule signal_step.test_ready) (simp_all add: signal_init_def IsReady_def)
  ultimately have "signal_reach c ?s2" by (meson converse_rtranclp_into_rtranclp rtranclp.rtrancl_refl)
  moreover have "sg_hook ?s2 = AtConnected \<and> sg_gate ?s2 = GateReturned None"
    by (simp add: WaitAuthorization_def IsReady_def signal_init_def)
  ultimately show ?thesis by blast
qed

text \<open>And the order in which it arrives although the connection is lost already.\<close>

lemma signal_stale:
  "\<exists>s s'. signal_reach c s \<and> signal_step s s' \<and> sg_gate s = AtSelect \<and> sg_gate s' = GateReturned None \<and> \<not> cl_authorized (sg_client s)"
proof -
  let ?s1 = "(signal_init c)\<lparr>sg_gate := AtSelect\<rparr>"
  let ?s2 = "?s1\<lparr>sg_hook := AtConnected, sg_client := (sg_client ?s1)\<lparr>cl_authorized := True\<rparr>, sg_ever := True\<rparr>"
  let ?s3 = "?s2\<lparr>sg_client := onDisconnect (sg_client ?s2)\<rparr>"
  have "signal_step (signal_init c) ?s1" by (rule signal_step.test_waits) (simp_all add: signal_init_def IsReady_def)
  moreover have "signal_step ?s1 ?s2" by (rule signal_step.authorize_ok) (simp add: signal_init_def)
  moreover have "signal_step ?s2 ?s3" by (rule signal_step.disconnected)
  ultimately have "signal_reach c ?s3" by (meson converse_rtranclp_into_rtranclp rtranclp.rtrancl_refl)
  moreover have "signal_step ?s3 (?s3\<lparr>sg_hook := AfterConnected, sg_gate := GateReturned None\<rparr>)" by (rule signal_step.hand_signal) simp_all
  moreover have "sg_gate ?s3 = AtSelect" "\<not> cl_authorized (sg_client ?s3)"
    "sg_gate (?s3\<lparr>sg_hook := AfterConnected, sg_gate := GateReturned None\<rparr>) = GateReturned None" by (simp_all add: onDisconnect_def)
  ultimately show ?thesis by blast
qed

subsection \<open>Properties\<close>

text \<open>C31: The gateway reports success only if \<open>onConnect\<close> has authorized the client before, though the connection
  may be lost and the client no longer authorized when it does; and while it waits, the signal reaches it. But if
  it tests the flag after \<open>onConnect\<close> has set it and before the signal is sent, it returns without receiving, and
  \<open>onConnect\<close> is blocked on the channel for ever, with the waiters that it should have released.\<close>

theorem authorization_signal_lost:
  "(\<forall>s. signal_reach c s \<and> sg_gate s = GateReturned None \<longrightarrow> sg_ever s) \<and>
    (\<exists>s s'. signal_reach c s \<and> signal_step s s' \<and> sg_gate s = AtSelect \<and> sg_gate s' = GateReturned None \<and>
      \<not> cl_authorized (sg_client s)) \<and>
    (\<forall>s. signal_reach c s \<and> sg_hook s = AtConnected \<and> sg_gate s = AtSelect \<longrightarrow>
      (\<exists>s'. signal_step s s' \<and> sg_hook s' = AfterConnected \<and> sg_gate s' = GateReturned None)) \<and>
    (\<exists>s. signal_reach c s \<and> sg_gate s = GateReturned None \<and>
      (\<forall>s'. signal_step\<^sup>*\<^sup>* s s' \<longrightarrow> sg_hook s' = AtConnected))"
proof (intro conjI allI impI; (elim conjE)?)
  fix s :: signal assume "signal_reach c s" "sg_gate s = GateReturned None"
  then show "sg_ever s" using signal_reach_inv by (auto simp: signal_inv_def)
next
  fix s :: signal assume "sg_hook s = AtConnected" "sg_gate s = AtSelect"
  from signal_step.hand_signal [OF this] show "\<exists>s'. signal_step s s' \<and> sg_hook s' = AfterConnected \<and> sg_gate s' = GateReturned None"
    by (intro exI conjI) auto
next
  obtain s where s: "signal_reach c s" "sg_hook s = AtConnected" "sg_gate s = GateReturned None" using signal_missed by blast
  then show "\<exists>s. signal_reach c s \<and> sg_gate s = GateReturned None \<and> (\<forall>s'. signal_step\<^sup>*\<^sup>* s s' \<longrightarrow> sg_hook s' = AtConnected)"
    using hook_stuck by blast
qed (rule signal_stale)

theorem authorization_signal_lost_witness:
  "\<exists>s. signal_reach demo_client s \<and> sg_gate s = GateReturned None \<and> sg_hook s = AtConnected"
  using authorization_signal_lost [of demo_client] by blast

end
