(* ===== verification/Command_Line.thy ===== *)
theory Command_Line
  imports Main_Program
begin

text \<open>
  The command line that \<open>main.go\<close> declares (\<open>usage\<close>) and what \<open>main\<close> makes of it: the options with their
  arguments and defaults, in the order of the text. The parser (docopt) is not part of the repository; what it
  documents is the predicate \<open>respects_usage\<close>: an option that is not given has its default, a switch that is
  not given is false.
\<close>

record option_decl =
  od_name :: string
  od_argument :: bool
  od_repeats :: bool
  od_default :: "string option"

definition switch :: "string \<Rightarrow> option_decl" where
  "switch name = \<lparr>od_name = name, od_argument = False, od_repeats = False, od_default = None\<rparr>"

definition valued :: "string \<Rightarrow> string option \<Rightarrow> option_decl" where
  "valued name d = \<lparr>od_name = name, od_argument = True, od_repeats = False, od_default = d\<rparr>"

definition repeated :: "string \<Rightarrow> option_decl" where
  "repeated name = \<lparr>od_name = name, od_argument = True, od_repeats = True, od_default = None\<rparr>"

definition usage_options :: "option_decl list" where
  "usage_options =
     [valued ''--gateway'' (Some ''wss://gateway.agent.magalix.cloud''), valued ''--account-id'' (Some ''$ACCOUNT_ID''),
     valued ''--cluster-id'' (Some ''$CLUSTER_ID''), valued ''--client-secret'' (Some ''$SECRET''), valued ''--kube-url'' None,
      switch ''--kube-insecure'', valued ''--kube-root-ca-cert'' None, valued ''--kube-token'' None,
     switch ''--kube-incluster'', valued ''--kube-timeout'' (Some ''30s''), repeated ''--skip-namespace'',
     repeated ''--source'', valued ''--kubelet-port'' (Some ''10255''), valued ''--kubelet-backoff-sleep'' (Some ''300ms''),
     valued ''--kubelet-backoff-max-retries'' (Some ''5''), valued ''--metrics-interval'' (Some ''1m''),
     valued ''--events-buffer-flush-interval'' (Some ''10s''), valued ''--events-buffer-size'' (Some ''20''),
     valued ''--executor-workers'' (Some ''5''), valued ''--timeout-proto-handshake'' (Some ''10s''),
     valued ''--timeout-proto-write'' (Some ''60s''), valued ''--timeout-proto-read'' (Some ''60s''),
     valued ''--timeout-proto-reconnect'' (Some ''1s''), valued ''--timeout-proto-backoff'' (Some ''300ms''),
     switch ''--opt-in-analysis-data'', valued ''--analysis-data-interval'' (Some ''5m''), valued ''--port'' (Some ''80''),
     switch ''--disable-metrics'', switch ''--disable-automation-execution'', switch ''--no-send-logs'', switch ''--debug'',
     switch ''--trace'', valued ''--trace-log'' None, valued ''--log-level'' (Some ''info''), switch ''--help'',
     switch ''--version'', switch ''--packets-v2'', switch ''--disable-events'', switch ''--disable-scalar'',
     switch ''--dry-run'']"

text \<open>The second line of the usage: exactly one of \<open>--kube-url\<close> and \<open>--kube-incluster\<close> is required.\<close>

definition usage_pattern :: "args \<Rightarrow> bool" where
  "usage_pattern given \<longleftrightarrow> (given ''--kube-url'' \<noteq> None) \<noteq> (given ''--kube-incluster'' \<noteq> None)"

definition respects_usage :: "args \<Rightarrow> args \<Rightarrow> bool" where
  "respects_usage given args \<longleftrightarrow> usage_pattern given \<and>
     (\<forall>d \<in> set usage_options. \<not> od_repeats d \<longrightarrow> args (od_name d) =
        (case given (od_name d) of
           Some v \<Rightarrow> Some v
         | None \<Rightarrow> if od_argument d then map_option StringArg (od_default d) else Some (BoolArg False)))"

text \<open>What \<open>time.ParseDuration\<close> documents for a whole number of one unit.\<close>

definition parses_durations :: "(string \<Rightarrow> go_duration option) \<Rightarrow> bool" where
  "parses_durations parse \<longleftrightarrow> (\<forall>n \<le> 1000. parse (decimal n @ ''s'') = Some (int n * second) \<and>
     parse (decimal n @ ''m'') = Some (int n * minute) \<and> parse (decimal n @ ''ms'') = Some (int n * (second div 1000)))"

subsection \<open>Options that have no effect\<close>

definition main_flags :: "string list" where
  "main_flags =
     [''--port'', ''--account-id'', ''--cluster-id'', ''--client-secret'', ''--gateway'', ''--timeout-proto-handshake'',
      ''--timeout-proto-write'', ''--timeout-proto-read'', ''--timeout-proto-reconnect'', ''--timeout-proto-backoff'',
      ''--no-send-logs'', ''--log-level'', ''--kube-incluster'', ''--kube-token'', ''--kube-url'', ''--kube-root-ca-cert'',
      ''--kube-insecure'', ''--kube-timeout'']"

text \<open>Each access to the arguments is through \<open>string_value\<close> or \<open>bool_value\<close> of one of these names.\<close>

lemma same_flags_values:
  assumes "\<forall>f \<in> set main_flags. args' f = args f" "f \<in> set main_flags"
  shows "string_value args' f = string_value args f" "bool_value args' f = bool_value args f"
  using assms by (simp_all add: string_value_def bool_value_def)

lemma same_flags_readers:
  assumes "\<forall>f \<in> set main_flags. args' f = args f" "f \<in> set main_flags"
  shows "MustParseDuration parse args' f = MustParseDuration parse args f"
    and "ExpandEnv getenv args' f b = ExpandEnv getenv args f b"
    and "ExpandEnvUUID uuid getenv args' f = ExpandEnvUUID uuid getenv args f"
  using same_flags_values [OF assms] by (simp_all add: MustParseDuration_def ExpandEnv_def ExpandEnvUUID_def)

lemma same_flags_configs:
  assumes same: "\<forall>f \<in> set main_flags. args' f = args f"
  shows "main_kube env new args' = main_kube env new args"
    and "main_gateway menv args' acc cl sec = main_gateway menv args acc cl sec"
proof -
  note v = same_flags_values [OF same, unfolded main_flags_def] and r = same_flags_readers [OF same, unfolded main_flags_def]
  have "user_config env args' = user_config env args" by (simp add: user_config_def v)
  then show "main_kube env new args' = main_kube env new args" by (simp add: main_kube_def getKRestConfig_def Let_def v r cong: option.case_cong bool.case_cong)
  have "main_timeouts (mn_rest menv) args' = main_timeouts (mn_rest menv) args" by (simp add: main_timeouts_def Let_def r)
  then show "main_gateway menv args' acc cl sec = main_gateway menv args acc cl sec" by (simp add: main_gateway_def Let_def v)
qed

text \<open>\<open>main\<close> reads no other option: those that the usage calls deprecated, but also \<open>--debug\<close>, \<open>--trace\<close>,
  \<open>--skip-namespace\<close> and \<open>--source\<close>, change nothing.\<close>

lemma parse_args_update:
  "main_gateway (env\<lparr>mn_ParseArgs := p\<rparr>) args acc cl sec = main_gateway env args acc cl sec"
  "main_dynamic (env\<lparr>mn_ParseArgs := p\<rparr>) config = main_dynamic env config"
  by (simp_all add: main_gateway_def main_dynamic_def)

lemma main_reads_only:
  assumes same: "\<forall>f \<in> set main_flags. args' f = args f" and "mn_ParseArgs env = Inr args"
  shows "main_setup (env\<lparr>mn_ParseArgs := Inr args'\<rparr>) lg = main_setup env lg"
  using assms(2)
  by (simp add: main_setup_def Let_def parse_args_update same_flags_configs [OF same]
      same_flags_values [OF same, unfolded main_flags_def] same_flags_readers [OF same, unfolded main_flags_def] cong: if_cong)

lemma debug_trace_ignored:
  assumes "mn_ParseArgs env = Inr args" "f \<in> {''--debug'', ''--trace'', ''--skip-namespace'', ''--source''}"
  shows "main_setup (env\<lparr>mn_ParseArgs := Inr (args(f := v))\<rparr>) lg = main_setup env lg"
proof (rule main_reads_only [OF _ assms(1)])
  have "f \<notin> set main_flags" using assms(2) by (elim insertE emptyE) (simp_all add: main_flags_def)
  then show "\<forall>g \<in> set main_flags. (args(f := v)) g = args g" by auto
qed

subsection \<open>The defaults\<close>

lemma default_value:
  assumes "respects_usage given args" "valued name (Some x) \<in> set usage_options" "given name = None"
  shows "string_value args name = Some x"
  using assms by (auto simp: respects_usage_def valued_def string_value_def)

lemma switch_value:
  assumes "respects_usage given args" "switch name \<in> set usage_options"
  shows "bool_value args name = (case given name of None \<Rightarrow> Some False | Some (BoolArg b) \<Rightarrow> Some b | _ \<Rightarrow> None)"
  using assms by (auto simp: respects_usage_def switch_def bool_value_def split: option.splits)

text \<open>The command line of the deployment: nothing but \<open>--kube-incluster\<close>.\<close>

definition only_incluster :: args where
  "only_incluster = [''--kube-incluster'' \<mapsto> BoolArg True]"

lemma parses_defaults:
  assumes "parses_durations parse"
  shows "parse ''30s'' = Some (30 * second)" "parse ''10s'' = Some (10 * second)" "parse ''60s'' = Some (60 * second)"
    and "parse ''1s'' = Some second" "parse ''300ms'' = Some (300 * (second div 1000))"
proof -
  have d: "decimal 30 = ''30''" "decimal 10 = ''10''" "decimal 60 = ''60''" "decimal 1 = ''1''" "decimal 300 = ''300''"
    by (simp_all add: decimal.simps char_of_def bit_0)
  show "parse ''30s'' = Some (30 * second)" "parse ''10s'' = Some (10 * second)" "parse ''60s'' = Some (60 * second)"
    "parse ''1s'' = Some second" "parse ''300ms'' = Some (300 * (second div 1000))"
    using assms [unfolded parses_durations_def, rule_format, of 30] assms [unfolded parses_durations_def, rule_format, of 10]
      assms [unfolded parses_durations_def, rule_format, of 60] assms [unfolded parses_durations_def, rule_format, of 1]
      assms [unfolded parses_durations_def, rule_format, of 300] by (simp_all only: d) simp_all
qed

lemma default_timeouts:
  assumes "respects_usage only_incluster args" "parses_durations (re_ParseDuration env)"
  shows "main_timeouts env args = Value \<lparr>to_protoHandshake = 10 * second, to_protoWrite = 60 * second, to_protoRead = 60 * second,
      to_protoReconnect = second, to_protoBackoff = 300 * (second div 1000)\<rparr>"
    and "MustParseDuration (re_ParseDuration env) args ''--kube-timeout'' = Value (30 * second)"
proof -
  note v = default_value [OF assms(1)] and p = parses_defaults [OF assms(2)]
  have "string_value args ''--timeout-proto-handshake'' = Some ''10s''" "string_value args ''--timeout-proto-write'' = Some ''60s''"
    "string_value args ''--timeout-proto-read'' = Some ''60s''" "string_value args ''--timeout-proto-reconnect'' = Some ''1s''"
    "string_value args ''--timeout-proto-backoff'' = Some ''300ms''" "string_value args ''--kube-timeout'' = Some ''30s''"
    by (rule v; simp add: usage_options_def only_incluster_def)+
  then show "main_timeouts env args = Value \<lparr>to_protoHandshake = 10 * second, to_protoWrite = 60 * second, to_protoRead = 60 * second,
      to_protoReconnect = second, to_protoBackoff = 300 * (second div 1000)\<rparr>"
    "MustParseDuration (re_ParseDuration env) args ''--kube-timeout'' = Value (30 * second)"
    by (simp_all add: main_timeouts_def MustParseDuration_def p)
qed

lemma default_options:
  assumes "respects_usage only_incluster args"
  shows "string_value args ''--port'' = Some ''80''" "string_value args ''--log-level'' = Some ''info''"
    and "string_value args ''--gateway'' = Some ''wss://gateway.agent.magalix.cloud''"
    and "string_value args ''--account-id'' = Some ''$ACCOUNT_ID''" "string_value args ''--cluster-id'' = Some ''$CLUSTER_ID''"
    and "string_value args ''--client-secret'' = Some ''$SECRET''"
    and "bool_value args ''--no-send-logs'' = Some False" "bool_value args ''--kube-incluster'' = Some True"
proof -
  show "string_value args ''--port'' = Some ''80''" "string_value args ''--log-level'' = Some ''info''"
    "string_value args ''--gateway'' = Some ''wss://gateway.agent.magalix.cloud''"
    "string_value args ''--account-id'' = Some ''$ACCOUNT_ID''" "string_value args ''--cluster-id'' = Some ''$CLUSTER_ID''"
    "string_value args ''--client-secret'' = Some ''$SECRET''"
    by (rule default_value [OF assms]; simp add: usage_options_def only_incluster_def)+
  have "switch ''--no-send-logs'' \<in> set usage_options" "switch ''--kube-incluster'' \<in> set usage_options"
    by (simp_all add: usage_options_def)
  from this [THEN switch_value [OF assms]]
  show "bool_value args ''--no-send-logs'' = Some False" "bool_value args ''--kube-incluster'' = Some True"
    by (simp_all add: only_incluster_def)
qed

lemma GetClusterProvider_nodes: "nodes \<noteq> Inr [] \<Longrightarrow> \<exists>provider. GetClusterProvider nodes = Some provider"
  by (auto simp: GetClusterProvider_def split: sum.split list.split)

text \<open>The environment and the cluster give what \<open>main\<close> asks them for.\<close>

definition deployed :: "('cs, 'apps, 'batch, 'core, 'info, 'rules, 'dyn, 'f, 'i) main_env \<Rightarrow> string \<Rightarrow> string \<Rightarrow> bytes \<Rightarrow> bool" where
  "deployed env accountID clusterID secret \<longleftrightarrow>
     (let getenv = re_getenv (mn_rest env) in
      getenv ''ACCOUNT_ID'' \<noteq> [] \<and> mn_UUID env (getenv ''ACCOUNT_ID'') = Some accountID \<and>
      getenv ''CLUSTER_ID'' \<noteq> [] \<and> mn_UUID env (getenv ''CLUSTER_ID'') = Some clusterID \<and>
      getenv ''SECRET'' \<noteq> [] \<and> mn_base64 env (getenv ''SECRET'') = Inr secret \<and>
      (\<exists>config kube. re_InClusterConfig (mn_rest env) = Inr config \<and>
         InitKubernetes (mn_clients env) (config\<lparr>rc_Timeout := 30 * second\<rparr>) = Inr kube) \<and>
      mn_Nodes env \<noteq> Inr [] \<and> mn_cacheSync env = None \<and> watched_for (mn_scheme env) (mn_MinorVersion env) \<noteq> None)"

lemma default_gateway:
  assumes "respects_usage only_incluster args" "parses_durations (re_ParseDuration (mn_rest env))"
    and "GetClusterProvider (mn_Nodes env) = Some provider"
  shows "main_gateway env args accountID clusterID secret =
    assertion (gateway_New (mn_parseURL env) ''wss://gateway.agent.magalix.cloud'' accountID clusterID secret (mn_version env) (mn_startID env)
      (or_empty (GetServerVersion (mn_versionString env) (mn_ServerVersion env)))
      (case GetAgentPermissions (mn_marshalRules env) (mn_Rules env) of Inl err \<Rightarrow> err | Inr rules \<Rightarrow> rules)
      (or_empty provider) (10 * second) (60 * second) (60 * second) second (300 * (second div 1000)) True)"
  using assms(3) by (simp add: main_gateway_def Let_def assertion_def default_options [OF assms(1)] default_timeouts [OF assms(1,2)])

subsection \<open>Properties\<close>

text \<open>C24: With nothing but \<open>--kube-incluster\<close> on the command line, in an environment that gives the two ids and
  the secret and a cluster that answers, \<open>main\<close> reaches the agent: every default of the usage is accepted, the
  client has the ids and the secret of the environment, the default address and timeouts, logs are sent, the
  log level is info and the probes listen on port 80; the process ends as the agent does.\<close>

theorem default_command_line:
  assumes "mn_ParseArgs env = Inr args" and usage: "respects_usage only_incluster args"
    and durations: "parses_durations (re_ParseDuration (mn_rest env))" and "deployed env accountID clusterID secret"
    and "mn_parseURL env ''wss://gateway.agent.magalix.cloud'' = Some address"
  shows "\<exists>s. main_setup env lg = Value s \<and>
    main_program env agentStart lg = (case agentStart s of None \<Rightarrow> Value () | Some err \<Rightarrow> Exit 1) \<and>
    cl_AccountID (mg_gwClient (ms_gateway s)) = accountID \<and> cl_ClusterID (mg_gwClient (ms_gateway s)) = clusterID \<and>
    cl_secret (mg_gwClient (ms_gateway s)) = secret \<and> wc_address (mg_gwClient (ms_gateway s)) = address \<and>
    wc_timeouts (mg_gwClient (ms_gateway s)) = \<lparr>to_protoHandshake = 10 * second, to_protoWrite = 60 * second,
      to_protoRead = 60 * second, to_protoReconnect = second, to_protoBackoff = 300 * (second div 1000)\<rparr> \<and>
    wc_shouldSendLogs (mg_gwClient (ms_gateway s)) \<and> lg_level (ms_logger s) = InfoLevel \<and> pb_address (ms_probes s) = '':80''"
proof -
  let ?getenv = "re_getenv (mn_rest env)"
  note o = default_options [OF usage] and t = default_timeouts [OF usage durations] and d = assms(4) [unfolded deployed_def Let_def]
  have ids: "ExpandEnvUUID (mn_UUID env) ?getenv args ''--account-id'' = Value accountID"
    "ExpandEnvUUID (mn_UUID env) ?getenv args ''--cluster-id'' = Value clusterID"
    "ExpandEnv ?getenv args ''--client-secret'' False = Value (?getenv ''SECRET'')"
    using d by (simp_all add: ExpandEnvUUID_def ExpandEnv_def o)
  obtain kube where kube: "main_kube (mn_rest env) (InitKubernetes (mn_clients env)) args = Value kube"
    using d by (auto simp: main_kube_def getKRestConfig_def o t)
  obtain provider where provider: "GetClusterProvider (mn_Nodes env) = Some provider" using d GetClusterProvider_nodes by blast
  obtain resources where "watched_for (mn_scheme env) (mn_MinorVersion env) = Some resources" using d by blast
  with assms(1,5) d ids kube provider show ?thesis
    by (simp add: default_gateway [OF usage durations provider] main_setup_def main_program_def Let_def assertion_def or_exit_def o main_logger_def ConfigureGlobalLogger_def
        gateway_New_def InitClient_def newClient_def NewProbesServer_def)
qed

definition whole_duration :: "string \<Rightarrow> go_duration option" where
  "whole_duration s =
     (case map_of [(''s'', second), (''m'', minute), (''ms'', second div 1000)] (dropWhile (\<lambda>c. digit c \<noteq> None) s) of
        None \<Rightarrow> None
      | Some unit \<Rightarrow> Some (fst (Atoi (takeWhile (\<lambda>c. digit c \<noteq> None) s)) * unit))"

lemma whole_duration_parses: "parses_durations whole_duration"
proof -
  have "whole_duration (decimal n @ c # u) = (case map_of [(''s'', second), (''m'', minute), (''ms'', second div 1000)] (c # u) of
      None \<Rightarrow> None | Some unit \<Rightarrow> Some (int n * unit))" if "n \<le> 1000" "digit c = None" for n c u
  proof -
    have "Atoi (decimal n) = (int n, None)" by (rule Atoi_decimal) (use that in simp)
    then show ?thesis using that(2) decimal_digits [of _ n]
      by (simp add: whole_duration_def dropWhile_append takeWhile_append cong: option.case_cong)
  qed
  then show ?thesis by (simp add: parses_durations_def digit_def)
qed

definition usage_args :: "args \<Rightarrow> args" where
  "usage_args given f =
     (case given f of
        Some v \<Rightarrow> Some v
      | None \<Rightarrow> (case List.find (\<lambda>d. od_name d = f) usage_options of
          None \<Rightarrow> None
        | Some d \<Rightarrow> if od_argument d then map_option StringArg (od_default d) else Some (BoolArg False)))"

lemma usage_args_respect: "respects_usage only_incluster (usage_args only_incluster)"
  by code_simp

definition demo_deployment :: "(unit, unit, unit, unit, unit, unit, unit, GroupVersionResource list \<times> nat, nat) main_env" where
  "demo_deployment = demo_main\<lparr>mn_ParseArgs := Inr (usage_args only_incluster), mn_rest := (mn_rest demo_main)
     \<lparr>re_ParseDuration := whole_duration,
      re_InClusterConfig := Inr \<lparr>rc_Host = [], rc_APIPath = [], rc_ContentType = [], rc_BearerToken = [], rc_CAFile = [],
        rc_Insecure = False, rc_Timeout = 0\<rparr>\<rparr>\<rparr>"

theorem default_command_line_witness:
  "\<exists>s :: (GroupVersionResource list \<times> nat, unit) main_state.
    main_setup demo_deployment \<lparr>lg_level = ErrorLevel, lg_accountID = None, lg_clusterID = None\<rparr> = Value s \<and>
    cl_secret (mg_gwClient (ms_gateway s)) = [1] \<and> lg_level (ms_logger s) = InfoLevel"
proof -
  have "deployed demo_deployment ''abc'' ''abc'' [1]"
    by (simp add: deployed_def demo_deployment_def demo_main_def InitKubernetes_def watched_for_def GetServerMinorVersion_def
        Atoi_def digit_def Let_def)
  moreover have "mn_ParseArgs demo_deployment = Inr (usage_args only_incluster)"
    "parses_durations (re_ParseDuration (mn_rest demo_deployment))"
    "mn_parseURL demo_deployment ''wss://gateway.agent.magalix.cloud'' = Some ''wss://gateway.agent.magalix.cloud''"
    using whole_duration_parses by (simp_all add: demo_deployment_def demo_main_def)
  ultimately show ?thesis using default_command_line [OF _ usage_args_respect] by metis
qed

end
