(* ===== verification/Spec2Isabelle.thy ===== *)
theory Spec2Isabelle
  imports Pipe_Store_Properties Pipe_Workers Kuber_Parents Governance_Data Results_Cache Opa_Auditor_Properties
    Auditor_Loop Client_Logs Gateway Client_Session Client_Wait Kuber_Observer Entities Utils Agent_Main Agent_Flow Startup Wiring
    Recovery Kuber_Informers Main_Program Server_Commands Audit_Pipeline Gateway_Pipe Full_Audit Auditor_Race Auditor_Worker
    Client_Connect Draining Pipe_Drain Delivery Entities_Start Gateway_Timing
    Client_Authorized Command_Line
begin

text \<open>
  A verification development for the Magalix agent, a Go program that runs in a Kubernetes cluster,
  watches its resources, audits them against policies it receives from a server, and sends the results
  and its own logs back.

  \<^bold>\<open>How the parts interact.\<close> \<open>main.go\<close> builds the parts and runs \<open>agent/agent.go\<close>. The observer (\<open>kuber/\<close>)
  receives cluster events from informers, masks secrets and calls the entities watcher (\<open>entities/\<close>), which
  passes them on to the auditor (\<open>auditor/\<close>) as audit events. The auditor's worker evaluates the policies
  of the stored constraints (\<open>auditor/opa-auditor/\<close>) and hands results to the agent, which gives them to
  the gateway (\<open>gateway/\<close>). The gateway batches results into packages for the client (\<open>client/\<close>), whose pipe
  keeps them in a priority store until one of its workers has sent them. Packets from the server
  (constraints, audit commands, restart, log level) reach listeners of the gateway.

  \<^bold>\<open>Theories.\<close>
  \<^item> \<open>Prelude\<close>: representation of Go values, 64-bit wrap-around, list facts.
  \<^item> \<open>Container_Heap\<close>, \<open>Pipe_Store\<close>, \<open>Pipe_Interface\<close>, \<open>Pipe_Store_Properties\<close>: \<open>container/heap\<close> and
    \<open>client/pipe_store.go\<close> over an explicit memory of packages; \<open>store_inv\<close> is the invariant, the locale
    \<open>pipe_store\<close> the interface with an abstract store as specification, its interpretation \<open>ps\<close> the
    refinement proof. \<open>Add\<close>, \<open>Pop\<close>, \<open>Peek\<close>, \<open>Ack\<close>, \<open>Len\<close> never panic and implement the abstract store.
  \<^item> \<open>Pipe_Workers\<close>: \<open>client/pipe.go\<close>, senders and workers as interleaved events; no package is lost or
    duplicated, no deadlock, no lost wake-up with two or more workers, a lost wake-up with one.
  \<^item> \<open>Draining\<close>: the locale \<open>draining\<close>, systems whose steps keep an invariant, decrease a well-founded order and
    are possible until a final state; its lemmas say that every run ends, and where. \<open>Pipe_Drain\<close> interprets it
    for the pipe (\<open>pipe_drain\<close>): with a server that accepts what it is sent the workers come to rest; and for the
    steps that pop by a given time (\<open>timely\<close>): what has not expired by then is sent and not counted as dropped. The other
    instances are \<open>pl\<close> in \<open>Audit_Pipeline\<close>, \<open>dv\<close> in \<open>Delivery\<close> and \<open>ews\<close> in \<open>Entities_Start\<close>.
  \<^item> \<open>Client_Logs\<close>: \<open>client/logging.go\<close>; every line is piped once, in order.
  \<^item> \<open>Client_Session\<close>: backoff, \<open>send\<close>, \<open>hello\<close>, \<open>authorize\<close>, \<open>ping\<close>, the watchdog, \<open>onConnect\<close> and
    \<open>onDisconnect\<close> of \<open>client.go\<close>, \<open>sender.go\<close>, \<open>auth.go\<close>, \<open>connect.go\<close>.
  \<^item> \<open>Client_Connect\<close>: \<open>Connect\<close> and \<open>PipeStatus\<close>, the pipes with their workers and the group \<open>Connect\<close> waits for.
  \<^item> \<open>Client_Authorized\<close>: the signal from \<open>onConnect\<close> to \<open>WaitAuthorization\<close> as a step relation, with losses of the
    connection (\<open>onDisconnect\<close>) at any moment; what success of the wait means, and the order of steps in which the
    signal is lost.
  \<^item> \<open>Recovery\<close>: \<open>client/client_recover.go\<close>; a panic is reported with a complete trace.
  \<^item> \<open>Client_Wait\<close>: \<open>WaitForConnection\<close> against the end of \<open>onConnect\<close>, as interleaved events, with the receiver of
    the blocking \<open>connected <- true\<close> and \<open>onDisconnect\<close>.
  \<^item> \<open>Governance_Data\<close>: constraints, results and their packets (\<open>agent/governance.go\<close>, \<open>proto/packets.go\<close>).
  \<^item> \<open>Results_Cache\<close>, \<open>Opa_Auditor\<close>, \<open>Opa_Auditor_Properties\<close>: \<open>auditor/opa-auditor/\<close>. The locale
    \<open>results_cache\<close> is the contract of the cache, interpreted as \<open>rc\<close>; \<open>opa_inv\<close> ties constraints, templates
    and usage counts together.
  \<^item> \<open>Auditor_Loop\<close>: \<open>auditor/auditor.go\<close>, events and one round of the worker; \<open>auditor_reach\<close> are the
    states of the worker. In them a round panics exactly when a policy reports a message that is not a string
    (\<open>bad_message\<close>); what a change of an entity sends and caches is described exactly. \<open>Auditor_Worker\<close> has the construction and the whole loop, \<open>Full_Audit\<close> what an audit
    of everything leaves in the cache, \<open>Auditor_Race\<close> the two writes of \<open>UpdateConstraint\<close> with a round of the
    worker between them.
  \<^item> \<open>Gateway\<close>: \<open>gateway/\<close>, the batching worker and the listeners. \<open>Gateway_Pipe\<close> runs the worker on the pipe of
    the client, beside the pipe's own workers and its other users; \<open>Gateway_Timing\<close> puts the worker and its
    ticker on a clock and bounds the time that a result spends in the buffer.
  \<^item> \<open>Audit_Pipeline\<close>: the two channels between senders of events, audit worker and gateway, with their
    capacities; nothing is lost or stuck, and without new events the workers come to an end. \<open>Delivery\<close> adds the
    pipe with its workers: the results of every audit reach the server.
  \<^item> \<open>Server_Commands\<close>: the setters of the gateway, \<open>AddListener\<close>, and the handlers that the agent installs, from
    the kind of a packet to its effect.
  \<^item> \<open>Kuber_Parents\<close>, \<open>Kuber_Resources\<close>, \<open>Kuber_Observer\<close>: \<open>kuber/utils.go\<close>, \<open>resources.go\<close>, \<open>mask.go\<close> and
    the event handler of \<open>observer.go\<close>.
  \<^item> \<open>Entities\<close>: \<open>entities/entities.go\<close>, watchers, event handlers and the deltas worker.
  \<^item> \<open>Kuber_Informers\<close>: \<open>Observer\<close>, \<open>watcher\<close> and \<open>ResourceEventHandlerFuncs\<close> of \<open>observer.go\<close>, the loops of
    \<open>EntitiesWatcher.Start\<close> on them, and the two waits for the informers' caches as a step relation.
    \<open>Entities_Start\<close> runs \<open>Start\<close> beside the informers, the deltas worker and the auditor: everything is
    reported, and a stop at the wrong moment leaves \<open>Start\<close> hanging.
  \<^item> \<open>Utils\<close>, \<open>Startup\<close>, \<open>Main_Program\<close>: \<open>utils/utils.go\<close>; what \<open>main.go\<close>, \<open>probes.go\<close> and \<open>kuber/kube.go\<close> compute
    at start; \<open>main\<close> as a whole, with every way it ends. \<open>Command_Line\<close> has the options and defaults of the usage,
    and what \<open>main\<close> makes of a command line that gives almost none of them.
  \<^item> \<open>Wiring\<close>: construction of client and gateway, start and stop of workers (the locale \<open>single_worker\<close>,
    interpreted for the gateway and the auditor), the packet encodings.
  \<^item> \<open>Agent_Main\<close>: \<open>agent/agent.go\<close> and \<open>handlers.go\<close>, \<open>Start\<close>, \<open>Stop\<close> and restart requests interleaved.
  \<^item> \<open>Agent_Flow\<close> and this theory: the paths through several components, from a cluster event to the
    packages for the server and from a packet of constraints to the audit it causes; also where the audit of
    everything and the report of one object disagree, because only the second sees masked values.

  \<^bold>\<open>Conventions.\<close> Definitions keep the names of the code; a method whose name several types share has the
  type's short name in front (\<open>store_Add\<close>, \<open>cache_Put\<close>). A panic is \<open>None\<close> (or a constructor where other
  ways to stop exist), a Go error an option or the left part of a sum. Times, generated ids and orders of
  map iteration are arguments. Libraries are parameters: records of functions (\<open>opa_core\<close>, \<open>remote\<close>,
  \<open>json_api\<close>, \<open>rest_env\<close>, \<open>factory_api\<close>, \<open>main_env\<close>) with documented behaviour as named hypotheses
  (\<open>json_laws\<close>, \<open>factory_laws\<close>, \<open>registry_laws\<close>, \<open>respects_usage\<close>, \<open>parses_durations\<close>). \<open>string_msgs\<close>, that
  policies report messages which are strings, is a restriction and not a promise of the engine: it excludes the
  panic of \<open>msg.(string)\<close> in \<open>Audit\<close>, which \<open>Auditor_Loop\<close> treats.
  Concurrent code is a step function on events whose runs are all interleavings, at the granularity of
  the code's mutexes and channel operations.

  \<^bold>\<open>Bounds.\<close> No definition uses fuel. Loops are structural or have a measure: the expiry loop of the
  store ends because each round drops a package or moves on, the backoff loop because \<open>try\<close> grows to the
  limit. \<open>GetParents\<close> is a partial function, because a cycle of owners makes the code recurse for ever;
  that it returns is proved for acyclic ownership. \<open>stackTrace\<close> is one too: it returns exactly when some
  trace is shorter than the buffer, which it doubles each time. The usage counts of templates are 64-bit integers,
  hence the hypothesis that there are fewer than \<open>2 ^ 63\<close> constraints.

  \<^bold>\<open>Not modelled.\<close> The Kubernetes client and its informers, the websocket channel, the policy engine, the
  JSON and snappy encodings, the logger, docopt and SHA-512 are libraries. The HTTP server of the probes is the
  library's; its routes and handlers are modelled. The types of \<open>kube.go\<close> and
  \<open>packets.go\<close> that no function uses (\<open>RawResources\<close>, \<open>TotalResources\<close>, \<open>ReplicasStatus\<close> and others) have no
  counterpart. A round of the audit worker and a batch of constraints are atomic except in \<open>Auditor_Race\<close>,
  which shows what happens when they are not; the memory races that the Go runtime itself detects in
  concurrent map accesses are outside the model. The files under \<open>tests/\<close> are mocks.
\<close>

subsection \<open>An engine and an observer together\<close>

definition demo_meta :: "demo_json \<Rightarrow> demo_json Unstructured" where
  "demo_meta j = \<lparr>un_OwnerReferences = [], un_Namespace = ''ns'', un_Kind = demo_kind j, un_Name = ''web'', un_Labels = fmempty,
     un_Object = j\<rparr>"

definition demo_engine :: "(string, unit, demo_json, unit) opa_core" where
  "demo_engine = \<lparr>opa_Parse = (\<lambda>code q. Inr code), opa_Eval = (\<lambda>p obj par q. None), ew_GetParents = (\<lambda>_ _ _. None)\<rparr>"


definition demo_item :: "unit PacketConstraintItem" where
  "demo_item = \<lparr>pi_Id = ''d'', pi_TemplateId = ''t'', pi_AccountId = [], pi_ClusterId = [], pi_Name = ''d'', pi_TemplateName = ''t'',
     pi_Parameters = (), pi_Match = \<lparr>pm_Namespaces = [], pm_Kinds = [], pm_Labels = []\<rparr>, pi_Code = ''allow'', pi_Description = [],
     pi_HowToSolve = [], pi_CategoryId = [], pi_Severity = [], pi_Controls = [], pi_Standards = [], pi_UpdatedAt = 2,
     pi_DeletedAt = None\<rparr>"

lemma string_msgs_engine: "string_msgs demo_engine"
  by (simp add: string_msgs_def demo_engine_def)

subsection \<open>Properties\<close>



text \<open>C16: A full audit sends the objects of the informer cache as they are: when the auditor handles an
  audit command, a tick or the end of the synchronisation, the items piped to the server contain, for
  every ownerless listed entity and every stored constraint that matches it, the entity's object,
  unmasked if it is unmasked in the cache. The cache holds unmasked objects, because masking copies.\<close>

theorem full_audit_sends_cached_objects:
  assumes "opa_inv tmpl a" and "string_msgs env" and "choices_ok a [] ch" and "e \<in> {Command, EntitiesSync, Tick}"
    and "resource \<in> set (concat listed)" and "un_OwnerReferences resource = []"
    and "\<forall>p. ew_GetParents env (un_Namespace resource) (un_Kind resource) (un_Name resource) = Some (Some p) \<longrightarrow>
      un_Kind resource \<noteq> ''Pod'' \<and> un_Kind resource \<noteq> ''ReplicaSet''"
    and "fmlookup (oa_constraints a) cid = Some c" and "matchEntity resource (co_Match c)"
  shows "\<exists>st' sent. handle_event env listed ch (a, b) e = Some (st', sent) \<and>
    (\<exists>item \<in> set (piped_items now sent). pa_EntitySpec item = un_Object resource \<and> pa_ConstraintID item = Some cid)"
proof -
  obtain a' sent where "audit_resources env [] (event_type e) ch 0 (concat listed) a [] = Some (a', sent)"
    and hit: "\<exists>r \<in> set (concat sent). ar_EntitySpec r = un_Object resource \<and> ar_ConstraintID r = Some cid"
    using audit_resources_hits [OF assms(2,6,7,9,1,3), of cid "concat listed" "event_type e" 0 "[]"] assms(5,8)
    by (auto simp: fmlookup_getConstraints)
  then have "\<exists>b'. handle_event env listed ch (a, b) e = Some ((a', b'), sent)"
    using assms(4) by (auto simp: handle_event_def auditAllResourcesAndSendData_def)
  moreover have "\<exists>item \<in> set (piped_items now sent). pa_EntitySpec item = un_Object resource \<and> pa_ConstraintID item = Some cid"
    unfolding piped_items_eq using hit by (auto simp: ToPacket_def image_iff)
  ultimately show ?thesis by blast
qed

lemma demo_secret_pod_unmasked: "\<not> masked_object demo_api demo_secret_pod"
  by (simp add: masked_object_def masked_spec_def masked_container_def demo_api_def demo_secret_pod_def podSpecMap_def maskedValue_def)

theorem full_audit_sends_cached_objects_witness:
  "\<exists>st' sent item. handle_event demo_engine [[demo_meta demo_secret_pod]] (\<lambda>_. ([''c''], \<lambda>_. [])) (demo_auditor, True) Command = Some (st', sent) \<and>
    item \<in> set (piped_items 1 sent) \<and> \<not> masked_object demo_api (pa_EntitySpec item)"
  using full_audit_sends_cached_objects [OF opa_inv_demo string_msgs_engine, of "\<lambda>_. ([''c''], \<lambda>_. [])" Command
      "demo_meta demo_secret_pod" "[[demo_meta demo_secret_pod]]" "''c''" "stored_constraint (demo_constraint ''c'' ''t'' ''deny'' 1)" True 1]
    demo_secret_pod_unmasked
  by (force simp: choices_ok_def range_order_def getConstraints_def demo_meta_def demo_engine_def matchEntity_def
      stored_constraint_def demo_constraint_def any_match_def)

text \<open>C13: A packet of constraints takes effect end to end: if it decodes, its policies parse and no
  constraint changes its template, the listener answers without a panic; the auditor then holds exactly
  the old constraints updated by the packet's, consistent with its templates; and if any was stored, one event
  is queued, whose handling does not panic and sends results for the stored constraints only.\<close>

theorem constraints_packet_takes_effect:
  assumes "decode input = Inr items" and "opa_inv tmpl a" and "good_batch env tmpl (map constraint_of_packet items)"
    and "int (GetConstraintsSize a + length items) < 2 ^ 63" and "string_msgs env"
  shows "\<exists>a' q'. constraints_listener decode response (addConstraints env) input (a, q) = Some ((a', q @ q'), response) \<and>
    opa_inv tmpl a' \<and> oa_constraints a' = fold apply_update (map constraint_of_packet items) (oa_constraints a) \<and>
    (q' = [] \<longleftrightarrow> updated_ids (map constraint_of_packet items) (oa_constraints a) = []) \<and>
    (\<forall>e \<in> set q'. \<forall>listed ch b. choices_ok a' (event_ids e) ch \<longrightarrow>
      (\<exists>st' sent. handle_event env listed ch (a', b) e = Some (st', sent) \<and>
        (\<forall>r \<in> set (concat sent). \<exists>cid \<in> set (updated_ids (map constraint_of_packet items) (oa_constraints a)).
          ar_ConstraintID r = Some cid)))"
proof -
  let ?cs = "map constraint_of_packet items"
  let ?ids = "updated_ids ?cs (oa_constraints a)"
  let ?ev = "if oa_constraints a = fmempty then Initial ?ids else PolicyChange ?ids"
  obtain a' where a': "HandleConstraints env a ?cs = Some (a', (if ?ids = [] then None else Some ?ev), fmempty)"
    "opa_inv tmpl a'" "oa_constraints a' = fold apply_update ?cs (oa_constraints a)"
    using HandleConstraints_ok [OF assms(2,3)] assms(4) by auto
  let ?q' = "if ?ids = [] then [] else [?ev]"
  have run: "constraints_listener decode response (addConstraints env) input (a, q) = Some ((a', q @ ?q'), response)"
    using assms(1) a'(1) by (simp add: constraints_listener_def addConstraints_def)
  have handled: "\<exists>st' sent. handle_event env listed ch (a', b) e = Some (st', sent) \<and>
      (\<forall>r \<in> set (concat sent). \<exists>cid \<in> set ?ids. ar_ConstraintID r = Some cid)"
    if e0: "e \<in> set ?q'" and ch0: "choices_ok a' (event_ids e) ch" for e listed ch b
  proof -
    have e: "?ids \<noteq> []" "event_ids e = ?ids" "e = ?ev" using e0 by (auto split: if_splits)
    obtain a2 sent where all: "audit_resources env ?ids (event_type e) ch 0 (concat listed) a' [] = Some (a2, sent)"
      using audit_resources_total [OF assms(5) a'(2), of ?ids ch "event_type e" 0 "concat listed" "[]"] ch0 e(2) by auto
    have "\<forall>r \<in> set (concat sent). \<exists>cid \<in> set ?ids. ar_ConstraintID r = Some cid"
      using audit_resources_ids [OF a'(2) e(1) all] by auto
    moreover have "handle_event env listed ch (a', b) e = Some ((a2, b), sent)"
      using all e(3) by (auto simp: handle_event_def auditAllResourcesAndSendData_def)
    ultimately show ?thesis by blast
  qed
  show ?thesis using run a'(2,3) handled by (intro exI [of _ a'] exI [of _ ?q']) auto
qed

theorem constraints_packet_takes_effect_witness:
  "\<exists>a' q'. constraints_listener (\<lambda>_. Inr [demo_item]) (Inr ''ok'') (addConstraints demo_core) ''packet'' (demo_auditor, []) =
      Some ((a', [] @ q'), Inr ''ok'') \<and> fmlookup (oa_constraints a') ''d'' = Some (stored_constraint (constraint_of_packet demo_item)) \<and> q' \<noteq> []"
proof -
  have item: "ac_Id (constraint_of_packet demo_item) = ''d''" "ac_TemplateId (constraint_of_packet demo_item) = ''t''"
    "ac_DeletedAt (constraint_of_packet demo_item) = None" "ac_Code (constraint_of_packet demo_item) = ''allow''"
    by (simp_all add: constraint_of_packet_def demo_item_def)
  have upd: "updated_ids [constraint_of_packet demo_item] (oa_constraints demo_auditor) = [''d'']"
    by (simp add: newer_def item)
  have good: "good_batch demo_core (\<lambda>_. ''t'') (map constraint_of_packet [demo_item])"
    by (simp add: good_batch_def demo_core_def item)
  have size: "int (GetConstraintsSize demo_auditor + length [demo_item]) < 2 ^ 63"
    by (simp add: GetConstraintsSize_def fcard.rep_eq)
  obtain a' q' where "constraints_listener (\<lambda>_. Inr [demo_item]) (Inr ''ok'') (addConstraints demo_core) ''packet'' (demo_auditor, []) =
      Some ((a', [] @ q'), Inr ''ok'')"
    "oa_constraints a' = fold apply_update (map constraint_of_packet [demo_item]) (oa_constraints demo_auditor)" "q' \<noteq> []"
    using constraints_packet_takes_effect [where decode = "\<lambda>_. Inr [demo_item]" and items = "[demo_item]" and input = "''packet''"
        and response = "Inr ''ok''" and q = "[]", OF _ opa_inv_demo good size string_msgs_demo] upd
    by fastforce
  moreover from this(2) have "fmlookup (oa_constraints a') ''d'' = Some (stored_constraint (constraint_of_packet demo_item))"
    by (simp add: apply_update_def newer_def item)
  ultimately show ?thesis by blast
qed

subsection \<open>Two audits of one object\<close>

definition demo_secret_engine :: "(string, unit, demo_json, unit) opa_core" where
  "demo_secret_engine = \<lparr>opa_Parse = (\<lambda>code q. Inr code),
     opa_Eval = (\<lambda>p obj par q. if obj = demo_secret_pod then Some (OPAError (DetailsMap fmempty)) else None),
     ew_GetParents = (\<lambda>_ _ _. None)\<rparr>"

lemma string_msgs_secret: "string_msgs demo_secret_engine"
  by (simp add: string_msgs_def demo_secret_engine_def)

text \<open>C15: The two kinds of audit disagree about an object whose policy looks at a masked value: the audit of
  everything after the sync evaluates the object of the informer cache, the report of the same object that
  follows, when the handler is added, evaluates the masked copy. If the statuses differ, the second one is sent
  and replaces the first in the cache, although the object has not changed.\<close>

theorem masked_report_contradicts_full_audit:
  fixes obj obj' :: 'j and meta :: "'j \<Rightarrow> 'j Unstructured"
  assumes "opa_inv tmpl a" and "string_msgs env" and "choices_ok a [] ch" and "choices_ok a [] ch'"
    and "AddFunc api (Some obj) = Some [OnAdd obj']" and "getResourceKey (meta obj') = getResourceKey (meta obj)"
    and "audited env (meta obj)" and "audited env (meta obj')" and "fmlookup (oa_constraints a) cid = Some c"
    and "matchEntity (meta obj) (co_Match c)" and "matchEntity (meta obj') (co_Match c)"
    and "eval_status (evaluate env a (meta obj) c) \<noteq> eval_status (evaluate env a (meta obj') c)"
  shows "\<exists>a1 sent a2 rs. handle_event env [[meta obj]] ch (a, b) EntitiesSync = Some ((a1, True), sent) \<and>
    handle_event env listed ch' (a1, True) (call_event meta (OnAdd obj')) = Some ((a2, True), [rs]) \<and>
    (\<exists>r \<in> set rs. ar_ConstraintID r = Some cid) \<and>
    cache_Get cid (getResourceKey (meta obj)) (oa_cache a1) = Some (eval_status (evaluate env a (meta obj) c)) \<and>
    cache_Get cid (getResourceKey (meta obj)) (oa_cache a2) = Some (eval_status (evaluate env a (meta obj') c))"
proof -
  obtain a1 sent where a1: "audit_resources env [] (event_type (EntitiesSync :: 'j AuditEvent)) ch 0 [meta obj] a [] = Some (a1, sent)"
    "same_policies a a1" "cache_current env [] a1 (meta obj)"
    using audit_resources_current [OF assms(2,1,3), of "[meta obj]" "event_type (EntitiesSync :: 'j AuditEvent)" 0 "[]"] assms(7) by auto
  have run: "handle_event env [[meta obj]] ch (a, b) EntitiesSync = Some ((a1, True), sent)"
    using a1(1) by (simp add: handle_event_def auditAllResourcesAndSendData_def del: audit_resources.simps)
  have pol: "oa_constraints a1 = oa_constraints a" "evaluate env a1 x c = evaluate env a x c" for x
    using a1(2) by (simp_all add: same_policies_def)
  have c1: "fmlookup (oa_constraints a1) cid = Some c \<and> matchEntity (meta obj') (co_Match c)" using pol assms(9,11) by simp
  have cached: "cache_Get cid (getResourceKey (meta obj)) (oa_cache a1) = Some (eval_status (evaluate env a (meta obj) c))"
    using a1(3) pol assms(9,10) by (simp add: cache_current_def getConstraints_def)
  have "opa_inv tmpl a1" "choices_ok a1 [] ch'" using assms(1,4) opa_inv_same [OF a1(2)] choices_same [OF a1(2)] by auto
  from entity_change_effect [OF this(1) assms(2) this(2) assms(8), of listed] obtain a2 rs where
    a2: "handle_event env listed ch' (a1, True) (EntityChange (meta obj')) = Some ((a2, True), [rs])"
    "(\<exists>r \<in> set rs. ar_ConstraintID r = Some cid) \<longleftrightarrow>
      cache_Get cid (getResourceKey (meta obj')) (oa_cache a1) \<noteq> Some (eval_status (evaluate env a1 (meta obj') c))"
    "cache_Get cid (getResourceKey (meta obj')) (oa_cache a2) = Some (eval_status (evaluate env a1 (meta obj') c))"
    using c1 by blast
  have "\<exists>r \<in> set rs. ar_ConstraintID r = Some cid" using a2(2) cached assms(6,12) pol(2) by simp
  moreover have "cache_Get cid (getResourceKey (meta obj)) (oa_cache a2) = Some (eval_status (evaluate env a (meta obj') c))"
    using a2(3) assms(6) pol(2) by simp
  ultimately show ?thesis using run a2(1) cached by (auto simp: OnResourceAdd_def)
qed

theorem masked_report_contradicts_full_audit_witness:
  "\<exists>obj' a1 sent a2 rs. AddFunc demo_api (Some demo_secret_pod) = Some [OnAdd obj'] \<and>
    handle_event demo_secret_engine [[demo_meta demo_secret_pod]] (\<lambda>_. ([''c''], \<lambda>_. [])) (demo_auditor, False) EntitiesSync = Some ((a1, True), sent) \<and>
    handle_event demo_secret_engine [] (\<lambda>_. ([''c''], \<lambda>_. [])) (a1, True) (call_event demo_meta (OnAdd obj')) = Some ((a2, True), [rs]) \<and> rs \<noteq> []"
proof -
  let ?ch = "\<lambda>_ :: nat. ([''c''], \<lambda>_ :: nat. [])" and ?c = "stored_constraint (demo_constraint ''c'' ''t'' ''deny'' 1)"
  obtain obj' where obj': "AddFunc demo_api (Some demo_secret_pod) = Some [OnAdd obj']" "obj' \<noteq> demo_secret_pod" "demo_kind obj' = demo_kind demo_secret_pod"
    by (simp add: AddFunc_def maskUnstructured_def demo_api_def demo_secret_pod_def podSpecMap_def mask_spec_def maskedValue_def)
  have ok: "choices_ok demo_auditor [] ?ch" by (simp add: choices_ok_def range_order_def getConstraints_def)
  have key: "getResourceKey (demo_meta obj') = getResourceKey (demo_meta demo_secret_pod)"
    using obj'(3) by (simp add: getResourceKey_def demo_meta_def)
  have aud: "audited demo_secret_engine (demo_meta j)" for j by (simp add: audited_def demo_meta_def demo_secret_engine_def)
  have m: "matchEntity (demo_meta j) (co_Match ?c)" for j
    by (simp add: matchEntity_def stored_constraint_def demo_constraint_def any_match_def)
  have "eval_status (evaluate demo_secret_engine demo_auditor (demo_meta demo_secret_pod) ?c) \<noteq>
      eval_status (evaluate demo_secret_engine demo_auditor (demo_meta obj') ?c)"
    using obj'(2) by (simp add: demo_secret_engine_def demo_meta_def eval_status_def status_defs)
  from masked_report_contradicts_full_audit [OF opa_inv_demo string_msgs_secret ok ok obj'(1) key aud aud _ m m this, of "''c''" False "[]"]
  show ?thesis using obj'(1) by fastforce
qed

end
